(* ===== verification/Prelude.thy ===== *)
theory Prelude
  imports Main "HOL-Library.Word" "HOL-Library.Char_ord" "HOL-Library.Sublist"
begin

text \<open>
  Shared vocabulary of the Callisto development: the names of the machine types, the model of
  \<open>std::string::find\<close> and of the ASCII helpers the sources use, saturating 64-bit addition
  and subtraction as \<open>session_park.cpp\<close> writes them, and the two contracts every streaming
  component is checked against (nothing is lost, and the chunking of the input does not matter).

  A \<open>std::string\<close> is a \<open>string\<close> (a list of 8-bit characters), a raw byte buffer a list
  of \<open>8 word\<close>, a \<open>size_t\<close> that indexes memory a \<open>nat\<close>, and every integer on which
  the code computes near its width is a word.
\<close>

unbundle bit_operations_syntax

named_theorems stream_simps \<open>one step of a streaming component\<close>
named_theorems find_facts \<open>what a successful or failed search says about the text\<close>

type_synonym byte = "8 word"
type_synonym u32 = "32 word"
type_synonym u64 = "64 word"
type_synonym token = "32 word"

abbreviation byte_of :: "char \<Rightarrow> byte" where
  "byte_of c \<equiv> of_char c"

abbreviation code_of :: "char \<Rightarrow> nat" where
  "code_of c \<equiv> of_char c"

section \<open>Lists\<close>

lemma dropWhile_pre: "list_all P a \<Longrightarrow> b = [] \<or> \<not> P (hd b) \<Longrightarrow> dropWhile P (a @ b) = b"
  by (induction a) (cases b; simp)+

lemma takeWhile_pre: "list_all P a \<Longrightarrow> b = [] \<or> \<not> P (hd b) \<Longrightarrow> takeWhile P (a @ b) = a"
  by (induction a) (cases b; simp)+

section \<open>Characters\<close>

abbreviation nl :: char where "nl \<equiv> CHR 0x0A"

definition is_digit_char :: "char \<Rightarrow> bool" where
  "is_digit_char c \<longleftrightarrow> 48 \<le> code_of c \<and> code_of c \<le> 57"

definition is_upper_char :: "char \<Rightarrow> bool" where
  "is_upper_char c \<longleftrightarrow> 65 \<le> code_of c \<and> code_of c \<le> 90"

definition is_lower_char :: "char \<Rightarrow> bool" where
  "is_lower_char c \<longleftrightarrow> 97 \<le> code_of c \<and> code_of c \<le> 122"

definition to_lower :: "char \<Rightarrow> char" where
  "to_lower c = (if is_upper_char c then char_of (code_of c + 32) else c)"

definition lower_string :: "string \<Rightarrow> string" where
  "lower_string s = map to_lower s"

lemma code_of_inject [simp]: "code_of c = code_of d \<longleftrightarrow> c = d"
  by (metis char_of_char)

section \<open>Searching a string\<close>

text \<open>
  \<open>sfind pat s\<close> is \<open>s.find(pat)\<close>: the first index at which \<open>pat\<close> occurs,
  \<open>None\<close> for \<open>npos\<close>. \<open>sfind_from pat s i\<close> is \<open>s.find(pat, i)\<close>.
\<close>

fun sfind :: "'a list \<Rightarrow> 'a list \<Rightarrow> nat option" where
  "sfind pat [] = (if pat = [] then Some 0 else None)"
| "sfind pat (c # cs) =
     (if prefix pat (c # cs) then Some 0 else map_option Suc (sfind pat cs))"

definition sfind_from :: "'a list \<Rightarrow> 'a list \<Rightarrow> nat \<Rightarrow> nat option" where
  "sfind_from pat s i =
     (if length s < i then None else map_option (\<lambda>k. i + k) (sfind pat (drop i s)))"

lemma sfind_SomeD [find_facts]:
  "sfind pat s = Some i \<Longrightarrow> prefix pat (drop i s) \<and> i + length pat \<le> length s"
proof (induction pat s arbitrary: i rule: sfind.induct)
  case (1 pat)
  then show ?case by (auto split: if_splits)
next
  case (2 pat c cs)
  show ?case
  proof (cases "prefix pat (c # cs)")
    case True
    with 2 show ?thesis by (auto dest: prefix_length_le)
  next
    case False
    with 2 obtain k where "sfind pat cs = Some k" "i = Suc k" by auto
    with 2 False show ?thesis by auto
  qed
qed

lemma sfind_first:
  "sfind pat s = Some i \<Longrightarrow> j < i \<Longrightarrow> \<not> prefix pat (drop j s)"
proof (induction pat s arbitrary: i j rule: sfind.induct)
  case (1 pat)
  then show ?case by (auto split: if_splits)
next
  case (2 pat c cs)
  then show ?case by (cases j) (auto split: if_splits)
qed

lemma sfind_NoneD [find_facts]:
  "sfind pat s = None \<Longrightarrow> \<not> prefix pat (drop j s)"
proof (induction pat s arbitrary: j rule: sfind.induct)
  case (1 pat)
  then show ?case by (auto split: if_splits)
next
  case (2 pat c cs)
  then show ?case by (cases j) (auto split: if_splits)
qed

lemma sfind_SomeI:
  assumes "prefix pat (drop i s)" and "i \<le> length s" and "\<And>j. j < i \<Longrightarrow> \<not> prefix pat (drop j s)"
  shows "sfind pat s = Some i"
proof (cases "sfind pat s")
  case None
  with assms(1) show ?thesis by (auto dest: sfind_NoneD)
next
  case (Some k)
  with assms sfind_first [OF Some] sfind_SomeD [OF Some] show ?thesis
    by (metis linorder_neqE_nat)
qed

lemma sfind_decomp:
  assumes "sfind pat s = Some i"
  shows "s = take i s @ pat @ drop (i + length pat) s"
proof -
  from sfind_SomeD [OF assms] obtain r where r: "drop i s = pat @ r"
    by (auto simp: prefix_def)
  then have "r = drop (i + length pat) s"
    by (metis add.commute append_eq_conv_conj drop_drop)
  with r show ?thesis by (metis append_take_drop_id)
qed

lemma sfind_None_iff: "sfind pat s = None \<longleftrightarrow> (\<forall>u v. s \<noteq> u @ pat @ v)"
proof
  assume none: "sfind pat s = None"
  show "\<forall>u v. s \<noteq> u @ pat @ v"
  proof (intro allI notI)
    fix u v assume "s = u @ pat @ v"
    then have "prefix pat (drop (length u) s)" by simp
    with sfind_NoneD [OF none] show False by blast
  qed
next
  assume "\<forall>u v. s \<noteq> u @ pat @ v"
  then show "sfind pat s = None"
    by (metis not_Some_eq sfind_decomp)
qed

lemma sfind_progress:
  "sfind p s = Some i \<Longrightarrow> p \<noteq> [] \<Longrightarrow> length (drop (i + length p) s) < length s"
  by (cases p) (auto dest: sfind_SomeD)

section \<open>Saturating 64-bit arithmetic\<close>

text \<open>
  \<open>if (a > max - b) a = max; else a += b;\<close> and \<open>if (a >= b) a -= b; else a = 0;\<close>,
  the two patterns by which the byte counters of the session cache avoid wrap-around.
\<close>

definition u64_max :: u64 where
  "u64_max = - 1"

definition sat_add :: "u64 \<Rightarrow> u64 \<Rightarrow> u64" where
  "sat_add a b = (if u64_max - b < a then u64_max else a + b)"

definition sat_sub :: "u64 \<Rightarrow> u64 \<Rightarrow> u64" where
  "sat_sub a b = (if b \<le> a then a - b else 0)"

lemma unat_u64_max: "unat u64_max = 2 ^ 64 - 1"
  by (simp add: u64_max_def unsigned_minus_1_eq_mask mask_eq_exp_minus_1)

lemma unat_u64_less: "unat (w :: u64) < 2 ^ 64"
  using unsigned_less [of w] by simp

lemma u64_le_max [simp]: "w \<le> u64_max"
  by (simp add: u64_max_def)

lemma unat_max_minus: "unat (u64_max - b) = 2 ^ 64 - 1 - unat b"
  using unat_sub [of b u64_max] by (simp add: unat_u64_max)

lemma u64_room_iff: "u64_max - b < a \<longleftrightarrow> 2 ^ 64 - 1 < unat a + unat b"
  using unat_u64_less [of b] by (simp only: word_less_nat_alt unat_max_minus) linarith

lemma u64_add_exact: "\<not> u64_max - b < a \<Longrightarrow> unat (a + b) = unat a + unat b"
  by (subst unat_add_lem [THEN iffD1]) (simp_all add: u64_room_iff)

lemma unat_sat_add: "unat (sat_add a b) = min (2 ^ 64 - 1) (unat a + unat b)"
  by (cases "u64_max - b < a") (simp_all add: sat_add_def unat_u64_max u64_add_exact u64_room_iff)

lemma unat_sat_sub: "unat (sat_sub a b) = unat a - unat b"
  by (auto simp: sat_sub_def unat_sub word_le_nat_alt)

section \<open>Stream contracts\<close>

text \<open>
  A conserving stream hands out every input element exactly once and in order: what has been
  handed out, followed by what is still pending, is what was pending followed by the input.
\<close>

fun run_stream :: "('s \<Rightarrow> 'i \<Rightarrow> 'o \<times> 's) \<Rightarrow> 's \<Rightarrow> 'i list \<Rightarrow> 'o list \<times> 's" where
  "run_stream f s [] = ([], s)"
| "run_stream f s (x # xs) =
     (let (y, s') = f s x; (ys, s'') = run_stream f s' xs in (y # ys, s''))"

lemma run_stream_length:
  "run_stream f s xs = (ys, s') \<Longrightarrow> length ys = length xs"
  by (induction xs arbitrary: s ys) (auto split: prod.splits)

lemma run_stream_append:
  "run_stream f s (xs @ ys) =
     (let (us, s') = run_stream f s xs; (vs, s'') = run_stream f s' ys in (us @ vs, s''))"
  by (induction xs arbitrary: s) (auto simp: Let_def split: prod.splits)

locale conserving_stream =
  fixes step :: "'s \<Rightarrow> 'a list \<Rightarrow> 'a list \<times> 's"
    and pending :: "'s \<Rightarrow> 'a list"
  assumes step_conserves: "step s x = (y, s') \<Longrightarrow> y @ pending s' = pending s @ x"
begin

lemma run_conserves:
  "run_stream step s xs = (ys, s') \<Longrightarrow> concat ys @ pending s' = pending s @ concat xs"
proof (induction xs arbitrary: s ys)
  case Nil
  then show ?case by simp
next
  case (Cons x xs)
  obtain y t where st: "step s x = (y, t)" by fastforce
  obtain zs u where rn: "run_stream step t xs = (zs, u)" by fastforce
  from Cons.prems st rn have eq: "ys = y # zs" "s' = u" by auto
  from Cons.IH [OF rn [folded eq(2)]] eq(2) have "concat zs @ pending u = pending t @ concat xs" by simp
  then have "concat ys @ pending s' = (y @ pending t) @ concat xs" by (simp add: eq)
  also have "\<dots> = pending s @ concat (x # xs)" by (simp add: step_conserves [OF st])
  finally show ?case .
qed

end

text \<open>
  A chunk-independent transducer gives the same output and reaches the same state however its
  input is cut: feeding \<open>a\<close> and then \<open>b\<close> is feeding \<open>a @ b\<close>. Outputs are
  combined with a monoid operation, since a step may return several channels at once.
\<close>

locale chunked_transducer =
  fixes step :: "'s \<Rightarrow> 'a list \<Rightarrow> 'o \<times> 's"
    and out_zero :: 'o
    and out_add :: "'o \<Rightarrow> 'o \<Rightarrow> 'o"
    and ok :: "'s \<Rightarrow> bool"
  assumes add_zero_left: "out_add out_zero o1 = o1"
    and add_zero_right: "out_add o1 out_zero = o1"
    and add_assoc: "out_add (out_add o1 o2) o3 = out_add o1 (out_add o2 o3)"
    and step_nil: "ok s \<Longrightarrow> step s [] = (out_zero, s)"
    and step_ok: "ok s \<Longrightarrow> step s a = (o1, s') \<Longrightarrow> ok s'"
    and step_append: "ok s \<Longrightarrow> step s a = (o1, s1) \<Longrightarrow> step s1 b = (o2, s2) \<Longrightarrow>
           step s (a @ b) = (out_add o1 o2, s2)"
begin

lemma run_chunks:
  "ok s \<Longrightarrow> run_stream step s xs = (ys, s') \<Longrightarrow>
     step s (concat xs) = (foldr out_add ys out_zero, s')"
proof (induction xs arbitrary: s ys)
  case Nil
  then show ?case by (simp add: step_nil)
next
  case (Cons x xs)
  obtain y t where st: "step s x = (y, t)" by fastforce
  obtain zs u where rn: "run_stream step t xs = (zs, u)" by fastforce
  from Cons.prems st rn have eq: "ys = y # zs" "s' = u" by auto
  from Cons.prems(1) st have okt: "ok t" by (rule step_ok)
  from Cons.IH [OF okt rn [folded eq(2)]] have "step t (concat xs) = (foldr out_add zs out_zero, s')" by simp
  from step_append [OF Cons.prems(1) st this] eq show ?case by simp
qed

lemma chunking_irrelevant:
  assumes "ok s" and "concat xs = concat xs'"
    and "run_stream step s xs = (ys, s1)" and "run_stream step s xs' = (ys', s2)"
  shows "foldr out_add ys out_zero = foldr out_add ys' out_zero \<and> s1 = s2"
  using run_chunks [OF assms(1,3)] run_chunks [OF assms(1,4)] assms(2) by simp

end

end
