(* ===== verification/Llama_Api.thy ===== *)
theory Llama_Api
  imports Complex_Main Prelude
begin

text \<open>
  The functions of llama.cpp the engine calls. llama.cpp is a submodule, so its context is an
  abstract state \<open>'c\<close>, its sampler an abstract state \<open>'s\<close>, and its functions are the fields
  of a record that every definition using them takes as an argument. \<open>kv_contract\<close> and
  \<open>state_contract\<close> are what llama.h documents of the ones that touch the stored sequence,
  stated over a reading \<open>cells\<close> of the tokens sequence 0 holds; the reading appears in
  hypotheses only and never in the model.

  The second half instantiates the record with a cache that stores its tokens and nothing else.
  The witnesses evaluate on it.
\<close>

datatype sampler_stage =
    Stage_penalties int rat rat rat
  | Stage_top_k int
  | Stage_top_p rat
  | Stage_min_p rat
  | Stage_temp rat
  | Stage_dist u32

record ('c, 's) llama_api =
  seq_pos_max :: "'c \<Rightarrow> int"
  seq_rm :: "'c \<Rightarrow> nat \<Rightarrow> bool \<times> 'c"
  memory_clear :: "'c \<Rightarrow> 'c"
  state_seq_get_size :: "'c \<Rightarrow> nat"
  state_seq_get_data :: "'c \<Rightarrow> nat \<Rightarrow> nat \<times> byte list"
  state_seq_set_data :: "'c \<Rightarrow> byte list \<Rightarrow> nat \<times> 'c"
  state_seq_save_file :: "'c \<Rightarrow> token list \<Rightarrow> nat \<times> byte list"
  state_seq_load_file :: "'c \<Rightarrow> byte list \<Rightarrow> nat \<Rightarrow> nat \<times> token list \<times> 'c"
  ctx_size :: nat
  batch_size :: nat
  llama_decode :: "'c \<Rightarrow> token list \<Rightarrow> int \<times> 'c"
  sampler_chain :: "sampler_stage list \<Rightarrow> 's option"
  sampler_sample :: "'s \<Rightarrow> 'c \<Rightarrow> token \<times> 's"
  vocab_n_tokens :: int
  vocab_is_eog :: "token \<Rightarrow> bool"
  token_to_piece :: "token \<Rightarrow> nat \<Rightarrow> int \<times> string"
  llama_tokenize :: "string \<Rightarrow> nat \<Rightarrow> int \<times> token list"
  seq_magic :: u32
  seq_version :: u32

text \<open>Float settings are the rationals they denote; the code only compares and passes them on.\<close>

section \<open>Little-endian words\<close>

text \<open>How a 32-bit value lies in memory and in a file on the machines the server runs on.\<close>

definition le32 :: "u32 \<Rightarrow> byte list" where
  "le32 w = [ucast w, ucast (drop_bit 8 w), ucast (drop_bit 16 w), ucast (drop_bit 24 w)]"

definition of_le32 :: "byte list \<Rightarrow> u32" where
  "of_le32 b =
     ucast (b ! 0) OR push_bit 8 (ucast (b ! 1)) OR push_bit 16 (ucast (b ! 2))
       OR push_bit 24 (ucast (b ! 3))"

definition bytes_of_tokens :: "token list \<Rightarrow> byte list" where
  "bytes_of_tokens ts = concat (map le32 ts)"

fun tokens_of_bytes :: "byte list \<Rightarrow> token list" where
  "tokens_of_bytes (a # b # c # d # r) = of_le32 [a, b, c, d] # tokens_of_bytes r"
| "tokens_of_bytes _ = []"

lemma length_le32 [simp]: "length (le32 w) = 4"
  by (simp add: le32_def)

lemma of_le32_le32 [simp]: "of_le32 (le32 w @ r) = w"
proof (rule bit_word_eqI)
  fix n assume "n < LENGTH(32)"
  then have n: "n < 32" by simp
  consider "n < 8" | "8 \<le> n" "n < 16" | "16 \<le> n" "n < 24" | "24 \<le> n" by linarith
  then show "bit (of_le32 (le32 w @ r)) n = bit w n"
    using n
    by cases (auto simp: of_le32_def le32_def bit_or_iff bit_push_bit_iff bit_unsigned_iff
        bit_drop_bit_eq dest: bit_imp_le_length)
qed

lemma length_bytes_of_tokens [simp]: "length (bytes_of_tokens ts) = 4 * length ts"
  by (induction ts) (auto simp: bytes_of_tokens_def)

lemma tokens_of_bytes_le32 [simp]: "tokens_of_bytes (le32 w @ r) = w # tokens_of_bytes r"
  using of_le32_le32 [of w "[]"] by (simp add: le32_def)

lemma tokens_of_bytes_of_tokens [simp]: "tokens_of_bytes (bytes_of_tokens ts) = ts"
  by (induction ts) (simp_all add: bytes_of_tokens_def)

section \<open>Documented behaviour\<close>

text \<open>
  \<open>seq_rm c n\<close> is \<open>llama_memory_seq_rm(memory, 0, n, -1)\<close>. A removal that reports success
  counts only when the last position agrees, which is the case the code tests for; a hybrid cache
  may report success and leave its recurrent tail behind. A failed decode promises nothing about
  what it left in the cache.
\<close>

definition kv_contract :: "('c, 's, 'z) llama_api_scheme \<Rightarrow> ('c \<Rightarrow> token list) \<Rightarrow> bool" where
  "kv_contract api cells \<longleftrightarrow>
     (\<forall>c. seq_pos_max api c = int (length (cells c)) - 1) \<and>
     (\<forall>c n c'. n \<le> length (cells c) \<longrightarrow> seq_rm api c n = (True, c') \<longrightarrow>
        seq_pos_max api c' + 1 = int n \<longrightarrow> cells c' = take n (cells c)) \<and>
     (\<forall>c c'. seq_rm api c 0 = (True, c') \<longrightarrow> cells c' = []) \<and>
     (\<forall>c. cells (memory_clear api c) = []) \<and>
     (\<forall>c ts c'. llama_decode api c ts = (0, c') \<longrightarrow> cells c' = cells c @ ts) \<and>
     (\<forall>c ts r c'. llama_decode api c ts = (r, c') \<longrightarrow> prefix (cells c) (cells c'))"

lemma kv_pos_max: "kv_contract api cells \<Longrightarrow> seq_pos_max api c = int (length (cells c)) - 1"
  unfolding kv_contract_def by blast

lemma kv_seq_rm:
  "kv_contract api cells \<Longrightarrow> n \<le> length (cells c) \<Longrightarrow> seq_rm api c n = (True, c') \<Longrightarrow>
     seq_pos_max api c' + 1 = int n \<Longrightarrow> cells c' = take n (cells c)"
  unfolding kv_contract_def by blast

lemma kv_seq_rm_all: "kv_contract api cells \<Longrightarrow> seq_rm api c 0 = (True, c') \<Longrightarrow> cells c' = []"
  unfolding kv_contract_def by blast

lemma kv_memory_clear: "kv_contract api cells \<Longrightarrow> cells (memory_clear api c) = []"
  unfolding kv_contract_def by blast

lemma kv_decode:
  "kv_contract api cells \<Longrightarrow> llama_decode api c ts = (0, c') \<Longrightarrow> cells c' = cells c @ ts"
  unfolding kv_contract_def by blast

lemma kv_decode_prefix:
  "kv_contract api cells \<Longrightarrow> llama_decode api c ts = (r, c') \<Longrightarrow> prefix (cells c) (cells c')"
  unfolding kv_contract_def by blast

text \<open>
  What the state functions promise: the bytes read from a context restore its cells, whether they
  travel through RAM or through a file. \<open>ram_image ts d\<close> says that \<open>d\<close> is what
  \<open>llama_state_seq_get_data\<close> writes for a sequence \<open>ts\<close>, \<open>file_image ts d\<close> the same of
  \<open>llama_state_seq_save_file\<close>. The two differ in their first bytes only, and a file
  starts with magic, version, token count and token ids. A file that was cut
  short is rejected or restores its sequence, and a restore that reports zero bytes leaves the
  contents of the sequence open.
\<close>

definition seq_header :: "('c, 's, 'z) llama_api_scheme \<Rightarrow> token list \<Rightarrow> byte list" where
  "seq_header api ts =
     le32 (seq_magic api) @ le32 (seq_version api) @ le32 (of_nat (length ts)) @ bytes_of_tokens ts"

definition state_contract :: "('c, 's, 'z) llama_api_scheme \<Rightarrow> ('c \<Rightarrow> token list) \<Rightarrow>
    (token list \<Rightarrow> byte list \<Rightarrow> bool) \<Rightarrow> (token list \<Rightarrow> byte list \<Rightarrow> bool) \<Rightarrow> bool" where
  "state_contract api cells ram_image file_image \<longleftrightarrow>
     (\<forall>c n got d. state_seq_get_data api c n = (got, d) \<longrightarrow> 8 \<le> got \<longrightarrow> got \<le> n \<longrightarrow>
        ram_image (cells c) (take got d)) \<and>
     (\<forall>ts d c k c'. ram_image ts d \<longrightarrow> state_seq_set_data api c d = (k, c') \<longrightarrow> k \<noteq> 0 \<longrightarrow>
        cells c' = ts) \<and>
     (\<forall>c n d. state_seq_save_file api c (cells c) = (n, d) \<longrightarrow> file_image (cells c) d) \<and>
     (\<forall>ts d. ram_image ts d \<longrightarrow> file_image ts (seq_header api ts @ drop 8 d)) \<and>
     (\<forall>ts d. file_image ts d \<longrightarrow> prefix (seq_header api ts) d) \<and>
     (\<forall>ts d p c cap k ts' c'. file_image ts d \<longrightarrow> prefix p d \<longrightarrow> length ts \<le> 1048576 \<longrightarrow>
        state_seq_load_file api c p cap = (k, ts', c') \<longrightarrow> k \<noteq> 0 \<longrightarrow> ts' = ts \<and> cells c' = ts)"

lemma state_get:
  "state_contract api cells ri fi \<Longrightarrow> state_seq_get_data api c n = (got, d) \<Longrightarrow> 8 \<le> got \<Longrightarrow>
     got \<le> n \<Longrightarrow> ri (cells c) (take got d)"
  by (simp add: state_contract_def)

lemma state_set:
  "state_contract api cells ri fi \<Longrightarrow> ri ts d \<Longrightarrow> state_seq_set_data api c d = (k, c') \<Longrightarrow> k \<noteq> 0 \<Longrightarrow>
     cells c' = ts"
  unfolding state_contract_def by blast

lemma state_save:
  "state_contract api cells ri fi \<Longrightarrow> state_seq_save_file api c (cells c) = (n, d) \<Longrightarrow> fi (cells c) d"
  unfolding state_contract_def by blast

lemma state_ram_file:
  "state_contract api cells ri fi \<Longrightarrow> ri ts d \<Longrightarrow> fi ts (seq_header api ts @ drop 8 d)"
  unfolding state_contract_def by blast

lemma state_header: "state_contract api cells ri fi \<Longrightarrow> fi ts d \<Longrightarrow> prefix (seq_header api ts) d"
  unfolding state_contract_def by blast

lemma state_load:
  "state_contract api cells ri fi \<Longrightarrow> fi ts d \<Longrightarrow> prefix p d \<Longrightarrow> length ts \<le> 1048576 \<Longrightarrow>
     state_seq_load_file api c p cap = (k, ts', c') \<Longrightarrow> k \<noteq> 0 \<Longrightarrow> ts' = ts \<and> cells c' = ts"
  unfolding state_contract_def by blast

lemmas state_facts = state_get state_set state_save state_ram_file state_load

section \<open>A cache that is its token list\<close>

definition list_ram :: "token list \<Rightarrow> byte list" where
  "list_ram ts = replicate 8 0 @ bytes_of_tokens ts"

definition scripted_cache :: "token list \<Rightarrow> nat \<Rightarrow> nat \<Rightarrow> token \<Rightarrow> (token list, token list) llama_api" where
  "scripted_cache script ctx batch eog = \<lparr>
     seq_pos_max = (\<lambda>c. int (length c) - 1),
     seq_rm = (\<lambda>c n. (True, take n c)),
     memory_clear = (\<lambda>c. []),
     state_seq_get_size = (\<lambda>c. 8 + 4 * length c),
     state_seq_get_data = (\<lambda>c n. (8 + 4 * length c, list_ram c)),
     state_seq_set_data = (\<lambda>c d. (length d, tokens_of_bytes (drop 8 d))),
     state_seq_save_file = (\<lambda>c ts. (12 + 8 * length c,
       le32 1 @ le32 2 @ le32 (of_nat (length ts)) @ bytes_of_tokens ts @ bytes_of_tokens c)),
     state_seq_load_file = (\<lambda>c d cap.
       let n = unat (of_le32 (drop 8 d))
       in if length d < 12 + 8 * n \<or> cap < n then (0, [], c)
          else (length d, tokens_of_bytes (take (4 * n) (drop 12 d)),
                tokens_of_bytes (drop (12 + 4 * n) d))),
     ctx_size = ctx, batch_size = batch,
     llama_decode = (\<lambda>c ts. if ctx < length c + length ts then (1, c) else (0, c @ ts)),
     sampler_chain = (\<lambda>stages. Some script),
     sampler_sample = (\<lambda>s c. case s of [] \<Rightarrow> (eog, []) | t # ts \<Rightarrow> (t, ts)),
     vocab_n_tokens = 256,
     vocab_is_eog = (\<lambda>t. t = eog),
     token_to_piece = (\<lambda>t n. (1, [char_of (unat t)])),
     llama_tokenize = (\<lambda>s cap. if cap < length s then (- int (length s), [])
       else (int (length s), map (\<lambda>ch. of_nat (of_char ch)) s)),
     seq_magic = 1, seq_version = 2 \<rparr>"

lemma list_cache_kv: "kv_contract (scripted_cache script ctx batch eog) (\<lambda>c. c)"
  unfolding kv_contract_def by (simp add: scripted_cache_def)

lemma drop_le32: "4 \<le> n \<Longrightarrow> drop n (le32 w @ r) = drop (n - 4) r"
  by simp

lemma of_le32_append: "4 \<le> length b \<Longrightarrow> of_le32 (b @ r) = of_le32 b"
proof -
  assume "4 \<le> length b"
  then have "0 < length b" "1 < length b" "2 < length b" "3 < length b" by linarith+
  then show ?thesis by (simp only: of_le32_def nth_append if_True)
qed

lemma seq_header_split:
  "seq_header api ts = le32 (seq_magic api) @ le32 (seq_version api) @
     le32 (of_nat (length ts)) @ bytes_of_tokens ts"
  by (simp add: seq_header_def)

text \<open>Reading back the token count of a file, whole or cut short after its header.\<close>

lemma header_count:
  assumes "length ts \<le> 1048576" and "prefix p (seq_header api ts @ body)" and "12 \<le> length p"
  shows "unat (of_le32 (drop 8 p)) = length ts"
proof -
  from assms(2) obtain z where z: "seq_header api ts @ body = p @ z" by (auto simp: prefix_def)
  have "of_le32 (drop 8 p) = of_le32 (drop 8 (p @ z))"
    using assms(3) by (simp add: of_le32_append)
  also have "\<dots> = of_nat (length ts)"
    unfolding z [symmetric] by (simp add: seq_header_def drop_le32)
  finally show ?thesis
    using assms(1) by (simp add: unsigned_of_nat take_bit_nat_eq_self)
qed

lemma list_cache_load:
  assumes len: "length ts \<le> 1048576"
    and p: "prefix p (seq_header (scripted_cache script ctx batch eog) ts @ bytes_of_tokens ts)"
    and load: "state_seq_load_file (scripted_cache script ctx batch eog) c p cap = (k, ts', c')" and k: "k \<noteq> 0"
  shows "ts' = ts \<and> c' = ts"
proof -
  let ?d = "seq_header (scripted_cache script ctx batch eog) ts @ bytes_of_tokens ts"
  let ?n = "unat (of_le32 (drop 8 p))"
  have big: "12 + 8 * ?n \<le> length p"
    and res: "ts' = tokens_of_bytes (take (4 * ?n) (drop 12 p))"
      "c' = tokens_of_bytes (drop (12 + 4 * ?n) p)"
    using load k by (auto simp: scripted_cache_def Let_def split: if_splits)
  have n: "?n = length ts" using header_count [OF len p] big by simp
  have "length ?d = 12 + 8 * length ts" by (simp add: seq_header_def)
  with big n have len: "length ?d \<le> length p" by simp
  from p obtain z where z: "?d = p @ z" unfolding prefix_def by blast
  from len have "length z = 0" unfolding z by simp
  with z have eq: "p = ?d" by simp
  show ?thesis unfolding res n unfolding eq by (simp add: seq_header_def)
qed

lemma list_cache_state:
  "state_contract (scripted_cache script ctx batch eog) (\<lambda>c. c) (\<lambda>ts d. d = list_ram ts)
     (\<lambda>ts d. d = seq_header (scripted_cache script ctx batch eog) ts @ bytes_of_tokens ts)"
  unfolding state_contract_def
proof (intro conjI allI impI; (elim disjE conjE)?)
  show "\<And>ts d p c cap k ts' c'. d = seq_header (scripted_cache script ctx batch eog) ts @ bytes_of_tokens ts \<Longrightarrow>
       prefix p d \<Longrightarrow> length ts \<le> 1048576 \<Longrightarrow>
       state_seq_load_file (scripted_cache script ctx batch eog) c p cap = (k, ts', c') \<Longrightarrow> k \<noteq> 0 \<Longrightarrow> ts' = ts"
    using list_cache_load by (fastforce simp: seq_header_def scripted_cache_def)
  show "\<And>ts d p c cap k ts' c'. d = seq_header (scripted_cache script ctx batch eog) ts @ bytes_of_tokens ts \<Longrightarrow>
       prefix p d \<Longrightarrow> length ts \<le> 1048576 \<Longrightarrow>
       state_seq_load_file (scripted_cache script ctx batch eog) c p cap = (k, ts', c') \<Longrightarrow> k \<noteq> 0 \<Longrightarrow> c' = ts"
    using list_cache_load by (fastforce simp: seq_header_def scripted_cache_def)
qed (auto simp: scripted_cache_def list_ram_def seq_header_def)

abbreviation list_cache :: "nat \<Rightarrow> nat \<Rightarrow> token \<Rightarrow> (token list, token list) llama_api" where
  "list_cache \<equiv> scripted_cache []"

lemmas list_cache_def = scripted_cache_def

end
