(* ===== verification/Token_Offset.thy ===== *)
theory Token_Offset
  imports Prelude
begin

text \<open>
  \<open>src/server/llm/token_offset.hpp\<close>, \<open>src/common/span_prefix.hpp\<close> and
  \<open>src/server/llm/kv_match.hpp\<close>: how much of the live token sequence a new prompt can
  reuse. \<open>checkpoint_from_offsets\<close> jumps over whole messages by their recorded end offsets
  before it compares token by token. Token ids are only compared here, so the definitions are
  polymorphic in their type.
\<close>

section \<open>Model\<close>

text \<open>
  The counting loop of \<open>common_prefix_length\<close>, from index \<open>i\<close>, over the elements both
  spans still have.
\<close>

fun prefix_scan :: "'a list \<Rightarrow> 'a list \<Rightarrow> nat \<Rightarrow> nat" where
  "prefix_scan (x # xs) (y # ys) i = (if x = y then prefix_scan xs ys (Suc i) else i)"
| "prefix_scan _ _ i = i"

definition common_prefix_length :: "'a list \<Rightarrow> 'a list \<Rightarrow> nat" where
  "common_prefix_length a b = prefix_scan a b 0"

text \<open>
  The loop over the message ends. Each end that is not below \<open>matched\<close>, lies inside both
  sequences, and whose new span is equal in both moves \<open>matched\<close>; the first other one stops
  the loop.
\<close>

fun match_ends :: "'a list \<Rightarrow> 'a list \<Rightarrow> nat list \<Rightarrow> nat \<Rightarrow> nat" where
  "match_ends active prompt [] matched = matched"
| "match_ends active prompt (e # ends) matched =
     (if e < matched \<or> length active < e \<or> length prompt < e then matched
      else if take (e - matched) (drop matched active) \<noteq> take (e - matched) (drop matched prompt)
      then matched
      else match_ends active prompt ends e)"

definition checkpoint_from_offsets :: "'a list \<Rightarrow> 'a list \<Rightarrow> nat list \<Rightarrow> nat" where
  "checkpoint_from_offsets active prompt message_ends =
     (let matched = match_ends active prompt message_ends 0
      in prefix_scan (drop matched active) (drop matched prompt) matched)"

text \<open>\<open>pos_max\<close> is the last stored position of the live sequence, -1 when it is empty.\<close>

definition kv_tail_matches :: "nat \<Rightarrow> int \<Rightarrow> bool" where
  "kv_tail_matches n_tokens pos_max =
     (if n_tokens = 0 then pos_max < 0
      else 0 \<le> pos_max \<and> pos_max + 1 = int n_tokens)"

section \<open>The common prefix\<close>

lemma prefix_scan_shift: "prefix_scan a b i = i + prefix_scan a b 0"
proof (induction a arbitrary: b i)
  case (Cons x a)
  show ?case
  proof (cases b)
    case (Cons y ys)
    have "prefix_scan a ys (Suc i) = Suc i + prefix_scan a ys 0" by (rule Cons.IH)
    moreover have "prefix_scan a ys (Suc 0) = Suc 0 + prefix_scan a ys 0" by (rule Cons.IH)
    ultimately show ?thesis using Cons by simp
  qed simp
qed simp

lemma common_prefix_length_simps [simp]:
  "common_prefix_length [] b = 0" "common_prefix_length a [] = 0"
  "common_prefix_length (x # xs) (y # ys) = (if x = y then Suc (common_prefix_length xs ys) else 0)"
proof -
  show "common_prefix_length [] b = 0" by (simp add: common_prefix_length_def)
  show "common_prefix_length a [] = 0" by (cases a) (simp_all add: common_prefix_length_def)
  show "common_prefix_length (x # xs) (y # ys) =
      (if x = y then Suc (common_prefix_length xs ys) else 0)"
    using prefix_scan_shift [of xs ys "Suc 0"] by (simp add: common_prefix_length_def)
qed

lemma common_prefix_props:
  "common_prefix_length a b \<le> length a \<and> common_prefix_length a b \<le> length b \<and>
     take (common_prefix_length a b) a = take (common_prefix_length a b) b"
proof (induction a arbitrary: b)
  case (Cons x a)
  then show ?case by (cases b) auto
qed simp

lemmas common_prefix_le = common_prefix_props [THEN conjunct1]
  common_prefix_props [THEN conjunct2, THEN conjunct1]
lemmas common_prefix_take = common_prefix_props [THEN conjunct2, THEN conjunct2]

lemma common_prefix_greatest:
  "n \<le> length a \<Longrightarrow> n \<le> length b \<Longrightarrow> take n a = take n b \<Longrightarrow> n \<le> common_prefix_length a b"
proof (induction a arbitrary: b n)
  case (Cons x a)
  then show ?case by (cases b; cases n) auto
qed simp

lemma common_prefix_drop:
  assumes "m \<le> common_prefix_length a b"
  shows "common_prefix_length a b = m + common_prefix_length (drop m a) (drop m b)"
  using assms
proof (induction m arbitrary: a b)
  case (Suc m)
  then show ?case by (cases a; cases b) (auto split: if_splits)
qed simp

section \<open>Properties\<close>

lemma match_ends_common:
  "matched \<le> common_prefix_length active prompt \<Longrightarrow>
     match_ends active prompt ends matched \<le> common_prefix_length active prompt"
proof (induction active prompt ends matched rule: match_ends.induct)
  case (2 active prompt e ends matched)
  show ?case
  proof (cases "e < matched \<or> length active < e \<or> length prompt < e \<or>
      take (e - matched) (drop matched active) \<noteq> take (e - matched) (drop matched prompt)")
    case True
    with 2 show ?thesis by auto
  next
    case False
    have "take e active = take matched active @ take (e - matched) (drop matched active)"
      using False by (metis le_add_diff_inverse linorder_not_less take_add)
    also have "take matched active = take matched prompt"
      using 2(2) common_prefix_take [of active prompt] by (metis min.absorb1 take_take)
    also have "take matched prompt @ take (e - matched) (drop matched active) = take e prompt"
      using False by (metis le_add_diff_inverse linorder_not_less take_add)
    finally have "e \<le> common_prefix_length active prompt"
      using False by (intro common_prefix_greatest) auto
    with 2 False show ?thesis by auto
  qed
qed simp

lemma checkpoint_common:
  "checkpoint_from_offsets active prompt message_ends = common_prefix_length active prompt"
proof -
  let ?m = "match_ends active prompt message_ends 0"
  have "?m \<le> common_prefix_length active prompt" by (rule match_ends_common) simp
  then have "common_prefix_length active prompt =
      ?m + common_prefix_length (drop ?m active) (drop ?m prompt)"
    by (rule common_prefix_drop)
  then show ?thesis
    using prefix_scan_shift [of "drop ?m active" "drop ?m prompt" ?m]
    by (simp add: checkpoint_from_offsets_def common_prefix_length_def Let_def)
qed

lemmas checkpoint_le = common_prefix_le [folded checkpoint_common]
lemmas checkpoint_take = common_prefix_take [folded checkpoint_common]

text \<open>
  C10. The prefix search with message ends is the plain one: whatever ends are recorded, stale,
  unsorted or out of range, \<open>checkpoint_from_offsets\<close> returns what \<open>common_prefix_length\<close>
  counts, and that is the longest prefix the live sequence and the prompt share: both agree up to
  it, and no longer prefix of both agrees. The ends only save comparisons.
\<close>

theorem checkpoint_is_longest_common_prefix:
  "checkpoint_from_offsets active prompt message_ends = common_prefix_length active prompt \<and>
   take (checkpoint_from_offsets active prompt message_ends) active =
     take (checkpoint_from_offsets active prompt message_ends) prompt \<and>
   {n. n \<le> length active \<and> n \<le> length prompt \<and> take n active = take n prompt}
     = {0..checkpoint_from_offsets active prompt message_ends}"
proof -
  let ?c = "common_prefix_length active prompt"
  have "take n active = take n prompt" if "n \<le> ?c" for n
    using common_prefix_take [of active prompt] that by (metis min.absorb1 take_take)
  then have "{n. n \<le> length active \<and> n \<le> length prompt \<and> take n active = take n prompt} = {0..?c}"
    using common_prefix_le [of active prompt] common_prefix_greatest [of _ active prompt] by force
  with common_prefix_take [of active prompt] show ?thesis by (simp add: checkpoint_common)
qed

end
