(* ===== verification/Kv_Trim.thy ===== *)
theory Kv_Trim
  imports Llama_Api Token_Offset
begin

text \<open>
  \<open>src/server/llm/kv_trim.cpp\<close>: how a model family drops the tail of the live KV sequence.
  Both policies keep a prefix only when the cache's last position agrees with it, and otherwise
  clear the sequence and the token list together, so that the token list never describes cells
  that are not there. The locale \<open>kv_trim_policy\<close> is the contract the engine relies on.
\<close>

section \<open>Model\<close>

definition tail_matches :: "('c, 's, 'z) llama_api_scheme \<Rightarrow> 'c \<Rightarrow> nat \<Rightarrow> bool" where
  "tail_matches api ctx n_tokens = kv_tail_matches n_tokens (seq_pos_max api ctx)"

definition clear_sequence :: "('c, 's, 'z) llama_api_scheme \<Rightarrow> 'c \<Rightarrow> token list \<Rightarrow> 'c \<times> token list" where
  "clear_sequence api ctx tokens =
     (let (removed, ctx') = seq_rm api ctx 0
      in (if removed then ctx' else memory_clear api ctx', []))"

text \<open>\<open>tokens.resize(n_tokens)\<close> is only reached with \<open>n_tokens < tokens.size()\<close>: it cuts.\<close>

definition drop_suffix :: "('c, 's, 'z) llama_api_scheme \<Rightarrow> 'c \<Rightarrow> token list \<Rightarrow> nat \<Rightarrow>
    bool \<times> 'c \<times> token list" where
  "drop_suffix api ctx tokens n_tokens =
     (let (removed, ctx') = seq_rm api ctx n_tokens
      in if \<not> removed then (False, ctx', tokens)
         else (tail_matches api ctx' n_tokens, ctx', take n_tokens tokens))"

definition qwen_trim :: "('c, 's, 'z) llama_api_scheme \<Rightarrow> 'c \<Rightarrow> token list \<Rightarrow> nat \<Rightarrow>
    bool \<times> 'c \<times> token list" where
  "qwen_trim api ctx tokens n_tokens =
     (if n_tokens = length tokens \<and> tail_matches api ctx n_tokens then (True, ctx, tokens)
      else
        let (dropped, ctx', tokens') =
          (if n_tokens < length tokens then drop_suffix api ctx tokens n_tokens
           else (False, ctx, tokens))
        in if dropped then (True, ctx', tokens')
           else let (ctx'', tokens'') = clear_sequence api ctx' tokens' in (False, ctx'', tokens''))"

definition suffix_trim :: "('c, 's, 'z) llama_api_scheme \<Rightarrow> 'c \<Rightarrow> token list \<Rightarrow> nat \<Rightarrow>
    bool \<times> 'c \<times> token list" where
  "suffix_trim api ctx tokens n_tokens =
     (if n_tokens = length tokens \<and> tail_matches api ctx n_tokens then (True, ctx, tokens)
      else
        let (dropped, ctx', tokens') =
          (if n_tokens < length tokens then drop_suffix api ctx tokens n_tokens
           else (False, ctx, tokens))
        in if dropped then (True, ctx', tokens')
           else let (ctx'', tokens'') = clear_sequence api ctx' tokens' in (False, ctx'', tokens''))"

definition make_kv_trim :: "bool \<Rightarrow> ('c, 's, 'z) llama_api_scheme \<Rightarrow> 'c \<Rightarrow> token list \<Rightarrow> nat \<Rightarrow>
    bool \<times> 'c \<times> token list" where
  "make_kv_trim hybrid_or_recurrent = (if hybrid_or_recurrent then qwen_trim else suffix_trim)"

section \<open>The contract of a policy\<close>

text \<open>
  \<open>coherent api cells ctx tokens\<close>: the tokens the engine believes in are the cells of the
  context. The laws hold for every context whose cells extend the token list, which is the
  situation after a decode that failed half way.
\<close>

definition coherent :: "('c \<Rightarrow> token list) \<Rightarrow> 'c \<Rightarrow> token list \<Rightarrow> bool" where
  "coherent cells ctx tokens \<longleftrightarrow> cells ctx = tokens"

locale kv_trim_policy =
  fixes trim :: "('c, 's, 'z) llama_api_scheme \<Rightarrow> 'c \<Rightarrow> token list \<Rightarrow> nat \<Rightarrow> bool \<times> 'c \<times> token list"
  assumes trim_kept: "kv_contract api cells \<Longrightarrow> n \<le> length tokens \<Longrightarrow> prefix tokens (cells ctx) \<Longrightarrow>
      trim api ctx tokens n = (True, ctx', tokens') \<Longrightarrow> tokens' = take n tokens \<and> cells ctx' = tokens'"
    and trim_cleared: "kv_contract api cells \<Longrightarrow> n \<le> length tokens \<Longrightarrow>
      trim api ctx tokens n = (False, ctx', tokens') \<Longrightarrow> tokens' = [] \<and> cells ctx' = []"
    and trim_all: "kv_contract api cells \<Longrightarrow> trim api ctx [] 0 = (kept, ctx', tokens') \<Longrightarrow>
      tokens' = [] \<and> cells ctx' = []"
    and trim_result: "trim api ctx tokens n = (kept, ctx', tokens') \<Longrightarrow> n \<le> length tokens \<Longrightarrow>
      tokens' = (if kept then take n tokens else [])"
begin

lemma trim_coherent:
  assumes "kv_contract api cells" and "n \<le> length tokens" and "prefix tokens (cells ctx)"
    and "trim api ctx tokens n = (kept, ctx', tokens')"
  shows "coherent cells ctx' tokens' \<and> tokens' = (if kept then take n tokens else [])"
  using assms trim_kept [of api cells n tokens ctx ctx' tokens']
    trim_cleared [of api cells n tokens ctx ctx' tokens']
  by (cases kept) (auto simp: coherent_def)

text \<open>Trimming to nothing empties the cells whatever they held, whether the policy keeps or clears.\<close>

lemma trim_empties:
  assumes "kv_contract api cells" and "tokens = [] \<or> prefix tokens (cells ctx)"
    and "trim api ctx tokens 0 = (kept, ctx', tokens')"
  shows "tokens' = [] \<and> cells ctx' = []"
proof (cases "tokens = []")
  case True
  with assms trim_all show ?thesis by blast
next
  case False
  with assms(2) have "prefix tokens (cells ctx)" by simp
  from trim_coherent [OF assms(1) _ this assms(3)] show ?thesis
    by (auto simp: coherent_def split: if_splits)
qed

end

lemma qwen_suffix_same: "qwen_trim = suffix_trim"
  by (intro ext) (simp add: qwen_trim_def suffix_trim_def)

lemma clear_sequence_cells:
  "kv_contract api cells \<Longrightarrow> clear_sequence api ctx tokens = (ctx', tokens') \<Longrightarrow>
     tokens' = [] \<and> cells ctx' = []"
  by (auto simp: clear_sequence_def kv_memory_clear dest: kv_seq_rm_all split: prod.splits if_splits)

lemma tail_matches_iff:
  "kv_contract api cells \<Longrightarrow> tail_matches api ctx n \<longleftrightarrow> length (cells ctx) = n"
  by (auto simp: tail_matches_def kv_tail_matches_def kv_pos_max)

lemma drop_suffix_cells:
  assumes "kv_contract api cells" and "n \<le> length tokens" and "prefix tokens (cells ctx)"
    and "drop_suffix api ctx tokens n = (True, ctx', tokens')"
  shows "tokens' = take n tokens \<and> cells ctx' = tokens'"
proof -
  from assms(4) obtain c where rm: "seq_rm api ctx n = (True, c)" and c: "ctx' = c"
    and t: "tokens' = take n tokens" and tail: "tail_matches api c n"
    by (auto simp: drop_suffix_def split: prod.splits if_splits)
  from tail have "length (cells c) = n" using tail_matches_iff [OF assms(1)] by blast
  then have "seq_pos_max api c + 1 = int n" by (simp add: kv_pos_max [OF assms(1)])
  moreover have "n \<le> length (cells ctx)"
    using assms(2,3) by (meson le_trans prefix_length_le)
  ultimately have "cells c = take n (cells ctx)" using kv_seq_rm [OF assms(1) _ rm] by blast
  also have "\<dots> = take n tokens" using assms(2,3) by (auto simp: prefix_def)
  finally show ?thesis using t c by simp
qed

lemma suffix_trim_policy: "kv_trim_policy suffix_trim"
proof
  fix api :: "('a, 'b, 'c) llama_api_scheme" and cells n tokens ctx ctx' tokens'
  assume c: "kv_contract api cells" and n: "n \<le> length tokens" and p: "prefix tokens (cells ctx)"
    and tr: "suffix_trim api ctx tokens n = (True, ctx', tokens')"
  show "tokens' = take n tokens \<and> cells ctx' = tokens'"
  proof (cases "n = length tokens \<and> tail_matches api ctx n")
    case True
    with tr have "ctx' = ctx" "tokens' = tokens" by (auto simp: suffix_trim_def)
    moreover from True have "length (cells ctx) = length tokens" using tail_matches_iff [OF c] by blast
    ultimately show ?thesis using True p by (auto simp: prefix_def)
  next
    case False
    with tr have "drop_suffix api ctx tokens n = (True, ctx', tokens')"
      by (auto simp: suffix_trim_def Let_def split: prod.splits if_splits)
    from drop_suffix_cells [OF c n p this] show ?thesis .
  qed
next
  fix api :: "('a, 'b, 'c) llama_api_scheme" and cells n tokens ctx ctx' tokens'
  assume c: "kv_contract api cells"
    and tr: "suffix_trim api ctx tokens n = (False, ctx', tokens')"
  then show "tokens' = [] \<and> cells ctx' = []"
    by (auto simp: suffix_trim_def Let_def dest: clear_sequence_cells [OF c] split: prod.splits if_splits)
next
  fix api :: "('a, 'b, 'c) llama_api_scheme" and cells ctx kept ctx' tokens'
  assume c: "kv_contract api cells" and tr: "suffix_trim api ctx [] 0 = (kept, ctx', tokens')"
  then show "tokens' = [] \<and> cells ctx' = []"
    by (auto simp: suffix_trim_def tail_matches_iff [OF c] Let_def dest: clear_sequence_cells [OF c]
        split: prod.splits if_splits)
next
  fix api :: "('a, 'b, 'c) llama_api_scheme" and ctx tokens n kept ctx' tokens'
  assume "suffix_trim api ctx tokens n = (kept, ctx', tokens')" "n \<le> length tokens"
  then show "tokens' = (if kept then take n tokens else [])"
    by (auto simp: suffix_trim_def drop_suffix_def clear_sequence_def Let_def
        split: prod.splits if_splits)
qed

interpretation suffix: kv_trim_policy suffix_trim
  by (rule suffix_trim_policy)

interpretation qwen: kv_trim_policy qwen_trim
  unfolding qwen_suffix_same by (rule suffix_trim_policy)

interpretation made: kv_trim_policy "make_kv_trim hybrid" for hybrid
  by (cases hybrid) (simp_all add: make_kv_trim_def qwen.kv_trim_policy_axioms suffix_trim_policy)

section \<open>Properties\<close>

text \<open>
  C9. Whatever the model family, a trim leaves a token list that is exactly the cells of the
  context, even when a failed decode had left more cells than tokens: the first \<open>n\<close> tokens when
  the policy answers true, nothing at all when it answers false.
\<close>

theorem kv_trim_keeps_cells_and_tokens_together:
  assumes "kv_contract api cells" and "n \<le> length tokens" and "prefix tokens (cells ctx)"
    and "make_kv_trim hybrid api ctx tokens n = (kept, ctx', tokens')"
  shows "cells ctx' = tokens' \<and> tokens' = (if kept then take n tokens else [])"
  using made.trim_coherent [OF assms] by (simp add: coherent_def)

theorem kv_trim_keeps_cells_and_tokens_together_witness:
  "make_kv_trim True (list_cache 8 4 0) [1, 2, 3, 9] [1, 2, 3] 2 = (True, [1, 2], [1, 2]) \<and>
   [1, 2 :: token] = take 2 [1, 2, 3]"
proof -
  have run: "make_kv_trim True (list_cache 8 4 0) [1, 2, 3, 9] [1, 2, 3] 2 = (True, [1, 2], [1, 2])"
    by (simp add: make_kv_trim_def qwen_trim_def drop_suffix_def tail_matches_def
        kv_tail_matches_def list_cache_def)
  from kv_trim_keeps_cells_and_tokens_together [OF list_cache_kv _ _ run] run show ?thesis by simp
qed

end
