(* ===== verification/Session_Park.thy ===== *)
theory Session_Park
  imports Prelude "HOL-Library.List_Lexorder" "HOL-Library.Product_Lexorder"
begin

text \<open>
  \<open>src/server/llm/session_park.cpp\<close>: the sessions parked in RAM, the plan that makes room for
  one more within the byte budget, and the plan that removes old session files. Byte counts are
  64-bit words with the saturation the code writes out; times are nanoseconds of
  \<open>file_clock\<close> in a signed 64-bit count. The locale \<open>parked_store\<close> is the contract that the
  RAM store here and the file store of \<open>Session_Kv_Store\<close> share.
\<close>

section \<open>Snapshots and the admission plan\<close>

record session_snapshot =
  snap_tokens :: "token list"
  snap_state :: "byte list"

definition parked_session_bytes :: "session_snapshot \<Rightarrow> u64" where
  "parked_session_bytes snapshot =
     (let state_bytes = of_nat (length (snap_state snapshot))
      in if u64_max div 4 < of_nat (length (snap_tokens snapshot)) then u64_max
         else let token_bytes = of_nat (length (snap_tokens snapshot)) * 4
              in if u64_max - token_bytes < state_bytes then u64_max
                 else state_bytes + token_bytes)"

record parked_bytes =
  pb_id :: string
  pb_bytes :: u64

record memory_admit =
  keep_incoming :: bool
  spill :: "string list"

fun total_bytes :: "u64 list \<Rightarrow> u64 \<Rightarrow> u64" where
  "total_bytes [] used = used"
| "total_bytes (b # bs) used =
     (if u64_max - b < used then u64_max else total_bytes bs (used + b))"

fun spill_loop :: "parked_bytes list \<Rightarrow> u64 \<Rightarrow> u64 \<Rightarrow> string list \<times> u64" where
  "spill_loop [] used room = ([], used)"
| "spill_loop (p # ps) used room =
     (if room < used
      then let used' = (if pb_bytes p \<le> used then used - pb_bytes p else 0);
               (ids, final) = spill_loop ps used' room
           in (pb_id p # ids, final)
      else ([], used))"

definition plan_memory_admit :: "parked_bytes list \<Rightarrow> u64 \<Rightarrow> u64 \<Rightarrow> memory_admit" where
  "plan_memory_admit oldest_first incoming_bytes limit_bytes =
     (if limit_bytes = 0 \<or> incoming_bytes = 0 \<or> limit_bytes < incoming_bytes
      then \<lparr> keep_incoming = False, spill = [] \<rparr>
      else let used = total_bytes (map pb_bytes oldest_first) 0;
               room = limit_bytes - incoming_bytes;
               (ids, final) = spill_loop oldest_first used room
           in \<lparr> keep_incoming = (final \<le> room), spill = ids \<rparr>)"

section \<open>The disk clean-up plan\<close>

record disk_session_stat =
  ds_id :: string
  ds_bytes :: u64
  ds_mtime :: int

text \<open>A signed 64-bit count of nanoseconds, with the wrap-around of the target machine.\<close>

definition ns64 :: "int \<Rightarrow> int" where
  "ns64 x = signed_take_bit 63 x"

definition max_age_ns :: "int \<Rightarrow> int" where
  "max_age_ns max_age_days = ns64 (24 * max_age_days * 3600000000000)"

fun drop_loop :: "disk_session_stat list \<Rightarrow> u64 \<Rightarrow> u64 \<Rightarrow> string list" where
  "drop_loop [] held max_bytes = []"
| "drop_loop (f # fs) held max_bytes =
     (if held \<le> max_bytes then []
      else ds_id f # drop_loop fs (if ds_bytes f \<le> held then held - ds_bytes f else 0) max_bytes)"

definition too_old :: "int \<Rightarrow> int \<Rightarrow> disk_session_stat \<Rightarrow> bool" where
  "too_old max_age_days now f \<longleftrightarrow>
     \<not> now \<le> ds_mtime f \<and> max_age_ns max_age_days < ns64 (now - ds_mtime f)"

definition plan_session_disk_gc :: "disk_session_stat list \<Rightarrow> int \<Rightarrow> u64 \<Rightarrow> int \<Rightarrow> string list" where
  "plan_session_disk_gc files max_age_days max_bytes now =
     (if max_age_days < 0 then []
      else let held = total_bytes (map ds_bytes files) 0
           in if held \<le> max_bytes then []
              else let old = filter (too_old max_age_days now) files
                   in drop_loop (sort_key (\<lambda>f. (ds_mtime f, ds_id f)) old) held max_bytes)"

section \<open>The sessions in RAM\<close>

record memory_entry =
  me_id :: string
  me_snapshot :: session_snapshot
  me_bytes :: u64

record session_memory =
  limit_bytes :: u64
  used_bytes :: u64
  entries :: "memory_entry list"

definition session_memory_new :: "u64 \<Rightarrow> session_memory" where
  "session_memory_new limit = \<lparr> limit_bytes = limit, used_bytes = 0, entries = [] \<rparr>"

definition find_entry :: "session_memory \<Rightarrow> string \<Rightarrow> memory_entry option" where
  "find_entry m sid = find (\<lambda>e. me_id e = sid) (entries m)"

definition memory_find :: "session_memory \<Rightarrow> string \<Rightarrow> session_snapshot option" where
  "memory_find m sid = map_option me_snapshot (find_entry m sid)"

definition memory_token_count :: "session_memory \<Rightarrow> string \<Rightarrow> nat option" where
  "memory_token_count m sid = map_option (\<lambda>s. length (snap_tokens s)) (memory_find m sid)"

definition memory_take :: "session_memory \<Rightarrow> string \<Rightarrow> session_snapshot option \<times> session_memory" where
  "memory_take m sid =
     (case find_entry m sid of
        None \<Rightarrow> (None, m)
      | Some e \<Rightarrow>
          (Some (me_snapshot e),
           m\<lparr> used_bytes := (if me_bytes e \<le> used_bytes m then used_bytes m - me_bytes e else 0),
              entries := remove1 e (entries m) \<rparr>))"

definition memory_erase :: "session_memory \<Rightarrow> string \<Rightarrow> session_memory" where
  "memory_erase m sid = snd (memory_take m sid)"

definition memory_insert :: "session_memory \<Rightarrow> string \<Rightarrow> session_snapshot \<Rightarrow> session_memory" where
  "memory_insert m sid snapshot =
     (let m' = memory_erase m sid;
          e = \<lparr> me_id = sid, me_snapshot = snapshot, me_bytes = parked_session_bytes snapshot \<rparr>
      in m'\<lparr> used_bytes :=
               (if u64_max - me_bytes e < used_bytes m' then u64_max else used_bytes m' + me_bytes e),
             entries := entries m' @ [e] \<rparr>)"

definition memory_plan :: "session_memory \<Rightarrow> u64 \<Rightarrow> string \<Rightarrow> memory_admit" where
  "memory_plan m incoming_bytes replacing =
     plan_memory_admit
       (map (\<lambda>e. \<lparr> pb_id = me_id e, pb_bytes = me_bytes e \<rparr>)
         (filter (\<lambda>e. me_id e \<noteq> replacing) (entries m)))
       incoming_bytes (limit_bytes m)"

definition ids_oldest_first :: "session_memory \<Rightarrow> string list" where
  "ids_oldest_first m = map me_id (entries m)"

section \<open>Byte counts without wrap-around\<close>

lemma parked_session_bytes_exact:
  assumes "length (snap_state s) + 4 * length (snap_tokens s) < 2 ^ 64"
  shows "unat (parked_session_bytes s) = length (snap_state s) + 4 * length (snap_tokens s)"
proof -
  let ?n = "length (snap_tokens s)" and ?k = "length (snap_state s)"
  from assms have n: "4 * ?n < 2 ^ 64" and k: "?k < 2 ^ 64" by linarith+
  have un: "unat (of_nat ?n :: u64) = ?n" using n by (simp add: unsigned_of_nat take_bit_nat_eq_self)
  have uk: "unat (of_nat ?k :: u64) = ?k" using k by (simp add: unsigned_of_nat take_bit_nat_eq_self)
  have "unat (of_nat ?n * 4 :: u64) = unat (of_nat (?n * 4) :: u64)" by simp
  also have "\<dots> = ?n * 4" using n by (simp only: unsigned_of_nat) (simp add: take_bit_nat_eq_self)
  finally have u4: "unat (of_nat ?n * 4 :: u64) = 4 * ?n" by simp
  have "unat (u64_max div 4) = (2 ^ 64 - 1) div 4"
    by (simp add: unat_div unat_u64_max)
  with n un have a: "\<not> u64_max div 4 < of_nat ?n" by (simp add: word_less_nat_alt)
  have b: "\<not> u64_max - of_nat ?n * 4 < of_nat ?k"
    using assms by (simp add: word_less_nat_alt unat_max_minus u4 uk)
  have "unat (of_nat ?k + of_nat ?n * 4 :: u64) = ?k + 4 * ?n"
    using assms by (subst unat_add_lem [THEN iffD1]) (simp_all add: u4 uk)
  with a b show ?thesis by (simp add: parked_session_bytes_def Let_def)
qed

lemma total_bytes_exact:
  "unat used + sum_list (map unat bs) < 2 ^ 64 \<Longrightarrow>
     unat (total_bytes bs used) = unat used + sum_list (map unat bs)"
proof (induction bs arbitrary: used)
  case (Cons b bs)
  then have "\<not> u64_max - b < used" by (simp add: u64_room_iff)
  with Cons show ?case by (simp add: u64_add_exact)
qed simp

lemma total_bytes_bound: "unat (total_bytes bs used) \<le> unat used + sum_list (map unat bs)"
proof (induction bs arbitrary: used)
  case (Cons b bs)
  show ?case
  proof (cases "u64_max - b < used")
    case True
    then show ?thesis by (simp add: u64_room_iff unat_u64_max)
  next
    case False
    with Cons.IH [of "used + b"] show ?thesis by (simp add: u64_add_exact)
  qed
qed simp

section \<open>The admission plan\<close>

text \<open>
  The spill loop takes a prefix of the list, and takes an entry only while the rest is above the
  room that is left. Subtraction on \<open>nat\<close> stops at 0, as the code's does.
\<close>

lemma spill_loop_prefix:
  "spill_loop ps used room = (ids, final) \<Longrightarrow>
     \<exists>k \<le> length ps. ids = map pb_id (take k ps) \<and>
       unat final = unat used - sum_list (map (\<lambda>p. unat (pb_bytes p)) (take k ps)) \<and>
       (\<forall>j < k. unat room < unat used - sum_list (map (\<lambda>p. unat (pb_bytes p)) (take j ps))) \<and>
       (k < length ps \<longrightarrow> final \<le> room)"
proof (induction ps used room arbitrary: ids final rule: spill_loop.induct)
  case (1 used room)
  then show ?case by simp
next
  case (2 p ps used room)
  show ?case
  proof (cases "room < used")
    case False
    with 2 show ?thesis by (intro exI [of _ 0]) auto
  next
    case True
    let ?used' = "if pb_bytes p \<le> used then used - pb_bytes p else 0"
    obtain ids' f where rec: "spill_loop ps ?used' room = (ids', f)" by fastforce
    with 2 True have eq: "ids = pb_id p # ids'" "final = f" by (auto simp: Let_def)
    have u: "unat ?used' = unat used - unat (pb_bytes p)"
      using unat_sat_sub [of used "pb_bytes p"] by (simp add: sat_sub_def)
    from 2(1) [OF True refl rec] obtain k where k: "k \<le> length ps"
      "ids' = map pb_id (take k ps)"
      "unat f = unat ?used' - sum_list (map (\<lambda>p. unat (pb_bytes p)) (take k ps))"
      "\<forall>j < k. unat room < unat ?used' - sum_list (map (\<lambda>p. unat (pb_bytes p)) (take j ps))"
      "k < length ps \<longrightarrow> f \<le> room" by blast
    have "unat room < unat used - sum_list (map (\<lambda>p. unat (pb_bytes p)) (take j (p # ps)))"
      if "j < Suc k" for j
      using that True k(4) u by (cases j) (auto simp: word_less_nat_alt diff_diff_add)
    with k u eq show ?thesis by (intro exI [of _ "Suc k"]) (auto simp: diff_diff_add)
  qed
qed

definition held_bytes :: "parked_bytes list \<Rightarrow> nat" where
  "held_bytes ps = sum_list (map (\<lambda>p. unat (pb_bytes p)) ps)"

lemma held_bytes_append [simp]: "held_bytes (xs @ ys) = held_bytes xs + held_bytes ys"
  by (simp add: held_bytes_def)

lemma held_bytes_take_drop: "held_bytes (take k ps) + held_bytes (drop k ps) = held_bytes ps"
  by (metis append_take_drop_id held_bytes_append)

lemma plan_admits:
  assumes "limit \<noteq> 0" and "incoming \<noteq> 0" and "incoming \<le> limit"
  shows "keep_incoming (plan_memory_admit ps incoming limit)"
    and "\<exists>k \<le> length ps. spill (plan_memory_admit ps incoming limit) = map pb_id (take k ps) \<and>
           (held_bytes ps < 2 ^ 64 \<longrightarrow>
              held_bytes (drop k ps) + unat incoming \<le> unat limit \<and>
              (\<forall>j < k. unat limit < held_bytes (drop j ps) + unat incoming))"
proof -
  let ?used = "total_bytes (map pb_bytes ps) 0" and ?room = "limit - incoming"
  obtain ids f where sp: "spill_loop ps ?used ?room = (ids, f)" by fastforce
  with assms have pl: "plan_memory_admit ps incoming limit = \<lparr> keep_incoming = (f \<le> ?room), spill = ids \<rparr>"
    by (simp add: plan_memory_admit_def Let_def leD)
  have room: "unat ?room = unat limit - unat incoming" using assms by (simp add: unat_sub)
  from spill_loop_prefix [OF sp] obtain k where k: "k \<le> length ps" "ids = map pb_id (take k ps)"
    "unat f = unat ?used - held_bytes (take k ps)"
    "\<forall>j < k. unat ?room < unat ?used - held_bytes (take j ps)" "k < length ps \<longrightarrow> f \<le> ?room"
    unfolding held_bytes_def by blast
  have "unat ?used \<le> held_bytes ps"
    using total_bytes_bound [of "map pb_bytes ps" 0] by (simp add: held_bytes_def comp_def)
  then have "k = length ps \<Longrightarrow> unat f = 0" using k(3) by simp
  then have keep: "f \<le> ?room" using k(1,5) by (cases "k = length ps") (auto simp: word_le_nat_alt)
  then show "keep_incoming (plan_memory_admit ps incoming limit)" by (simp add: pl)
  have fits: "held_bytes (drop k ps) + unat incoming \<le> unat limit \<and>
      (\<forall>j < k. unat limit < held_bytes (drop j ps) + unat incoming)" if "held_bytes ps < 2 ^ 64"
  proof -
    have used: "unat ?used = held_bytes ps"
      using total_bytes_exact [of 0 "map pb_bytes ps"] that by (simp add: held_bytes_def comp_def)
    have rest: "unat ?used - held_bytes (take j ps) = held_bytes (drop j ps)" for j
      using held_bytes_take_drop [of j ps] used by linarith
    from keep k(3) room rest assms(3) have "held_bytes (drop k ps) + unat incoming \<le> unat limit"
      by (simp add: word_le_nat_alt)
    moreover have "unat limit < held_bytes (drop j ps) + unat incoming" if "j < k" for j
      using k(4) that unfolding rest room by fastforce
    ultimately show ?thesis by blast
  qed
  show "\<exists>k \<le> length ps. spill (plan_memory_admit ps incoming limit) = map pb_id (take k ps) \<and>
           (held_bytes ps < 2 ^ 64 \<longrightarrow>
              held_bytes (drop k ps) + unat incoming \<le> unat limit \<and>
              (\<forall>j < k. unat limit < held_bytes (drop j ps) + unat incoming))"
    using k(1,2) fits pl by (intro exI [of _ k]) simp
qed

lemma plan_refuses:
  "limit = 0 \<or> incoming = 0 \<or> limit < incoming \<Longrightarrow>
     plan_memory_admit ps incoming limit = \<lparr> keep_incoming = False, spill = [] \<rparr>"
  by (auto simp: plan_memory_admit_def)

text \<open>
  A session that fits the budget at all is always kept in RAM, and the sessions spilled for it
  are exactly as many of the oldest as it takes: afterwards the budget holds, and sparing any of
  them would have broken it.
\<close>

theorem admission_plan_spills_the_fewest_oldest:
  assumes "incoming \<noteq> 0" and "incoming \<le> limit" and "held_bytes ps < 2 ^ 64"
  shows "keep_incoming (plan_memory_admit ps incoming limit) \<and>
    (\<exists>k \<le> length ps. spill (plan_memory_admit ps incoming limit) = map pb_id (take k ps) \<and>
       held_bytes (drop k ps) + unat incoming \<le> unat limit \<and>
       (\<forall>j < k. unat limit < held_bytes (drop j ps) + unat incoming))"
proof -
  from assms(1,2) have "limit \<noteq> 0" by auto
  from plan_admits [OF this assms(1,2)] assms(3) show ?thesis by blast
qed

theorem admission_plan_spills_the_fewest_oldest_witness:
  "let ps = [\<lparr> pb_id = ''a'', pb_bytes = 6 \<rparr>, \<lparr> pb_id = ''b'', pb_bytes = 3 \<rparr>];
       admit = plan_memory_admit ps 5 10
   in keep_incoming admit \<and> spill admit = [''a''] \<and> (\<exists>k \<le> length ps. spill admit = map pb_id (take k ps))"
proof -
  let ?ps = "[\<lparr> pb_id = ''a'', pb_bytes = 6 \<rparr>, \<lparr> pb_id = ''b'', pb_bytes = 3 \<rparr>]"
  have pl: "plan_memory_admit ?ps 5 10 = \<lparr> keep_incoming = True, spill = [''a''] \<rparr>"
    by (simp add: plan_memory_admit_def u64_max_def)
  have "held_bytes ?ps < 2 ^ 64" by (simp add: held_bytes_def)
  from admission_plan_spills_the_fewest_oldest [OF _ _ this, of 5 10]
  have "\<exists>k \<le> length ?ps. spill (plan_memory_admit ?ps 5 10) = map pb_id (take k ?ps)" by auto
  then show ?thesis unfolding Let_def pl by simp
qed

section \<open>The disk plan\<close>

definition disk_bytes :: "disk_session_stat list \<Rightarrow> nat" where
  "disk_bytes fs = sum_list (map (\<lambda>f. unat (ds_bytes f)) fs)"

text \<open>The drop loop is the spill loop with the directory limit as the room.\<close>

lemma drop_loop_spill:
  "drop_loop fs held m = fst (spill_loop (map (\<lambda>f. \<lparr> pb_id = ds_id f, pb_bytes = ds_bytes f \<rparr>) fs) held m)"
  by (induction fs held m rule: drop_loop.induct) (auto simp: Let_def not_le split: prod.splits)

lemma drop_loop_prefix:
  "\<exists>k \<le> length fs. drop_loop fs held m = map ds_id (take k fs) \<and>
     (\<forall>j < k. unat m < unat held - disk_bytes (take j fs)) \<and>
     (k < length fs \<longrightarrow> unat held - disk_bytes (take k fs) \<le> unat m)"
proof -
  let ?conv = "\<lambda>f. \<lparr> pb_id = ds_id f, pb_bytes = ds_bytes f \<rparr>"
  obtain ids final where sp: "spill_loop (map ?conv fs) held m = (ids, final)" by fastforce
  from spill_loop_prefix [OF sp] drop_loop_spill [of fs held m] sp show ?thesis
    by (auto simp: take_map comp_def disk_bytes_def word_le_nat_alt)
qed

definition day_ns :: int where
  "day_ns = 24 * 3600000000000"

lemma ns64_mod: "ns64 x = (x + 2 ^ 63) mod 2 ^ 64 - 2 ^ 63"
  by (simp add: ns64_def signed_take_bit_eq_take_bit_shift take_bit_eq_mod)

lemma ns64_exact: "- (2 ^ 63) \<le> x \<Longrightarrow> x < 2 ^ 63 \<Longrightarrow> ns64 x = x"
  by (simp add: ns64_def signed_take_bit_int_eq_self_iff)

lemma too_old_iff:
  assumes "0 \<le> days" and "days \<le> 106751" and "- (2 ^ 63) < now - ds_mtime f" and "now - ds_mtime f < 2 ^ 63"
  shows "too_old days now f \<longleftrightarrow> days * day_ns < now - ds_mtime f"
proof -
  have "max_age_ns days = days * day_ns"
    using assms(1,2) by (simp add: max_age_ns_def day_ns_def ns64_exact)
  with assms show ?thesis by (auto simp: too_old_def ns64_exact day_ns_def)
qed

text \<open>
  With an age limit of at most 106751 days the clean-up removes only files older than the
  limit, the oldest first, removes one only while the directory is over its size limit, and stops
  early only once it is not.
\<close>

theorem disk_gc_drops_oldest_until_it_fits:
  assumes "0 \<le> days" and "days \<le> 106751" and "disk_bytes files < 2 ^ 64"
    and "\<forall>f \<in> set files. - (2 ^ 63) < now - ds_mtime f \<and> now - ds_mtime f < 2 ^ 63"
  shows "let old = sort_key (\<lambda>f. (ds_mtime f, ds_id f))
                     (filter (\<lambda>f. days * day_ns < now - ds_mtime f) files)
    in \<exists>k \<le> length old. plan_session_disk_gc files days max_bytes now = map ds_id (take k old) \<and>
      (\<forall>j < k. unat max_bytes < disk_bytes files - disk_bytes (take j old)) \<and>
      (k < length old \<longrightarrow> disk_bytes files - disk_bytes (take k old) \<le> unat max_bytes)"
proof -
  let ?old = "sort_key (\<lambda>f. (ds_mtime f, ds_id f)) (filter (\<lambda>f. days * day_ns < now - ds_mtime f) files)"
  let ?held = "total_bytes (map ds_bytes files) 0"
  have held: "unat ?held = disk_bytes files"
    using total_bytes_exact [of 0 "map ds_bytes files"] assms(3) by (simp add: disk_bytes_def comp_def)
  have old: "filter (too_old days now) files = filter (\<lambda>f. days * day_ns < now - ds_mtime f) files"
    using assms by (intro filter_cong) (simp_all add: too_old_iff)
  show ?thesis
  proof (cases "?held \<le> max_bytes")
    case True
    then have "disk_bytes files \<le> unat max_bytes" by (simp add: word_le_nat_alt held)
    with True assms(1) show ?thesis
      by (auto simp: plan_session_disk_gc_def Let_def intro!: exI [of _ 0])
  next
    case False
    with assms(1) have "plan_session_disk_gc files days max_bytes now = drop_loop ?old ?held max_bytes"
      by (simp add: plan_session_disk_gc_def Let_def old)
    with drop_loop_prefix [of ?old ?held max_bytes] held show ?thesis by (simp add: Let_def)
  qed
qed

theorem disk_gc_drops_oldest_until_it_fits_witness:
  "let files = [\<lparr> ds_id = ''new'', ds_bytes = 8, ds_mtime = 3 * day_ns \<rparr>,
                \<lparr> ds_id = ''old'', ds_bytes = 5, ds_mtime = 0 \<rparr>];
       old = sort_key (\<lambda>f. (ds_mtime f, ds_id f)) (filter (\<lambda>f. 1 * day_ns < 3 * day_ns - ds_mtime f) files)
   in plan_session_disk_gc files 1 10 (3 * day_ns) = [''old''] \<and>
      (\<exists>k \<le> length old. plan_session_disk_gc files 1 10 (3 * day_ns) = map ds_id (take k old))"
proof -
  let ?files = "[\<lparr> ds_id = ''new'', ds_bytes = 8, ds_mtime = 3 * day_ns \<rparr>,
                \<lparr> ds_id = ''old'', ds_bytes = 5, ds_mtime = 0 \<rparr>]"
  let ?old = "sort_key (\<lambda>f. (ds_mtime f, ds_id f)) (filter (\<lambda>f. 1 * day_ns < 3 * day_ns - ds_mtime f) ?files)"
  have pl: "plan_session_disk_gc ?files 1 10 (3 * day_ns) = [''old'']"
    by (simp add: plan_session_disk_gc_def too_old_def max_age_ns_def ns64_mod day_ns_def u64_max_def)
  have "\<exists>k \<le> length ?old. plan_session_disk_gc ?files 1 10 (3 * day_ns) = map ds_id (take k ?old)"
    using disk_gc_drops_oldest_until_it_fits [of 1 ?files "3 * day_ns" 10]
    unfolding Let_def by (auto simp: disk_bytes_def day_ns_def)
  with pl show ?thesis unfolding Let_def by blast
qed

text \<open>
  From 106752 days on, the conversion of the age limit to nanoseconds leaves the signed 64-bit
  range. With the wrap-around of the target the limit is negative for the next 106752 day counts,
  and every file that is older than the present moment at all counts as expired.
\<close>

theorem long_age_limit_expires_everything:
  assumes "106752 \<le> days" and "days \<le> 213503" and "0 < now - ds_mtime f" and "now - ds_mtime f < 2 ^ 63"
  shows "max_age_ns days < 0 \<and> too_old days now f"
proof -
  define y where "y = 24 * days * 3600000000000 - 2 ^ 63"
  have range: "0 \<le> y" "y < 2 ^ 63" using assms(1,2) by (simp_all add: y_def)
  have "max_age_ns days = (y + 2 ^ 64) mod 2 ^ 64 - 2 ^ 63"
    by (simp add: max_age_ns_def ns64_mod y_def add.commute)
  also have "(y + 2 ^ 64) mod 2 ^ 64 = y mod 2 ^ 64" by (rule mod_add_self2)
  also have "y mod 2 ^ 64 = y" using range by (intro mod_pos_pos_trivial) simp_all
  finally have neg: "max_age_ns days < 0" using range by simp
  have "ns64 (now - ds_mtime f) = now - ds_mtime f" using assms(3,4) by (intro ns64_exact) simp_all
  with neg assms(3) show ?thesis by (simp add: too_old_def)
qed

theorem long_age_limit_expires_everything_witness:
  "plan_session_disk_gc [\<lparr> ds_id = ''s'', ds_bytes = 5, ds_mtime = 41 \<rparr>] 106752 0 42 = [''s'']"
proof -
  have "too_old 106752 42 \<lparr> ds_id = ''s'', ds_bytes = 5, ds_mtime = 41 \<rparr>"
    using long_age_limit_expires_everything [of 106752 42 "\<lparr> ds_id = ''s'', ds_bytes = 5, ds_mtime = 41 \<rparr>"]
    by simp
  then show ?thesis by (simp add: plan_session_disk_gc_def u64_max_def)
qed

section \<open>The contract of a store of parked sessions\<close>

text \<open>
  \<open>look\<close> is what a reader finds under an id, \<open>put\<close> answers whether the session was stored,
  \<open>del\<close> forgets an id, \<open>faulty\<close> says that the device may refuse an operation, and
  \<open>legal\<close> which ids the store accepts. A refused \<open>put\<close> leaves what was there.
\<close>

datatype 'v store_op = Store_put string 'v | Store_del string

fun op_id :: "'v store_op \<Rightarrow> string" where
  "op_id (Store_put i v) = i"
| "op_id (Store_del i) = i"

locale parked_store =
  fixes look :: "'s \<Rightarrow> string \<Rightarrow> 'v option"
    and put :: "'s \<Rightarrow> string \<Rightarrow> 'v \<Rightarrow> bool \<times> 's"
    and del :: "'s \<Rightarrow> string \<Rightarrow> 's"
    and faulty :: "'s \<Rightarrow> bool"
    and legal :: "'s \<Rightarrow> string \<Rightarrow> 'v \<Rightarrow> bool"
    and inv :: "'s \<Rightarrow> bool"
  assumes put_stored: "inv s \<Longrightarrow> put s i v = (True, s') \<Longrightarrow> inv s' \<and> look s' = (look s)(i \<mapsto> v)"
    and put_refused: "inv s \<Longrightarrow> put s i v = (False, s') \<Longrightarrow> inv s' \<and> look s' = look s"
    and put_accepts: "inv s \<Longrightarrow> legal s i v \<Longrightarrow> \<not> faulty s \<Longrightarrow> fst (put s i v)"
    and del_inv: "inv s \<Longrightarrow> inv (del s i)"
    and del_other: "inv s \<Longrightarrow> j \<noteq> i \<Longrightarrow> look (del s i) j = look s j"
    and del_gone: "inv s \<Longrightarrow> \<not> faulty s \<Longrightarrow> look (del s i) i = None"
begin

definition store_step :: "'v store_op \<Rightarrow> 's \<Rightarrow> 's" where
  "store_step x s = (case x of Store_put i v \<Rightarrow> snd (put s i v) | Store_del i \<Rightarrow> del s i)"

lemma put_cases:
  assumes "inv s"
  shows "inv (snd (put s i v)) \<and>
    look (snd (put s i v)) = (if fst (put s i v) then (look s)(i \<mapsto> v) else look s)"
proof -
  obtain stored s' where p: "put s i v = (stored, s')" by fastforce
  show ?thesis
    using put_stored [OF assms, of i v s'] put_refused [OF assms, of i v s'] p by (cases stored) simp_all
qed

lemma put_other: "inv s \<Longrightarrow> j \<noteq> i \<Longrightarrow> look (snd (put s i v)) j = look s j"
  using put_cases [of s i v] by simp

lemma put_inv: "inv s \<Longrightarrow> inv (snd (put s i v))"
  using put_cases [of s i v] by simp

lemma put_read: "inv s \<Longrightarrow> legal s i v \<Longrightarrow> \<not> faulty s \<Longrightarrow> look (snd (put s i v)) i = Some v"
  using put_cases [of s i v] put_accepts [of s i v] by simp

lemma step_inv: "inv s \<Longrightarrow> inv (store_step x s)"
  by (cases x) (simp_all add: store_step_def put_inv del_inv)

text \<open>Operations on other ids, in any number and with any failures, leave a parked session alone.\<close>

lemma run_frame:
  "inv s \<Longrightarrow> \<forall>x \<in> set xs. op_id x \<noteq> j \<Longrightarrow> inv (fold store_step xs s) \<and> look (fold store_step xs s) j = look s j"
proof (induction xs arbitrary: s)
  case (Cons x xs)
  have "look (store_step x s) j = look s j"
    using Cons.prems by (cases x) (auto simp: store_step_def put_other del_other)
  with Cons.IH [OF step_inv [OF Cons.prems(1), of x]] Cons.prems(2) show ?case by simp
qed simp

lemma put_then_others:
  assumes "inv s" and "put s i v = (True, s')" and "\<forall>x \<in> set xs. op_id x \<noteq> i"
  shows "look (fold store_step xs s') i = Some v"
  using put_stored [OF assms(1,2)] run_frame [OF _ assms(3), of s'] by simp

end

section \<open>The RAM store keeps its books\<close>

definition held_total :: "memory_entry list \<Rightarrow> nat" where
  "held_total es = sum_list (map (\<lambda>e. unat (me_bytes e)) es)"

definition memory_keys :: "session_memory \<Rightarrow> bool" where
  "memory_keys m \<longleftrightarrow> distinct (map me_id (entries m))"

definition memory_ok :: "session_memory \<Rightarrow> bool" where
  "memory_ok m \<longleftrightarrow> memory_keys m \<and>
     (\<forall>e \<in> set (entries m). me_bytes e = parked_session_bytes (me_snapshot e)) \<and>
     unat (used_bytes m) = held_total (entries m)"

lemma find_entry_Some: "find_entry m i = Some e \<Longrightarrow> e \<in> set (entries m) \<and> me_id e = i"
  by (auto simp: find_entry_def find_Some_iff)

lemma find_entry_None: "find_entry m i = None \<longleftrightarrow> i \<notin> me_id ` set (entries m)"
  by (auto simp: find_entry_def find_None_iff)

lemma find_remove1:
  "distinct (map me_id es) \<Longrightarrow> e \<in> set es \<Longrightarrow>
     find (\<lambda>x. me_id x = i) (remove1 e es) = (if i = me_id e then None else find (\<lambda>x. me_id x = i) es)"
proof (induction es)
  case (Cons x es)
  then show ?case by (auto simp: find_None_iff image_iff)
qed simp

lemma held_total_remove1:
  "e \<in> set es \<Longrightarrow> held_total es = unat (me_bytes e) + held_total (remove1 e es)"
  by (induction es) (auto simp: held_total_def)

lemma memory_take_None: "find_entry m i = None \<Longrightarrow> memory_take m i = (None, m)"
  by (simp add: memory_take_def)

lemma memory_take_find: "fst (memory_take m i) = memory_find m i"
  by (simp add: memory_take_def memory_find_def split: option.splits)

lemma memory_erase_limit [simp]: "limit_bytes (memory_erase m i) = limit_bytes m"
  by (simp add: memory_erase_def memory_take_def split: option.splits)

lemma memory_insert_limit [simp]: "limit_bytes (memory_insert m i s) = limit_bytes m"
  by (simp add: memory_insert_def Let_def)

lemma memory_erase_ok:
  assumes "memory_ok m"
  shows "memory_ok (memory_erase m i)"
proof (cases "find_entry m i")
  case None
  with assms show ?thesis by (simp add: memory_erase_def memory_take_None)
next
  case (Some e)
  then have e: "e \<in> set (entries m)" by (simp add: find_entry_Some)
  from assms held_total_remove1 [OF e]
  have tot: "unat (used_bytes m) = unat (me_bytes e) + held_total (remove1 e (entries m))"
    by (simp add: memory_ok_def)
  then have "me_bytes e \<le> used_bytes m" by (simp add: word_le_nat_alt)
  then have "unat (used_bytes m - me_bytes e) = held_total (remove1 e (entries m))"
    using tot by (simp add: unat_sub)
  with assms Some \<open>me_bytes e \<le> used_bytes m\<close> show ?thesis
    by (auto simp: memory_ok_def memory_keys_def memory_erase_def memory_take_def distinct_map inj_on_def
        dest: notin_set_remove1)
qed

lemma memory_erase_find:
  assumes "memory_keys m"
  shows "memory_find (memory_erase m i) = (memory_find m)(i := None)"
proof (cases "find_entry m i")
  case None
  then show ?thesis by (auto simp: memory_erase_def memory_take_None memory_find_def fun_eq_iff)
next
  case (Some e)
  then have e: "e \<in> set (entries m)" "me_id e = i" by (simp_all add: find_entry_Some)
  with assms Some show ?thesis
    by (auto simp: memory_erase_def memory_take_def memory_find_def fun_eq_iff find_entry_def
        memory_keys_def find_remove1)
qed

lemma memory_erase_entries:
  assumes "memory_keys m"
  shows "entries (memory_erase m i) = filter (\<lambda>e. me_id e \<noteq> i) (entries m)"
proof (cases "find_entry m i")
  case None
  then have "filter (\<lambda>e. me_id e \<noteq> i) (entries m) = entries m"
    by (auto simp: find_entry_None filter_id_conv)
  with None show ?thesis by (simp add: memory_erase_def memory_take_None)
next
  case (Some e)
  then have e: "e \<in> set (entries m)" "me_id e = i" by (simp_all add: find_entry_Some)
  have "distinct (map me_id es) \<Longrightarrow> e \<in> set es \<Longrightarrow> remove1 e es = filter (\<lambda>x. me_id x \<noteq> i) es" for es
    using e(2) by (induction es) (auto simp: image_iff intro!: filter_True [symmetric])
  with assms Some e show ?thesis by (simp add: memory_erase_def memory_take_def memory_keys_def)
qed

lemma memory_erase_keys: "memory_keys m \<Longrightarrow> memory_keys (memory_erase m i)"
  by (simp add: memory_keys_def memory_erase_entries distinct_map_filter)

lemma memory_erase_absent: "memory_keys m \<Longrightarrow> i \<notin> me_id ` set (entries (memory_erase m i))"
  by (auto simp: memory_erase_entries)

lemma memory_insert_entries:
  assumes "memory_keys m"
  shows "entries (memory_insert m i s) = filter (\<lambda>e. me_id e \<noteq> i) (entries m) @
    [\<lparr> me_id = i, me_snapshot = s, me_bytes = parked_session_bytes s \<rparr>]"
  using memory_erase_entries [OF assms, of i] by (simp add: memory_insert_def Let_def)

lemma memory_insert_keys: "memory_keys m \<Longrightarrow> memory_keys (memory_insert m i s)"
  by (auto simp: memory_keys_def memory_insert_entries distinct_map_filter)

lemma memory_insert_find:
  assumes "memory_keys m"
  shows "memory_find (memory_insert m i s) = (memory_find m)(i \<mapsto> s)"
proof -
  have last: "find (\<lambda>e. me_id e = j) (filter (\<lambda>e. me_id e \<noteq> i) es @ [x]) =
      (if j = i then Some x else find (\<lambda>e. me_id e = j) es)" if "me_id x = i" for j x es
    using that by (induction es) auto
  then show ?thesis
    by (simp add: fun_eq_iff memory_find_def find_entry_def memory_insert_entries [OF assms] last)
qed

lemma held_total_filter: "held_total (filter P es) \<le> held_total es"
  by (induction es) (auto simp: held_total_def)

lemma held_total_append [simp]: "held_total (xs @ ys) = held_total xs + held_total ys"
  by (simp add: held_total_def)

text \<open>An insertion that does not overflow the counter keeps the books exact.\<close>

lemma memory_insert_ok:
  assumes "memory_ok m"
    and "held_total (filter (\<lambda>e. me_id e \<noteq> i) (entries m)) + unat (parked_session_bytes s) < 2 ^ 64"
  shows "memory_ok (memory_insert m i s)"
proof -
  let ?m = "memory_erase m i" and ?b = "parked_session_bytes s"
  from assms(1) have keys: "memory_keys m" by (simp add: memory_ok_def)
  have ok: "memory_ok ?m" using assms(1) by (rule memory_erase_ok)
  have used: "unat (used_bytes ?m) = held_total (filter (\<lambda>e. me_id e \<noteq> i) (entries m))"
    using ok by (simp add: memory_ok_def memory_erase_entries [OF keys])
  have "\<not> u64_max - ?b < used_bytes ?m" using assms(2) used by (simp add: u64_room_iff)
  then have "unat (used_bytes (memory_insert m i s)) = unat (used_bytes ?m) + unat ?b"
    by (simp add: memory_insert_def Let_def u64_add_exact)
  with used ok memory_insert_keys [OF keys] show ?thesis
    by (auto simp: memory_ok_def memory_insert_entries [OF keys] memory_erase_entries [OF keys] held_total_def)
qed

lemma memory_take_eq:
  "memory_keys m \<Longrightarrow> memory_take m i = (memory_find m i, memory_erase m i)"
  by (simp add: memory_erase_def memory_take_find [symmetric])

definition memory_put :: "session_memory \<Rightarrow> string \<Rightarrow> session_snapshot \<Rightarrow> bool \<times> session_memory" where
  "memory_put m i s = (True, memory_insert m i s)"

interpretation ram: parked_store memory_find memory_put memory_erase
  "\<lambda>m. False" "\<lambda>m i s. True" memory_keys
  by unfold_locales
    (auto simp: memory_put_def memory_insert_find memory_insert_keys memory_erase_find memory_erase_keys)

lemma new_memory_ok: "memory_ok (session_memory_new limit)"
  by (simp add: memory_ok_def memory_keys_def session_memory_new_def held_total_def)

text \<open>
  The RAM store is a map from session ids: after an insertion the id answers the new snapshot
  and its token count, every other id answers what it did before, the session becomes the newest,
  and the byte counter is the exact sum of the snapshots held, provided that sum is a 64-bit
  number.
\<close>

theorem memory_insert_replaces_and_counts:
  assumes "memory_ok m"
    and "held_total (filter (\<lambda>e. me_id e \<noteq> i) (entries m)) + unat (parked_session_bytes s) < 2 ^ 64"
  shows "memory_find (memory_insert m i s) = (memory_find m)(i \<mapsto> s) \<and>
    memory_token_count (memory_insert m i s) i = Some (length (snap_tokens s)) \<and>
    ids_oldest_first (memory_insert m i s) = filter (\<lambda>j. j \<noteq> i) (ids_oldest_first m) @ [i] \<and>
    unat (used_bytes (memory_insert m i s)) =
      sum_list (map (\<lambda>e. unat (parked_session_bytes (me_snapshot e))) (entries (memory_insert m i s)))"
proof -
  from assms(1) have keys: "memory_keys m" by (simp add: memory_ok_def)
  from memory_insert_ok [OF assms] have "unat (used_bytes (memory_insert m i s)) =
      sum_list (map (\<lambda>e. unat (parked_session_bytes (me_snapshot e))) (entries (memory_insert m i s)))"
    by (simp add: memory_ok_def held_total_def cong: map_cong)
  moreover have "ids_oldest_first (memory_insert m i s) = filter (\<lambda>j. j \<noteq> i) (ids_oldest_first m) @ [i]"
    by (simp add: ids_oldest_first_def memory_insert_entries [OF keys] filter_map comp_def)
  ultimately show ?thesis
    by (simp add: memory_insert_find [OF keys] memory_token_count_def)
qed

theorem memory_insert_replaces_and_counts_witness:
  "let s = \<lparr> snap_tokens = [1, 2], snap_state = [0, 0, 0] \<rparr>;
       m = memory_insert (session_memory_new 100) ''a'' s
   in memory_find m ''a'' = Some s \<and> used_bytes m = 11"
proof -
  let ?s = "\<lparr> snap_tokens = [1, 2], snap_state = [0, 0, 0] \<rparr>"
  have "memory_find (memory_insert (session_memory_new 100) ''a'' ?s) ''a'' = Some ?s"
    using memory_insert_replaces_and_counts [OF new_memory_ok, of "''a''" 100 ?s]
    by (simp add: session_memory_new_def parked_session_bytes_def u64_max_def held_total_def)
  then show ?thesis
    by (simp add: memory_insert_def session_memory_new_def parked_session_bytes_def u64_max_def
        memory_erase_def memory_take_def find_entry_def)
qed

end
