(* ===== verification/Session_Kv_Store.thy ===== *)
theory Session_Kv_Store
  imports Llama_Api Session_Park "HOL-Library.AList"
begin

text \<open>
  \<open>src/server/llm/session_kv_store.cpp\<close>: parked sessions as files \<open><id>.kv\<close> of one
  directory. The directory is an association list from names to files, in no particular order.
  Every file-system operation that may fail takes its outcome from a list the environment chose
  beforehand, so that the properties hold for every pattern of failures; the list running out
  means success. \<open>now\<close> is the clock the operations stamp files with.
\<close>

section \<open>The directory\<close>

datatype fs_outcome = Fs_ok | Fs_refused | Fs_partial nat

record kv_file =
  kf_bytes :: "byte list"
  kf_mtime :: int

record kv_store =
  opened :: bool
  files :: "(string \<times> kv_file) list"
  outcomes :: "fs_outcome list"
  now :: int

definition next_outcome :: "kv_store \<Rightarrow> fs_outcome \<times> kv_store" where
  "next_outcome s =
     (case outcomes s of [] \<Rightarrow> (Fs_ok, s) | x # xs \<Rightarrow> (x, s\<lparr> outcomes := xs \<rparr>))"

definition file_at :: "kv_store \<Rightarrow> string \<Rightarrow> byte list option" where
  "file_at s name = map_option kf_bytes (map_of (files s) name)"

definition put_file :: "kv_store \<Rightarrow> string \<Rightarrow> byte list \<Rightarrow> kv_store" where
  "put_file s name bytes =
     s\<lparr> files := AList.update name \<lparr> kf_bytes = bytes, kf_mtime = now s \<rparr> (files s) \<rparr>"

text \<open>
  Writing a whole file through a stream or \<open>llama_state_seq_save_file\<close>: it may be refused
  before the file is touched, or stop after some bytes.
\<close>

definition write_file :: "kv_store \<Rightarrow> string \<Rightarrow> byte list \<Rightarrow> bool \<times> kv_store" where
  "write_file s name bytes =
     (let (r, s) = next_outcome s
      in case r of
           Fs_ok \<Rightarrow> (True, put_file s name bytes)
         | Fs_refused \<Rightarrow> (False, s)
         | Fs_partial k \<Rightarrow> (False, put_file s name (take k bytes)))"

definition remove_file :: "kv_store \<Rightarrow> string \<Rightarrow> kv_store" where
  "remove_file s name =
     (let (r, s) = next_outcome s
      in if r = Fs_ok then s\<lparr> files := AList.delete name (files s) \<rparr> else s)"

definition rename_file :: "kv_store \<Rightarrow> string \<Rightarrow> string \<Rightarrow> bool \<times> kv_store" where
  "rename_file s from to =
     (let (r, s) = next_outcome s
      in case map_of (files s) from of
           None \<Rightarrow> (False, s)
         | Some f \<Rightarrow>
             if r = Fs_ok
             then (True, s\<lparr> files := AList.update to f (AList.delete from (files s)) \<rparr>)
             else (False, s))"

section \<open>Names\<close>

definition k_max_tokens :: nat where
  "k_max_tokens = 1048576"

text \<open>Evaluation compares against the bound in binary.\<close>

lemma k_max_tokens_code [code_unfold]: "k_max_tokens < n \<longleftrightarrow> (1048576 :: int) < int n"
  by (simp add: k_max_tokens_def)

definition k_seq_memory_prefix :: nat where
  "k_seq_memory_prefix = 8"

definition id_char :: "char \<Rightarrow> bool" where
  "id_char ch \<longleftrightarrow> is_digit_char ch \<or> is_upper_char ch \<or> is_lower_char ch \<or>
     ch = CHR ''.'' \<or> ch = CHR ''_'' \<or> ch = CHR ''-''"

definition valid_id :: "kv_store \<Rightarrow> string \<Rightarrow> bool" where
  "valid_id s sid \<longleftrightarrow> opened s \<and> sid \<noteq> [] \<and> length sid \<le> 120 \<and> sid \<noteq> ''.'' \<and> sid \<noteq> ''..'' \<and>
     (\<forall>ch \<in> set sid. id_char ch)"

definition path_for :: "string \<Rightarrow> string" where
  "path_for sid = sid @ ''.kv''"

definition tmp_path :: "string \<Rightarrow> string" where
  "tmp_path sid = sid @ ''.kv.tmp''"

section \<open>Operations\<close>

definition kv_open :: "string \<Rightarrow> (string \<times> kv_file) list option \<Rightarrow> fs_outcome list \<Rightarrow> int \<Rightarrow>
    string + kv_store" where
  "kv_open dir contents outs time =
     (if dir = [] then Inl ''session directory is empty''
      else case contents of
             None \<Rightarrow> Inl ''create_directories''
           | Some fs \<Rightarrow> Inr \<lparr> opened = True, files = fs, outcomes = outs, now = time \<rparr>)"

definition read_token_count :: "('c, 's, 'z) llama_api_scheme \<Rightarrow> kv_store \<Rightarrow> string \<Rightarrow> nat option" where
  "read_token_count api s name =
     (case file_at s name of
        None \<Rightarrow> None
      | Some b \<Rightarrow>
          if length b < 12 then None
          else let n_tokens = unat (of_le32 (drop 8 b))
               in if of_le32 b \<noteq> seq_magic api \<or> of_le32 (drop 4 b) \<noteq> seq_version api \<or>
                     k_max_tokens < n_tokens
                  then None
                  else if length b < 12 + n_tokens * 4 then None
                  else Some n_tokens)"

definition store_remove :: "kv_store \<Rightarrow> string \<Rightarrow> kv_store" where
  "store_remove s sid = (if \<not> valid_id s sid then s else remove_file s (path_for sid))"

definition commit_tmp :: "kv_store \<Rightarrow> string \<Rightarrow> bool \<times> kv_store" where
  "commit_tmp s sid =
     (let (renamed, s) = rename_file s (tmp_path sid) (path_for sid)
      in if renamed then (True, s) else (False, remove_file s (tmp_path sid)))"

definition store_save :: "('c, 's, 'z) llama_api_scheme \<Rightarrow> kv_store \<Rightarrow> 'c option \<Rightarrow> string \<Rightarrow>
    token list \<Rightarrow> bool \<times> kv_store" where
  "store_save api s ctx sid tokens =
     (case ctx of
        None \<Rightarrow> (False, s)
      | Some c \<Rightarrow>
          if \<not> valid_id s sid \<or> tokens = [] \<or> k_max_tokens < length tokens then (False, s)
          else let (wrote, bytes) = state_seq_save_file api c tokens;
                   (written, s) = write_file s (tmp_path sid) bytes
               in if wrote = 0 \<or> \<not> written then (False, remove_file s (tmp_path sid))
                  else commit_tmp s sid)"

definition store_load :: "('c, 's, 'z) llama_api_scheme \<Rightarrow> kv_store \<Rightarrow> 'c option \<Rightarrow> string \<Rightarrow>
    bool \<times> token list \<times> 'c option" where
  "store_load api s ctx sid =
     (case ctx of
        None \<Rightarrow> (False, [], None)
      | Some c \<Rightarrow>
          if \<not> valid_id s sid then (False, [], ctx)
          else case (read_token_count api s (path_for sid), file_at s (path_for sid)) of
                 (Some n, Some b) \<Rightarrow>
                   if n = 0 then (False, [], ctx)
                   else let (bytes, tokens, c') = state_seq_load_file api c b n
                        in if bytes = 0 \<or> length tokens = 0 \<or> n < length tokens
                           then (False, [], Some c')
                           else (True, tokens, Some c')
               | _ \<Rightarrow> (False, [], ctx))"

definition store_token_count :: "('c, 's, 'z) llama_api_scheme \<Rightarrow> kv_store \<Rightarrow> string \<Rightarrow> nat option" where
  "store_token_count api s sid =
     (if \<not> valid_id s sid then None else read_token_count api s (path_for sid))"

definition store_copy :: "kv_store \<Rightarrow> string \<Rightarrow> string \<Rightarrow> bool \<times> kv_store" where
  "store_copy s from to =
     (if \<not> valid_id s from \<or> \<not> valid_id s to \<or> from = to then (False, s)
      else case file_at s (path_for from) of
             None \<Rightarrow> (False, s)
           | Some b \<Rightarrow> write_file s (path_for to) b)"

definition store_save_captured :: "('c, 's, 'z) llama_api_scheme \<Rightarrow> kv_store \<Rightarrow> string \<Rightarrow>
    token list \<Rightarrow> byte list \<Rightarrow> bool \<times> kv_store" where
  "store_save_captured api s sid tokens state =
     (if \<not> valid_id s sid \<or> tokens = [] \<or> k_max_tokens < length tokens \<or>
         length state < k_seq_memory_prefix
      then (False, s)
      else let body = drop k_seq_memory_prefix state;
               bytes = le32 (seq_magic api) @ le32 (seq_version api) @ le32 (of_nat (length tokens)) @
                 bytes_of_tokens tokens @ body;
               (written, s) = write_file s (tmp_path sid) bytes
           in if \<not> written then (False, remove_file s (tmp_path sid))
              else commit_tmp s sid)"

text \<open>
  One directory entry of \<open>trim_expired\<close>. A name that is not \<open><id>.kv\<close> of a valid id is
  passed over; so is an entry whose type, size or time cannot be read.
\<close>

definition name_id :: "string \<Rightarrow> string option" where
  "name_id name =
     (if 3 < length name \<and> suffix ''.kv'' name then Some (take (length name - 3) name) else None)"

fun collect_stats :: "(string \<times> kv_file) list \<Rightarrow> kv_store \<Rightarrow> disk_session_stat list \<times> kv_store" where
  "collect_stats [] s = ([], s)"
| "collect_stats ((name, f) # es) s =
     (case name_id name of
        None \<Rightarrow> collect_stats es s
      | Some sid \<Rightarrow>
          if \<not> valid_id s sid then collect_stats es s
          else let (r, s) = next_outcome s; (stats, s) = collect_stats es s
               in (if r = Fs_ok
                   then \<lparr> ds_id = sid, ds_bytes = of_nat (length (kf_bytes f)), ds_mtime = kf_mtime f \<rparr> # stats
                   else stats, s))"

definition trim_expired :: "kv_store \<Rightarrow> int \<Rightarrow> u64 \<Rightarrow> string list \<times> kv_store" where
  "trim_expired s max_age_days max_bytes =
     (if \<not> opened s \<or> max_age_days < 0 then ([], s)
      else let (r, s) = next_outcome s
           in if r \<noteq> Fs_ok then ([], s)
              else let (stats, s) = collect_stats (files s) s;
                       drop_ids = plan_session_disk_gc stats max_age_days max_bytes (now s)
                   in (drop_ids, foldl store_remove s drop_ids))"

section \<open>What a name can reach\<close>

lemma path_for_inject [simp]: "path_for i = path_for j \<longleftrightarrow> i = j"
  by (simp add: path_for_def)

lemma tmp_not_path [simp]: "tmp_path i \<noteq> path_for j" "path_for j \<noteq> tmp_path i"
proof -
  have "last (tmp_path i) = CHR ''p''" "last (path_for j) = CHR ''v''"
    by (simp_all add: tmp_path_def path_for_def)
  then show "tmp_path i \<noteq> path_for j" "path_for j \<noteq> tmp_path i" by fastforce+
qed

lemma name_id_path [simp]: "sid \<noteq> [] \<Longrightarrow> name_id (path_for sid) = Some sid"
  by (simp add: name_id_def path_for_def suffix_def)

lemma name_id_SomeD: "name_id name = Some sid \<Longrightarrow> name = path_for sid"
  by (auto simp: name_id_def path_for_def suffix_def split: if_splits)

section \<open>Effects on the directory\<close>

text \<open>The session files by id; temporary files do not show in it.\<close>

definition kv_files :: "kv_store \<Rightarrow> string \<Rightarrow> byte list option" where
  "kv_files s sid = file_at s (path_for sid)"

lemma next_outcome_simps:
  assumes "next_outcome s = (r, s')"
  shows "files s' = files s" "opened s' = opened s" "now s' = now s"
    "set (outcomes s') \<subseteq> set (outcomes s)" "r = Fs_ok \<or> r \<in> set (outcomes s)"
  using assms by (auto simp: next_outcome_def split: list.splits)

lemma file_at_put_file: "file_at (put_file s name b) = (file_at s)(name \<mapsto> b)"
  by (auto simp: file_at_def put_file_def update_conv')

lemma put_file_simps [simp]:
  "opened (put_file s name b) = opened s" "outcomes (put_file s name b) = outcomes s"
  by (simp_all add: put_file_def)

definition calm :: "kv_store \<Rightarrow> bool" where
  "calm s \<longleftrightarrow> (\<forall>r \<in> set (outcomes s). r = Fs_ok)"

text \<open>No operation closes the store or invents failures.\<close>

definition same_device :: "kv_store \<Rightarrow> kv_store \<Rightarrow> bool" where
  "same_device s s' \<longleftrightarrow> opened s' = opened s \<and> (calm s \<longrightarrow> calm s')"

lemma same_device_refl [simp]: "same_device s s"
  by (simp add: same_device_def)

lemma same_device_trans: "same_device s t \<Longrightarrow> same_device t u \<Longrightarrow> same_device s u"
  by (auto simp: same_device_def)

lemma valid_id_same [simp]: "same_device s s' \<Longrightarrow> valid_id s' = valid_id s"
  by (simp add: same_device_def valid_id_def fun_eq_iff)

lemma next_outcome_device:
  "next_outcome s = (r, s') \<Longrightarrow> same_device s s' \<and> file_at s' = file_at s \<and> (calm s \<longrightarrow> r = Fs_ok)"
  using next_outcome_simps [of s r s'] by (auto simp: same_device_def calm_def file_at_def)

lemma write_file_effect:
  assumes "write_file s name b = (ok, s')"
  shows "same_device s s' \<and> (ok \<longrightarrow> file_at s' = (file_at s)(name \<mapsto> b)) \<and>
    (\<not> ok \<longrightarrow> file_at s' = file_at s \<or> (\<exists>k. file_at s' = (file_at s)(name \<mapsto> take k b))) \<and>
    (calm s \<longrightarrow> ok)"
proof -
  obtain r t where nx: "next_outcome s = (r, t)" by fastforce
  have put: "same_device t (put_file t name c)" for c by (simp add: same_device_def calm_def)
  from next_outcome_device [OF nx] assms nx put show ?thesis
    by (auto simp: write_file_def file_at_put_file intro: same_device_trans split: fs_outcome.splits)
qed

lemma remove_file_effect:
  "same_device s (remove_file s name) \<and>
   (file_at (remove_file s name) = file_at s \<or> file_at (remove_file s name) = (file_at s)(name := None)) \<and>
   (calm s \<longrightarrow> file_at (remove_file s name) = (file_at s)(name := None))"
proof -
  obtain r t where nx: "next_outcome s = (r, t)" by fastforce
  have "same_device t (t\<lparr> files := AList.delete name (files t) \<rparr>)"
    "file_at (t\<lparr> files := AList.delete name (files t) \<rparr>) = (file_at t)(name := None)"
    by (auto simp: same_device_def calm_def file_at_def delete_conv')
  with next_outcome_device [OF nx] nx show ?thesis
    by (auto simp: remove_file_def intro: same_device_trans)
qed

lemma remove_file_other: "i \<noteq> name \<Longrightarrow> file_at (remove_file s name) i = file_at s i"
  using remove_file_effect [of s name] by auto

lemma remove_file_device [simp]: "same_device s (remove_file s name)"
  using remove_file_effect [of s name] by blast

lemma rename_file_effect:
  assumes "rename_file s a b = (ok, s')" and "a \<noteq> b"
  shows "same_device s s' \<and>
    (ok \<longrightarrow> file_at s a \<noteq> None \<and> file_at s' = (file_at s)(a := None, b := file_at s a)) \<and>
    (\<not> ok \<longrightarrow> file_at s' = file_at s) \<and> (calm s \<longrightarrow> file_at s a \<noteq> None \<longrightarrow> ok)"
proof -
  obtain r t where nx: "next_outcome s = (r, t)" by fastforce
  have upd: "same_device t (t\<lparr> files := AList.update b f (AList.delete a (files t)) \<rparr>)"
    "file_at (t\<lparr> files := AList.update b f (AList.delete a (files t)) \<rparr>) =
       (file_at t)(a := None, b := Some (kf_bytes f))" for f
    by (auto simp: same_device_def calm_def file_at_def delete_conv' update_conv')
  have fs: "files t = files s" using next_outcome_simps(1) [OF nx] .
  then have at: "file_at t = file_at s" by (simp add: file_at_def fun_eq_iff)
  have look: "file_at s a = map_option kf_bytes (map_of (files s) a)" by (simp add: file_at_def)
  from next_outcome_device [OF nx] assms nx upd at fs show ?thesis
    by (auto simp: rename_file_def look intro: same_device_trans split: option.splits if_splits)
qed

text \<open>The write to a temporary name and the rename that both save operations share.\<close>

lemma commit_tmp_effect:
  assumes "commit_tmp s sid = (ok, s')" and "file_at s (tmp_path sid) = Some b"
  shows "same_device s s' \<and> kv_files s' = (if ok then (kv_files s)(sid \<mapsto> b) else kv_files s) \<and>
    (calm s \<longrightarrow> ok)"
proof -
  obtain renamed t where rn: "rename_file s (tmp_path sid) (path_for sid) = (renamed, t)" by fastforce
  from rename_file_effect [OF rn] assms(2)
  have t: "same_device s t" "renamed \<longrightarrow> file_at t = (file_at s)(tmp_path sid := None, path_for sid \<mapsto> b)"
    "\<not> renamed \<longrightarrow> file_at t = file_at s" "calm s \<longrightarrow> renamed" by auto
  show ?thesis
  proof (cases renamed)
    case True
    with assms(1) rn t show ?thesis by (auto simp: commit_tmp_def kv_files_def fun_eq_iff)
  next
    case False
    with assms(1) rn have "s' = remove_file t (tmp_path sid)" "\<not> ok" by (auto simp: commit_tmp_def)
    with False t show ?thesis
      by (auto simp: kv_files_def fun_eq_iff remove_file_other intro: same_device_trans)
  qed
qed

lemma write_tmp_effect:
  assumes "write_file s (tmp_path sid) b = (ok, s')"
  shows "same_device s s' \<and> kv_files s' = kv_files s \<and> (ok \<longrightarrow> file_at s' (tmp_path sid) = Some b) \<and>
    (calm s \<longrightarrow> ok)"
  using write_file_effect [OF assms] by (cases ok) (auto simp: kv_files_def fun_eq_iff)

lemma kv_files_remove_tmp [simp]: "kv_files (remove_file s (tmp_path sid)) = kv_files s"
  by (simp add: kv_files_def fun_eq_iff remove_file_other)

lemma store_save_captured_effect:
  assumes "store_save_captured api s sid tokens state = (ok, s')"
  shows "same_device s s' \<and>
    kv_files s' = (if ok then (kv_files s)(sid \<mapsto> seq_header api tokens @ drop 8 state) else kv_files s) \<and>
    (ok \<longrightarrow> valid_id s sid \<and> tokens \<noteq> [] \<and> length tokens \<le> k_max_tokens \<and> 8 \<le> length state) \<and>
    (calm s \<longrightarrow> valid_id s sid \<and> tokens \<noteq> [] \<and> length tokens \<le> k_max_tokens \<and> 8 \<le> length state \<longrightarrow> ok)"
proof (cases "valid_id s sid \<and> tokens \<noteq> [] \<and> length tokens \<le> k_max_tokens \<and> 8 \<le> length state")
  case False
  with assms show ?thesis by (auto simp: store_save_captured_def k_seq_memory_prefix_def)
next
  case True
  let ?b = "seq_header api tokens @ drop 8 state"
  obtain w t where wr: "write_file s (tmp_path sid) ?b = (w, t)" by fastforce
  from True assms wr have res: "(ok, s') =
      (if \<not> w then (False, remove_file t (tmp_path sid)) else commit_tmp t sid)"
    by (simp add: store_save_captured_def seq_header_def k_seq_memory_prefix_def Let_def)
  from write_tmp_effect [OF wr] have t: "same_device s t" "kv_files t = kv_files s"
    "w \<longrightarrow> file_at t (tmp_path sid) = Some ?b" "calm s \<longrightarrow> w" by auto
  show ?thesis
  proof (cases w)
    case False
    with res t True show ?thesis by (auto intro: same_device_trans)
  next
    case w: True
    with res have "commit_tmp t sid = (ok, s')" by simp
    from commit_tmp_effect [OF this] t(3) w
    have c: "same_device t s'" "kv_files s' = (if ok then (kv_files t)(sid \<mapsto> ?b) else kv_files t)"
      "calm t \<longrightarrow> ok" by blast+
    from t(1) have "calm s \<longrightarrow> calm t" by (simp add: same_device_def)
    with c(3) have "calm s \<longrightarrow> ok" by blast
    with same_device_trans [OF t(1) c(1)] c(2) t(2) True show ?thesis by simp
  qed
qed

lemma store_save_effect:
  assumes "store_save api s (Some c) sid tokens = (ok, s')"
  shows "same_device s s' \<and>
    kv_files s' = (if ok then (kv_files s)(sid \<mapsto> snd (state_seq_save_file api c tokens)) else kv_files s) \<and>
    (ok \<longrightarrow> valid_id s sid \<and> tokens \<noteq> [] \<and> length tokens \<le> k_max_tokens \<and>
       fst (state_seq_save_file api c tokens) \<noteq> 0)"
proof (cases "valid_id s sid \<and> tokens \<noteq> [] \<and> length tokens \<le> k_max_tokens")
  case False
  with assms show ?thesis by (auto simp: store_save_def)
next
  case True
  obtain wrote b where sv: "state_seq_save_file api c tokens = (wrote, b)" by fastforce
  obtain w t where wr: "write_file s (tmp_path sid) b = (w, t)" by fastforce
  from True assms wr sv have res: "(ok, s') =
      (if wrote = 0 \<or> \<not> w then (False, remove_file t (tmp_path sid)) else commit_tmp t sid)"
    by (simp add: store_save_def Let_def)
  from write_tmp_effect [OF wr] have t: "same_device s t" "kv_files t = kv_files s"
    "w \<longrightarrow> file_at t (tmp_path sid) = Some b" by auto
  show ?thesis
  proof (cases "wrote = 0 \<or> \<not> w")
    case True
    with res t show ?thesis by (auto intro: same_device_trans)
  next
    case w: False
    with res have "commit_tmp t sid = (ok, s')" by simp
    from commit_tmp_effect [OF this] t(3) w
    have c: "same_device t s'" "kv_files s' = (if ok then (kv_files t)(sid \<mapsto> b) else kv_files t)"
      by blast+
    with same_device_trans [OF t(1) c(1)] t(2) True w sv show ?thesis by simp
  qed
qed

text \<open>Without failures a legal save succeeds.\<close>

lemma store_save_accepts:
  assumes "calm s" and "valid_id s sid" and "tokens \<noteq> []" and "length tokens \<le> k_max_tokens"
    and "fst (state_seq_save_file api c tokens) \<noteq> 0"
  shows "fst (store_save api s (Some c) sid tokens)"
proof -
  obtain wrote b where sv: "state_seq_save_file api c tokens = (wrote, b)" by fastforce
  obtain w t where wr: "write_file s (tmp_path sid) b = (w, t)" by fastforce
  from write_tmp_effect [OF wr] assms(1) have t: w "calm t" "file_at t (tmp_path sid) = Some b"
    by (auto simp: same_device_def)
  obtain ok u where cm: "commit_tmp t sid = (ok, u)" by fastforce
  from commit_tmp_effect [OF cm t(3)] t(2) have ok by blast
  with assms sv wr t(1) cm show ?thesis by (simp add: store_save_def Let_def)
qed

lemma store_remove_effect:
  "same_device s (store_remove s sid) \<and>
   (\<forall>j. j \<noteq> sid \<longrightarrow> kv_files (store_remove s sid) j = kv_files s j) \<and>
   (kv_files (store_remove s sid) sid = kv_files s sid \<or> kv_files (store_remove s sid) sid = None) \<and>
   (calm s \<longrightarrow> valid_id s sid \<longrightarrow> kv_files (store_remove s sid) sid = None)"
  using remove_file_effect [of s "path_for sid"]
  by (auto simp: store_remove_def kv_files_def remove_file_other)

lemma store_remove_valid [simp]: "valid_id (store_remove s i) = valid_id s"
  using store_remove_effect [of s i] by (intro valid_id_same) blast

lemma store_copy_effect:
  assumes "store_copy s from to = (ok, s')"
  shows "same_device s s' \<and> (\<forall>j. j \<noteq> to \<longrightarrow> kv_files s' j = kv_files s j) \<and>
    (ok \<longrightarrow> kv_files s from \<noteq> None \<and> kv_files s' to = kv_files s from) \<and>
    (kv_files s' to = kv_files s to \<or>
      (\<exists>b k. kv_files s from = Some b \<and> kv_files s' to = Some (take k b)))"
proof (cases "\<not> valid_id s from \<or> \<not> valid_id s to \<or> from = to \<or> kv_files s from = None")
  case True
  with assms show ?thesis by (auto simp: store_copy_def kv_files_def split: if_splits)
next
  case False
  then obtain b where b: "kv_files s from = Some b" by blast
  with False assms have "write_file s (path_for to) b = (ok, s')"
    by (simp add: store_copy_def kv_files_def)
  from write_file_effect [OF this] b show ?thesis
    by (cases ok) (auto simp: kv_files_def intro: exI [of _ "length b"])
qed

lemma removes_effect:
  "same_device s (foldl store_remove s ids) \<and>
   (\<forall>j. j \<notin> set ids \<longrightarrow> kv_files (foldl store_remove s ids) j = kv_files s j) \<and>
   (\<forall>j. kv_files (foldl store_remove s ids) j = kv_files s j \<or> kv_files (foldl store_remove s ids) j = None)"
proof (induction ids arbitrary: s)
  case (Cons i ids)
  have dev: "same_device s (store_remove s i)" using store_remove_effect [of s i] by blast
  have rest: "kv_files (store_remove s i) j = kv_files s j \<or>
      (j = i \<and> kv_files (store_remove s i) j = None)" for j
    using store_remove_effect [of s i] by (cases "j = i") simp_all
  from Cons.IH [of "store_remove s i"] rest same_device_trans [OF dev] show ?case
    by (simp only: foldl_Cons list.set) (metis insertCI)
qed simp

lemma collect_stats_effect:
  assumes "collect_stats es s = (stats, s')"
  shows "same_device s s' \<and> file_at s' = file_at s \<and> now s' = now s \<and>
    (\<forall>st \<in> set stats. valid_id s (ds_id st) \<and>
       (\<exists>f. (path_for (ds_id st), f) \<in> set es \<and> ds_mtime st = kf_mtime f))"
  using assms
proof (induction es s arbitrary: stats s' rule: collect_stats.induct)
  case (1 s)
  then show ?case by simp
next
  case (2 name f es s)
  show ?case
  proof (cases "\<exists>sid. name_id name = Some sid \<and> valid_id s sid")
    case False
    with 2 show ?thesis by (fastforce split: option.splits)
  next
    case True
    then obtain sid where sid: "name_id name = Some sid" "valid_id s sid" by blast
    obtain r t where nx: "next_outcome s = (r, t)" by fastforce
    obtain st u where rec: "collect_stats es t = (st, u)" by fastforce
    from 2(4) sid nx rec have eq: "s' = u" "set stats \<subseteq> insert \<lparr> ds_id = sid,
        ds_bytes = of_nat (length (kf_bytes f)), ds_mtime = kf_mtime f \<rparr> (set st)"
      by (auto simp: Let_def split: if_splits)
    have dev: "same_device s t" "file_at t = file_at s" "now t = now s"
      using next_outcome_device [OF nx] next_outcome_simps(3) [OF nx] by simp_all
    from 2(3) [OF sid(1) _ nx [symmetric] refl rec] sid(2)
    have ih: "same_device t u" "file_at u = file_at t" "now u = now t"
      "\<forall>x \<in> set st. valid_id t (ds_id x) \<and>
         (\<exists>f. (path_for (ds_id x), f) \<in> set es \<and> ds_mtime x = kf_mtime f)" by simp_all
    with eq dev sid name_id_SomeD [OF sid(1)] same_device_trans [OF dev(1) ih(1)] show ?thesis
      by (auto dest!: subsetD)
  qed
qed

lemma trim_expired_effect:
  assumes "trim_expired s days max_bytes = (dropped, s')"
  shows "same_device s s' \<and> (\<forall>j. j \<notin> set dropped \<longrightarrow> kv_files s' j = kv_files s j) \<and>
    (\<forall>j. kv_files s' j = kv_files s j \<or> kv_files s' j = None)"
proof (cases "opened s \<and> 0 \<le> days")
  case False
  with assms show ?thesis by (auto simp: trim_expired_def)
next
  case True
  obtain r t where nx: "next_outcome s = (r, t)" by fastforce
  obtain stats u where cs: "collect_stats (files t) t = (stats, u)" by fastforce
  have dev: "same_device s t" "file_at t = file_at s" using next_outcome_device [OF nx] by simp_all
  show ?thesis
  proof (cases "r = Fs_ok")
    case False
    with True assms nx dev show ?thesis by (auto simp: trim_expired_def kv_files_def)
  next
    case ok: True
    with True assms nx cs have s': "s' = foldl store_remove u dropped"
      by (auto simp: trim_expired_def Let_def)
    from collect_stats_effect [OF cs] dev have su: "same_device s u" "kv_files u = kv_files s"
      by (auto simp: kv_files_def fun_eq_iff intro: same_device_trans)
    from removes_effect [of u dropped] su same_device_trans [OF su(1)] show ?thesis
      by (simp add: s')
  qed
qed

section \<open>Reading a file back\<close>

definition file_contents :: "('c, 's, 'z) llama_api_scheme \<Rightarrow> byte list \<Rightarrow> (token list \<times> byte list) option" where
  "file_contents api b =
     (let n = unat (of_le32 (drop 8 b))
      in if length b < 12 + n * 4 \<or> of_le32 b \<noteq> seq_magic api \<or> of_le32 (drop 4 b) \<noteq> seq_version api \<or>
            k_max_tokens < n
         then None
         else Some (tokens_of_bytes (take (4 * n) (drop 12 b)), drop (12 + 4 * n) b))"

definition store_look :: "('c, 's, 'z) llama_api_scheme \<Rightarrow> kv_store \<Rightarrow> string \<Rightarrow>
    (token list \<times> byte list) option" where
  "store_look api s sid = Option.bind (kv_files s sid) (file_contents api)"

lemma header_fields:
  assumes "length ts \<le> k_max_tokens"
  shows "of_le32 (seq_header api ts @ body) = seq_magic api"
    "of_le32 (drop 4 (seq_header api ts @ body)) = seq_version api"
    "unat (of_le32 (drop 8 (seq_header api ts @ body))) = length ts"
    "length (seq_header api ts) = 12 + 4 * length ts"
  using header_count [of ts "seq_header api ts @ body" api body] assms
  by (simp_all add: seq_header_def k_max_tokens_def)

lemma file_contents_header:
  assumes "length ts \<le> k_max_tokens"
  shows "file_contents api (seq_header api ts @ body) = Some (ts, body)"
proof -
  have "drop 12 (seq_header api ts @ body) = bytes_of_tokens ts @ body"
    by (simp add: seq_header_def)
  moreover have "drop (12 + 4 * length ts) (seq_header api ts @ body) = body"
    using header_fields(4) [OF assms, of api] by simp
  ultimately show ?thesis
    using assms header_fields(1-3) [OF assms, of api body] header_fields(4) [OF assms, of api] by (simp add: file_contents_def Let_def)
qed

lemma read_count_header:
  assumes "length ts \<le> k_max_tokens" and "file_at s name = Some (seq_header api ts @ body)"
  shows "read_token_count api s name = Some (length ts)"
  using assms header_fields(1-3) [OF assms(1), of api body] header_fields(4) [OF assms(1), of api] by (simp add: read_token_count_def Let_def)

lemma token_count_header:
  "valid_id s sid \<Longrightarrow> length ts \<le> k_max_tokens \<Longrightarrow> kv_files s sid = Some (seq_header api ts @ body) \<Longrightarrow>
     store_token_count api s sid = Some (length ts)"
  by (simp add: store_token_count_def read_count_header kv_files_def)

section \<open>The file store as a store of parked sessions\<close>

definition store_put :: "('c, 's, 'z) llama_api_scheme \<Rightarrow> kv_store \<Rightarrow> string \<Rightarrow>
    token list \<times> byte list \<Rightarrow> bool \<times> kv_store" where
  "store_put api s sid v = store_save_captured api s sid (fst v) (replicate 8 0 @ snd v)"

definition store_legal :: "kv_store \<Rightarrow> string \<Rightarrow> token list \<times> byte list \<Rightarrow> bool" where
  "store_legal s sid v \<longleftrightarrow> valid_id s sid \<and> fst v \<noteq> [] \<and> length (fst v) \<le> k_max_tokens"

interpretation disk: parked_store "\<lambda>s sid. if valid_id s sid then store_look api s sid else None"
  "store_put api" store_remove "\<lambda>s. \<not> calm s" store_legal "\<lambda>s. True" for api
proof (unfold_locales, goal_cases)
  case (1 s i v s')
  then have "store_save_captured api s i (fst v) (replicate 8 0 @ snd v) = (True, s')"
    by (simp add: store_put_def)
  from store_save_captured_effect [OF this] file_contents_header [of "fst v" api "snd v"] show ?case
    by (auto simp: store_look_def fun_eq_iff)
next
  case (2 s i v s')
  then have "store_save_captured api s i (fst v) (replicate 8 0 @ snd v) = (False, s')"
    by (simp add: store_put_def)
  from store_save_captured_effect [OF this]
  have dev: "same_device s s'" and same: "kv_files s' = kv_files s" by simp_all
  have "store_look api s' sid = store_look api s sid" for sid by (simp add: store_look_def same)
  then show ?case using valid_id_same [OF dev] by metis
next
  case (3 s i v)
  obtain ok s' where "store_save_captured api s i (fst v) (replicate 8 0 @ snd v) = (ok, s')" by fastforce
  from store_save_captured_effect [OF this] 3 this show ?case
    by (simp add: store_put_def store_legal_def)
next
  case (4 s i)
  show ?case by simp
next
  case (5 s j i)
  then show ?case using store_remove_effect [of s i] by (simp add: store_look_def)
next
  case (6 s i)
  then show ?case using store_remove_effect [of s i] by (simp add: store_look_def)
qed

section \<open>Properties\<close>

text \<open>
  C5. Saving a captured snapshot either stores it whole, so that the header answers its token
  count and the file holds its tokens and its state without the eight-byte prefix, or reports
  failure and leaves the previous file as it was, at whatever point the file system failed. Files
  of other sessions are untouched, and without a failure every legal snapshot is stored.
\<close>

theorem save_captured_is_atomic:
  assumes "store_save_captured api s sid tokens state = (ok, s')"
  shows "(ok \<longrightarrow> store_token_count api s' sid = Some (length tokens) \<and>
           store_look api s' sid = Some (tokens, drop 8 state)) \<and>
    (\<not> ok \<longrightarrow> kv_files s' sid = kv_files s sid) \<and> (\<forall>j. j \<noteq> sid \<longrightarrow> kv_files s' j = kv_files s j) \<and>
    (calm s \<and> valid_id s sid \<and> tokens \<noteq> [] \<and> length tokens \<le> k_max_tokens \<and> 8 \<le> length state \<longrightarrow> ok)"
  using store_save_captured_effect [OF assms] token_count_header [of s' sid tokens api "drop 8 state"]
    file_contents_header [of tokens api "drop 8 state"]
  by (auto simp: store_look_def)

definition empty_store :: "fs_outcome list \<Rightarrow> kv_store" where
  "empty_store outs = \<lparr> opened = True, files = [], outcomes = outs, now = 0 \<rparr>"

theorem save_captured_is_atomic_witness:
  "let (ok, s) = store_save_captured (list_cache 8 4 0) (empty_store []) ''7'' [5, 6] (list_ram [5, 6])
   in ok \<and> store_token_count (list_cache 8 4 0) s ''7'' = Some 2"
proof -
  obtain ok s where run: "store_save_captured (list_cache 8 4 0) (empty_store []) ''7'' [5, 6]
      (list_ram [5, 6]) = (ok, s)" by fastforce
  have ok: "calm (empty_store [])" "valid_id (empty_store []) ''7''" "8 \<le> length (list_ram [5, 6])"
    by (simp_all add: calm_def empty_store_def valid_id_def id_char_def is_digit_char_def list_ram_def)
  from save_captured_is_atomic [OF run] ok run show ?thesis by (simp add: k_max_tokens_def)
qed

text \<open>
  A valid id names files of the directory only: neither its file nor its temporary file has a
  path separator, a NUL or a dot name, both fit a directory entry, different ids have different
  files, and no session's file is another session's temporary file.
\<close>

theorem valid_ids_stay_in_the_directory:
  assumes "valid_id s i"
  shows "(\<forall>name \<in> {path_for i, tmp_path i}. CHR ''/'' \<notin> set name \<and> CHR 0x00 \<notin> set name \<and>
           name \<noteq> ''.'' \<and> name \<noteq> ''..'' \<and> length name < 255) \<and>
    (\<forall>j. (path_for i = path_for j \<longleftrightarrow> i = j) \<and> path_for i \<noteq> tmp_path j \<and> tmp_path i \<noteq> path_for j)"
proof -
  have "CHR ''/'' \<notin> set i" "CHR 0x00 \<notin> set i" "i \<noteq> []" "length i \<le> 120"
    using assms by (auto simp: valid_id_def id_char_def is_digit_char_def is_upper_char_def
        is_lower_char_def)
  then show ?thesis by (auto simp: path_for_def tmp_path_def Cons_eq_append_conv append_eq_Cons_conv)
qed

theorem valid_ids_stay_in_the_directory_witness:
  "valid_id (empty_store []) ''a-1'' \<and> path_for ''a-1'' \<noteq> tmp_path ''a''"
proof -
  have "valid_id (empty_store []) ''a-1''"
    by (simp add: valid_id_def empty_store_def id_char_def is_digit_char_def is_lower_char_def)
  with valid_ids_stay_in_the_directory [OF this] show ?thesis by blast
qed

text \<open>
  C6. A sequence streamed to its file comes back: when \<open>save\<close> succeeded, the header answers
  its token count, and when a later \<open>load\<close> of it into any context succeeds, after any
  operations on other sessions, the context holds exactly the saved tokens.
\<close>

theorem saved_sequence_loads_back:
  assumes "state_contract api cells ri fi"
    and "store_save api s (Some c) sid (cells c) = (True, s')"
    and "same_device s' t" and "kv_files t sid = kv_files s' sid"
    and "store_load api t (Some c1) sid = (loaded, tokens, Some c2)"
  shows "store_token_count api t sid = Some (length (cells c)) \<and>
    (loaded \<longrightarrow> tokens = cells c \<and> cells c2 = cells c)"
proof -
  from store_save_effect [OF assms(2)] have v: "valid_id s sid" and dev: "same_device s s'"
    and len: "length (cells c) \<le> k_max_tokens"
    and stored: "kv_files s' sid = Some (snd (state_seq_save_file api c (cells c)))" by auto
  let ?b = "snd (state_seq_save_file api c (cells c))"
  have img: "fi (cells c) ?b" using state_save [OF assms(1), of c] by (metis prod.collapse)
  from state_header [OF assms(1) img] obtain body where body: "?b = seq_header api (cells c) @ body"
    by (auto simp: prefix_def)
  have vt: "valid_id t sid" using v dev assms(3) by simp
  have count: "store_token_count api t sid = Some (length (cells c))"
    using token_count_header [OF vt len, of api body] stored assms(4) unfolding body by simp
  have at: "file_at t (path_for sid) = Some ?b" using stored assms(4) by (simp add: kv_files_def)
  have "tokens = cells c \<and> cells c2 = cells c" if l: loaded
  proof -
    from assms(5) l vt at obtain k n where ld: "state_seq_load_file api c1 ?b n = (k, tokens, c2)" "k \<noteq> 0"
      by (auto simp: store_load_def Let_def split: option.splits if_splits prod.splits)
    from state_load [OF assms(1) img prefix_order.refl _ ld] len show ?thesis by (simp add: k_max_tokens_def)
  qed
  with count show ?thesis by blast
qed

theorem saved_sequence_loads_back_witness:
  "let api = list_cache 8 4 0; (ok, s) = store_save api (empty_store []) (Some [5, 6]) ''7'' [5, 6]
   in ok \<and> store_load api s (Some [9]) ''7'' = (True, [5, 6], Some [5, 6]) \<and>
      store_token_count api s ''7'' = Some 2"
proof -
  let ?api = "list_cache 8 4 0"
  let ?f = "\<lparr> kf_bytes = le32 1 @ le32 2 @ le32 2 @ bytes_of_tokens [5, 6] @ bytes_of_tokens [5, 6],
    kf_mtime = 0 \<rparr>"
  let ?s = "\<lparr> opened = True, files = [(''7.kv'', ?f)], outcomes = [], now = 0 \<rparr>"
  have v: "valid_id (empty_store []) ''7''" "valid_id ?s ''7''"
    by (simp_all add: valid_id_def empty_store_def id_char_def is_digit_char_def)
  have run: "store_save ?api (empty_store []) (Some [5, 6]) ''7'' [5, 6] = (True, ?s)"
    using v(1)
    by (simp add: store_save_def list_cache_def write_file_def next_outcome_def put_file_def commit_tmp_def
        rename_file_def k_max_tokens_def tmp_path_def path_for_def empty_store_def)
  have ld: "store_load ?api ?s (Some [9]) ''7'' = (True, [5, 6], Some [5, 6])"
    using v(2)
    by (simp add: store_load_def list_cache_def read_token_count_def file_at_def path_for_def
        k_max_tokens_def drop_le32 of_le32_append)
  have "store_token_count ?api ?s ''7'' = Some 2"
    using saved_sequence_loads_back [OF list_cache_state run same_device_refl refl ld] by simp
  with run ld show ?thesis by simp
qed

end
