(* ===== verification/Llm_Engine.thy ===== *)
theory Llm_Engine
  imports Kv_Trim Session_Kv_Store
begin

text \<open>
  \<open>src/server/llm/llm_engine.cpp\<close>, the session half: one llama context holds one live
  sequence, and the other sessions are parked in RAM or on disk. \<open>engine\<close> is the state of
  \<open>LlamaEngine\<close>; the operations here switch, park, restore, clone, release and trim
  sessions. \<open>Llm_Generate\<close> adds the turns.

  \<open>alloc_fails\<close> are the outcomes of the large allocations \<open>capture_live_sequence\<close> makes,
  chosen by the environment as the file-system outcomes are: \<open>True\<close> is a \<open>std::bad_alloc\<close>.
\<close>

section \<open>State\<close>

record llama_config =
  cfg_reasoning :: bool
  cfg_n_ctx :: int
  cfg_temperature :: rat
  cfg_top_p :: rat
  cfg_top_k :: int
  cfg_min_p :: rat
  cfg_presence_penalty :: rat
  cfg_frequency_penalty :: rat
  cfg_repetition_penalty :: rat
  cfg_penalty_last_n :: int
  cfg_seed :: u32
  cfg_max_tokens :: int
  cfg_session_memory_bytes :: u64
  cfg_session_disk_max_age_days :: int
  cfg_session_disk_max_bytes :: u64

record ('c, 's) engine =
  config :: llama_config
  vocab_ready :: bool
  ctx :: "'c option"
  smpl :: "'s option"
  merge_user_turns :: bool
  keep_reasoning :: bool
  hybrid_cache :: bool
  active_session_id :: string
  active_tokens :: "token list"
  message_ends :: "nat list"
  store :: kv_store
  memory :: session_memory
  alloc_fails :: "bool list"

section \<open>Trimming the live sequence\<close>

fun clip_message_ends :: "nat list \<Rightarrow> nat \<Rightarrow> nat list" where
  "clip_message_ends ends n_tokens =
     (if ends \<noteq> [] \<and> n_tokens < last ends then clip_message_ends (butlast ends) n_tokens else ends)"

declare clip_message_ends.simps [simp del]

definition trim_kv_to :: "('c, 's, 'z) llama_api_scheme \<Rightarrow> ('c, 's) engine \<Rightarrow> nat \<Rightarrow>
    bool \<times> ('c, 's) engine" where
  "trim_kv_to api e n_tokens =
     (let n = (if length (active_tokens e) < n_tokens then length (active_tokens e) else n_tokens)
      in case ctx e of
           None \<Rightarrow>
             (True, e\<lparr> active_tokens := take n (active_tokens e),
                       message_ends := clip_message_ends (message_ends e) n \<rparr>)
         | Some c \<Rightarrow>
             (let (kept, c', tokens) = make_kv_trim (hybrid_cache e) api c (active_tokens e) n;
                  e = e\<lparr> ctx := Some c', active_tokens := tokens \<rparr>
              in if \<not> kept then (False, e\<lparr> message_ends := [] \<rparr>)
                 else (True, e\<lparr> message_ends := clip_message_ends (message_ends e) (length tokens) \<rparr>)))"

definition engine_reset :: "('c, 's, 'z) llama_api_scheme \<Rightarrow> ('c, 's) engine \<Rightarrow> ('c, 's) engine" where
  "engine_reset api e = snd (trim_kv_to api e 0)"

section \<open>Parking\<close>

datatype capture = Captured session_snapshot | Nothing_to_capture | Capture_bad_alloc

definition capture_live_sequence :: "('c, 's, 'z) llama_api_scheme \<Rightarrow> ('c, 's) engine \<Rightarrow>
    capture \<times> ('c, 's) engine" where
  "capture_live_sequence api e =
     (case ctx e of
        None \<Rightarrow> (Nothing_to_capture, e)
      | Some c \<Rightarrow>
          if active_tokens e = [] then (Nothing_to_capture, e)
          else let size = state_seq_get_size api c
               in if size < k_seq_memory_prefix then (Nothing_to_capture, e)
                  else case alloc_fails e of
                         True # rest \<Rightarrow> (Capture_bad_alloc, e\<lparr> alloc_fails := rest \<rparr>)
                       | left \<Rightarrow>
                           (let e = e\<lparr> alloc_fails := tl left \<rparr>;
                                (got, bytes) = state_seq_get_data api c size
                            in if got < k_seq_memory_prefix \<or> size < got then (Nothing_to_capture, e)
                               else (Captured \<lparr> snap_tokens = active_tokens e,
                                                snap_state = take got bytes \<rparr>, e)))"

definition trim_session_disk :: "('c, 's) engine \<Rightarrow> ('c, 's) engine" where
  "trim_session_disk e =
     (if cfg_session_disk_max_age_days (config e) < 0 then e
      else e\<lparr> store := snd (trim_expired (store e) (cfg_session_disk_max_age_days (config e))
                 (cfg_session_disk_max_bytes (config e))) \<rparr>)"

text \<open>The branch of \<open>store_snapshot\<close> that writes the incoming session to disk.\<close>

definition save_incoming :: "('c, 's, 'z) llama_api_scheme \<Rightarrow> ('c, 's) engine \<Rightarrow> string \<Rightarrow>
    session_snapshot \<Rightarrow> bool \<times> ('c, 's) engine" where
  "save_incoming api e sid snapshot =
     (let e = e\<lparr> memory := memory_erase (memory e) sid \<rparr>;
          (saved, s) = store_save_captured api (store e) sid (snap_tokens snapshot) (snap_state snapshot);
          e = e\<lparr> store := s \<rparr>
      in if \<not> saved then (False, e) else (True, trim_session_disk e))"

text \<open>
  The loop over \<open>admit.spill\<close> and what follows it. A spill that cannot be written goes back
  to RAM as the newest entry, and the incoming session goes to disk instead.
\<close>

fun spill_then_keep :: "('c, 's, 'z) llama_api_scheme \<Rightarrow> string list \<Rightarrow> ('c, 's) engine \<Rightarrow> string \<Rightarrow>
    session_snapshot \<Rightarrow> bool \<times> ('c, 's) engine" where
  "spill_then_keep api [] e sid snapshot =
     (True, e\<lparr> memory := memory_insert (memory e) sid snapshot,
               store := store_remove (store e) sid \<rparr>)"
| "spill_then_keep api (i # ids) e sid snapshot =
     (case memory_take (memory e) i of
        (None, m) \<Rightarrow> spill_then_keep api ids (e\<lparr> memory := m \<rparr>) sid snapshot
      | (Some spilled, m) \<Rightarrow>
          (let (saved, s) = store_save_captured api (store e) i (snap_tokens spilled) (snap_state spilled)
           in if \<not> saved
              then save_incoming api (e\<lparr> memory := memory_insert m i spilled, store := s \<rparr>) sid snapshot
              else spill_then_keep api ids (trim_session_disk (e\<lparr> memory := m, store := s \<rparr>)) sid snapshot))"

definition store_snapshot :: "('c, 's, 'z) llama_api_scheme \<Rightarrow> ('c, 's) engine \<Rightarrow> string \<Rightarrow>
    session_snapshot \<Rightarrow> bool \<times> ('c, 's) engine" where
  "store_snapshot api e sid snapshot =
     (if snap_tokens snapshot = [] \<or> length (snap_state snapshot) < k_seq_memory_prefix then (False, e)
      else let admit = memory_plan (memory e) (parked_session_bytes snapshot) sid
           in if \<not> keep_incoming admit then save_incoming api e sid snapshot
              else spill_then_keep api (spill admit) e sid snapshot)"

definition write_live_to_disk :: "('c, 's, 'z) llama_api_scheme \<Rightarrow> ('c, 's) engine \<Rightarrow> string \<Rightarrow>
    ('c, 's) engine" where
  "write_live_to_disk api e sid =
     (let e = e\<lparr> memory := memory_erase (memory e) sid \<rparr>;
          (saved, s) = store_save api (store e) (ctx e) sid (active_tokens e);
          e = e\<lparr> store := s \<rparr>
      in if \<not> saved then e else trim_session_disk e)"

definition park_active_session :: "('c, 's, 'z) llama_api_scheme \<Rightarrow> ('c, 's) engine \<Rightarrow> ('c, 's) engine" where
  "park_active_session api e =
     (if active_session_id e = [] \<or> ctx e = None \<or> active_tokens e = [] then e
      else if cfg_session_memory_bytes (config e) = 0
      then write_live_to_disk api e (active_session_id e)
      else case capture_live_sequence api e of
             (Captured snapshot, e) \<Rightarrow>
               (case store_snapshot api e (active_session_id e) snapshot of
                  (True, e) \<Rightarrow> e
                | (False, e) \<Rightarrow> write_live_to_disk api e (active_session_id e))
           | (_, e) \<Rightarrow> write_live_to_disk api e (active_session_id e))"

fun flush_ids :: "('c, 's, 'z) llama_api_scheme \<Rightarrow> string list \<Rightarrow> ('c, 's) engine \<Rightarrow> ('c, 's) engine" where
  "flush_ids api [] e = e"
| "flush_ids api (i # ids) e =
     (case memory_take (memory e) i of
        (None, m) \<Rightarrow> flush_ids api ids (e\<lparr> memory := m \<rparr>)
      | (Some snapshot, m) \<Rightarrow>
          (let (saved, s) = store_save_captured api (store e) i (snap_tokens snapshot) (snap_state snapshot)
           in if \<not> saved
              then flush_ids api ids (e\<lparr> memory := memory_insert m i snapshot, store := s \<rparr>)
              else flush_ids api ids (trim_session_disk (e\<lparr> memory := m, store := s \<rparr>))))"

definition flush_parked_sessions :: "('c, 's, 'z) llama_api_scheme \<Rightarrow> ('c, 's) engine \<Rightarrow> ('c, 's) engine" where
  "flush_parked_sessions api e = trim_session_disk (flush_ids api (ids_oldest_first (memory e)) e)"

section \<open>Restoring\<close>

definition unpark_session :: "('c, 's, 'z) llama_api_scheme \<Rightarrow> ('c, 's) engine \<Rightarrow> string \<Rightarrow>
    bool \<times> ('c, 's) engine" where
  "unpark_session api e sid =
     (case memory_take (memory e) sid of
        (Some snapshot, m) \<Rightarrow>
          (let e = snd (trim_kv_to api (e\<lparr> memory := m \<rparr>) 0);
               (loaded, c) = (case ctx e of None \<Rightarrow> (0, None)
                              | Some c \<Rightarrow> (let (k, c') = state_seq_set_data api c (snap_state snapshot)
                                           in (k, Some c')));
               e = e\<lparr> ctx := c \<rparr>
           in if loaded = 0
              then (False, e\<lparr> memory := memory_insert (memory e) sid snapshot,
                             active_tokens := [], message_ends := [] \<rparr>)
              else (True, e\<lparr> active_tokens := snap_tokens snapshot, message_ends := [] \<rparr>))
      | (None, m) \<Rightarrow>
          (if store_token_count api (store e) sid = None then (False, e)
           else let e = snd (trim_kv_to api e 0);
                    (loaded, tokens, c) = store_load api (store e) (ctx e) sid;
                    e = e\<lparr> ctx := c \<rparr>
                in if \<not> loaded then (False, e\<lparr> active_tokens := [], message_ends := [] \<rparr>)
                   else (True, e\<lparr> active_tokens := tokens, message_ends := [] \<rparr>)))"

definition activate_session :: "('c, 's, 'z) llama_api_scheme \<Rightarrow> ('c, 's) engine \<Rightarrow> string \<Rightarrow>
    ('c, 's) engine" where
  "activate_session api e sid =
     (if sid = active_session_id e then e
      else let e = park_active_session api e;
               e = e\<lparr> active_session_id := sid, active_tokens := [], message_ends := [] \<rparr>;
               (hit, e) = unpark_session api e sid
           in if \<not> hit then snd (trim_kv_to api e 0) else e)"

section \<open>Cloning, releasing, counting\<close>

definition clone_live :: "('c, 's, 'z) llama_api_scheme \<Rightarrow> ('c, 's) engine \<Rightarrow> string \<Rightarrow> ('c, 's) engine" where
  "clone_live api e to =
     (let (saved, s) = store_save api (store e) (ctx e) to (active_tokens e);
          e = e\<lparr> store := s \<rparr>
      in if \<not> saved then e else trim_session_disk e)"

definition clone_session :: "('c, 's, 'z) llama_api_scheme \<Rightarrow> ('c, 's) engine \<Rightarrow> string \<Rightarrow> string \<Rightarrow>
    ('c, 's) engine" where
  "clone_session api e from to =
     (if from = [] \<or> to = [] \<or> from = to then e
      else if from = active_session_id e
      then (if ctx e = None \<or> active_tokens e = [] then e
            else if 0 < cfg_session_memory_bytes (config e)
            then (case capture_live_sequence api e of
                    (Captured snapshot, e) \<Rightarrow>
                      (case store_snapshot api e to snapshot of
                         (True, e) \<Rightarrow> e
                       | (False, e) \<Rightarrow> clone_live api e to)
                  | (_, e) \<Rightarrow> clone_live api e to)
            else clone_live api e to)
      else case memory_find (memory e) from of
             Some parked \<Rightarrow> snd (store_snapshot api e to parked)
           | None \<Rightarrow>
               (let (copied, s) = store_copy (store e) from to;
                    e = e\<lparr> store := s \<rparr>
                in if \<not> copied then e else trim_session_disk e))"

definition release_session :: "('c, 's, 'z) llama_api_scheme \<Rightarrow> ('c, 's) engine \<Rightarrow> string \<Rightarrow>
    ('c, 's) engine" where
  "release_session api e sid =
     (let e = e\<lparr> memory := memory_erase (memory e) sid \<rparr>;
          e = e\<lparr> store := store_remove (store e) sid \<rparr>
      in if active_session_id e = sid then snd (trim_kv_to api e 0) else e)"

definition get_used_context :: "('c, 's, 'z) llama_api_scheme \<Rightarrow> ('c, 's) engine \<Rightarrow> int" where
  "get_used_context api e = (case ctx e of None \<Rightarrow> 0 | Some c \<Rightarrow> seq_pos_max api c + 1)"

definition int_max :: nat where
  "int_max = 2147483647"

definition session_token_count :: "('c, 's, 'z) llama_api_scheme \<Rightarrow> ('c, 's) engine \<Rightarrow> string \<Rightarrow> nat" where
  "session_token_count api e sid =
     (if sid = [] then 0
      else let count =
             (if sid = active_session_id e then length (active_tokens e)
              else case memory_token_count (memory e) sid of
                     Some parked \<Rightarrow> parked
                   | None \<Rightarrow> (case store_token_count api (store e) sid of None \<Rightarrow> 0 | Some n \<Rightarrow> n))
           in min count int_max)"

end
