(* ===== verification/Llm_Parking.thy ===== *)
theory Llm_Parking
  imports Llm_Engine
begin

text \<open>
  What the session operations of \<open>Llm_Engine\<close> keep: the cells of the context are the tokens the
  engine believes in, every parked snapshot and file is an image of a sequence, the RAM store
  stays within its budget, and the map from session ids to parked sequences changes only where an
  operation says so.
\<close>

section \<open>Invariants\<close>

definition contracts :: "('c, 's, 'z) llama_api_scheme \<Rightarrow> ('c \<Rightarrow> token list) \<Rightarrow>
    (token list \<Rightarrow> byte list \<Rightarrow> bool) \<Rightarrow> (token list \<Rightarrow> byte list \<Rightarrow> bool) \<Rightarrow> bool" where
  "contracts api cells ri fi \<longleftrightarrow> kv_contract api cells \<and> state_contract api cells ri fi"

definition good_file :: "(token list \<Rightarrow> byte list \<Rightarrow> bool) \<Rightarrow> byte list \<Rightarrow> bool" where
  "good_file fi b \<longleftrightarrow> (\<exists>ts d. fi ts d \<and> prefix b d \<and> length ts \<le> k_max_tokens)"

definition good_files :: "(token list \<Rightarrow> byte list \<Rightarrow> bool) \<Rightarrow> kv_store \<Rightarrow> bool" where
  "good_files fi s \<longleftrightarrow> (\<forall>i b. kv_files s i = Some b \<longrightarrow> good_file fi b)"

definition good_memory :: "(token list \<Rightarrow> byte list \<Rightarrow> bool) \<Rightarrow> session_memory \<Rightarrow> bool" where
  "good_memory ri m \<longleftrightarrow> memory_keys m \<and>
     (\<forall>i s. memory_find m i = Some s \<longrightarrow> ri (snap_tokens s) (snap_state s))"

definition parked_ok :: "(token list \<Rightarrow> byte list \<Rightarrow> bool) \<Rightarrow> (token list \<Rightarrow> byte list \<Rightarrow> bool) \<Rightarrow>
    ('c, 's) engine \<Rightarrow> bool" where
  "parked_ok ri fi e \<longleftrightarrow> good_memory ri (memory e) \<and> good_files fi (store e)"

definition live_ok :: "('c \<Rightarrow> token list) \<Rightarrow> ('c, 's) engine \<Rightarrow> bool" where
  "live_ok cells e \<longleftrightarrow> (\<forall>c. ctx e = Some c \<longrightarrow> cells c = active_tokens e)"

definition engine_ok :: "('c \<Rightarrow> token list) \<Rightarrow> (token list \<Rightarrow> byte list \<Rightarrow> bool) \<Rightarrow>
    (token list \<Rightarrow> byte list \<Rightarrow> bool) \<Rightarrow> ('c, 's) engine \<Rightarrow> bool" where
  "engine_ok cells ri fi e \<longleftrightarrow> live_ok cells e \<and> parked_ok ri fi e"

text \<open>An operation that only parks leaves everything but the two stores as it was.\<close>

definition live_part :: "('c, 's) engine \<Rightarrow> llama_config \<times> bool \<times> 'c option \<times> 's option \<times> bool \<times>
    bool \<times> bool \<times> string \<times> token list \<times> nat list" where
  "live_part e = (config e, vocab_ready e, ctx e, smpl e, merge_user_turns e, keep_reasoning e,
     hybrid_cache e, active_session_id e, active_tokens e, message_ends e)"

definition only_parks :: "('c, 's) engine \<Rightarrow> ('c, 's) engine \<Rightarrow> bool" where
  "only_parks e e' \<longleftrightarrow> live_part e' = live_part e \<and>
     limit_bytes (memory e') = limit_bytes (memory e) \<and> same_device (store e) (store e')"

lemma only_parks_refl [simp]: "only_parks e e"
  by (simp add: only_parks_def)

lemma only_parks_fields:
  assumes "only_parks e e'"
  shows "ctx e' = ctx e" "active_tokens e' = active_tokens e" "active_session_id e' = active_session_id e"
    "config e' = config e" "message_ends e' = message_ends e" "hybrid_cache e' = hybrid_cache e"
    "smpl e' = smpl e" "vocab_ready e' = vocab_ready e"
    "limit_bytes (memory e') = limit_bytes (memory e)" "same_device (store e) (store e')"
  using assms by (simp_all add: only_parks_def live_part_def)

lemma only_parks_trans: "only_parks e f \<Longrightarrow> only_parks f g \<Longrightarrow> only_parks e g"
  unfolding only_parks_def by (metis same_device_trans)

lemma only_parksI:
  "limit_bytes m = limit_bytes (memory e) \<Longrightarrow> same_device (store e) s \<Longrightarrow>
     only_parks e (e\<lparr> memory := m, store := s \<rparr>)"
  by (simp add: only_parks_def live_part_def)

lemma memory_take_limit: "memory_take m i = (r, m') \<Longrightarrow> limit_bytes m' = limit_bytes m"
  using memory_erase_limit [of m i] by (simp add: memory_erase_def)

lemma trim_session_disk_parks: "only_parks e (trim_session_disk e)"
proof -
  obtain d s where "trim_expired (store e) (cfg_session_disk_max_age_days (config e))
      (cfg_session_disk_max_bytes (config e)) = (d, s)" by fastforce
  from this trim_expired_effect [OF this] show ?thesis
    by (simp add: trim_session_disk_def only_parks_def live_part_def)
qed

lemma trim_session_disk_memory [simp]: "memory (trim_session_disk e) = memory e"
  by (simp add: trim_session_disk_def)

lemma trim_session_disk_files:
  "kv_files (store (trim_session_disk e)) i = kv_files (store e) i \<or>
   kv_files (store (trim_session_disk e)) i = None"
proof -
  obtain d s where "trim_expired (store e) (cfg_session_disk_max_age_days (config e))
      (cfg_session_disk_max_bytes (config e)) = (d, s)" by fastforce
  from this trim_expired_effect [OF this] show ?thesis
    by (simp add: trim_session_disk_def)
qed

lemma trim_session_disk_off [simp]:
  "cfg_session_disk_max_age_days (config e) < 0 \<Longrightarrow> trim_session_disk e = e"
  by (simp add: trim_session_disk_def)

lemma save_incoming_parks: "save_incoming api e i s = (ok, e') \<Longrightarrow> only_parks e e'"
proof -
  assume r: "save_incoming api e i s = (ok, e')"
  obtain sv t where s: "store_save_captured api (store e) i (snap_tokens s) (snap_state s) = (sv, t)"
    by fastforce
  let ?e = "e\<lparr> memory := memory_erase (memory e) i, store := t \<rparr>"
  have "only_parks e ?e" using store_save_captured_effect [OF s] by (intro only_parksI) simp_all
  with r s show "only_parks e e'"
    by (auto simp: save_incoming_def Let_def intro: only_parks_trans trim_session_disk_parks split: if_splits)
qed

lemma spill_then_keep_parks: "spill_then_keep api ids e i s = (ok, e') \<Longrightarrow> only_parks e e'"
proof (induction api ids e i s arbitrary: ok e' rule: spill_then_keep.induct)
  case (1 api e sid snapshot)
  have "same_device (store e) (store_remove (store e) sid)" using store_remove_effect by blast
  with 1 show ?case by (auto intro: only_parksI)
next
  case (2 api i ids e sid snapshot)
  obtain r m where tk: "memory_take (memory e) i = (r, m)" by fastforce
  have lim: "limit_bytes m = limit_bytes (memory e)" by (rule memory_take_limit [OF tk])
  show ?case
  proof (cases r)
    case None
    have "only_parks e (e\<lparr> memory := m \<rparr>)" by (simp add: only_parks_def live_part_def lim)
    with 2(1) [OF tk [symmetric] None] 2(3) tk None show ?thesis
      by (auto intro: only_parks_trans)
  next
    case (Some sp)
    obtain sv t where s: "store_save_captured api (store e) i (snap_tokens sp) (snap_state sp) = (sv, t)"
      by fastforce
    have dev: "same_device (store e) t" using store_save_captured_effect [OF s] by blast
    show ?thesis
    proof (cases sv)
      case True
      have "only_parks e (e\<lparr> memory := m, store := t \<rparr>)" using dev lim by (intro only_parksI)
      then have "only_parks e (trim_session_disk (e\<lparr> memory := m, store := t \<rparr>))"
        by (rule only_parks_trans) (rule trim_session_disk_parks)
      moreover have "spill_then_keep api ids (trim_session_disk (e\<lparr> memory := m, store := t \<rparr>)) sid snapshot = (ok, e')"
        using 2(3) tk Some s True by simp
      ultimately show ?thesis
        using 2(2) [OF tk [symmetric] Some s [symmetric]] True by (blast intro: only_parks_trans)
    next
      case False
      let ?e = "e\<lparr> memory := memory_insert m i sp, store := t \<rparr>"
      have reinserted: "only_parks e ?e" using dev lim by (intro only_parksI) simp_all
      have "save_incoming api ?e sid snapshot = (ok, e')" using 2(3) tk Some s False by simp
      from only_parks_trans [OF reinserted save_incoming_parks [OF this]] show ?thesis .
    qed
  qed
qed

lemma store_snapshot_parks: "store_snapshot api e i s = (ok, e') \<Longrightarrow> only_parks e e'"
  by (auto simp: store_snapshot_def Let_def split: if_splits
      intro: save_incoming_parks spill_then_keep_parks)

section \<open>Parked data stay images of sequences\<close>

lemma good_memory_erase: "good_memory ri m \<Longrightarrow> good_memory ri (memory_erase m i)"
  by (auto simp: good_memory_def memory_erase_keys memory_erase_find)

lemma good_memory_insert:
  "good_memory ri m \<Longrightarrow> ri (snap_tokens s) (snap_state s) \<Longrightarrow> good_memory ri (memory_insert m i s)"
  by (auto simp: good_memory_def memory_insert_keys memory_insert_find)

lemma good_memory_take:
  assumes "good_memory ri m" and "memory_take m i = (r, m')"
  shows "good_memory ri m'" "r = memory_find m i" "m' = memory_erase m i"
    "\<And>s. r = Some s \<Longrightarrow> ri (snap_tokens s) (snap_state s)"
proof -
  from assms(1) have "memory_keys m" by (simp add: good_memory_def)
  with assms(2) show r: "r = memory_find m i" and m: "m' = memory_erase m i"
    by (simp_all add: memory_take_eq)
  show "good_memory ri m'" unfolding m by (rule good_memory_erase [OF assms(1)])
  show "\<And>s. r = Some s \<Longrightarrow> ri (snap_tokens s) (snap_state s)"
    using assms(1) r by (auto simp: good_memory_def)
qed

lemma good_files_less:
  "(\<And>i. kv_files t i = kv_files s i \<or> kv_files t i = None) \<Longrightarrow> good_files fi s \<Longrightarrow> good_files fi t"
  unfolding good_files_def by (metis option.distinct(1))

lemma good_files_remove:
  assumes "good_files fi s"
  shows "good_files fi (store_remove s i)"
proof (rule good_files_less [OF _ assms])
  fix j show "kv_files (store_remove s i) j = kv_files s j \<or> kv_files (store_remove s i) j = None"
    using store_remove_effect [of s i] by (cases "j = i") simp_all
qed

lemma good_files_captured:
  assumes "contracts api cells ri fi" and "good_files fi s" and "ri ts st"
    and "store_save_captured api s i ts st = (ok, t)"
  shows "good_files fi t"
proof -
  have "fi ts (seq_header api ts @ drop 8 st)"
    using assms(1,3) state_ram_file by (auto simp: contracts_def)
  moreover from store_save_captured_effect [OF assms(4)]
  have "kv_files t = (if ok then (kv_files s)(i \<mapsto> seq_header api ts @ drop 8 st) else kv_files s)"
    "ok \<longrightarrow> length ts \<le> k_max_tokens" by blast+
  ultimately show ?thesis using assms(2) by (auto simp: good_files_def good_file_def split: if_splits)
qed

lemma good_files_saved:
  assumes "contracts api cells ri fi" and "good_files fi s"
    and "store_save api s (Some c) i (cells c) = (ok, t)"
  shows "good_files fi t"
proof -
  have "fi (cells c) (snd (state_seq_save_file api c (cells c)))"
    using assms(1) state_save by (metis contracts_def prod.collapse)
  moreover from store_save_effect [OF assms(3)]
  have "kv_files t = (if ok then (kv_files s)(i \<mapsto> snd (state_seq_save_file api c (cells c))) else kv_files s)"
    "ok \<longrightarrow> length (cells c) \<le> k_max_tokens" by blast+
  ultimately show ?thesis using assms(2) by (auto simp: good_files_def good_file_def split: if_splits)
qed

lemma good_files_copy:
  assumes "good_files fi s" and "store_copy s a b = (ok, t)"
  shows "good_files fi t"
  unfolding good_files_def
proof (intro allI impI)
  fix i x assume x: "kv_files t i = Some x"
  show "good_file fi x"
  proof (cases "i = b \<and> kv_files t b \<noteq> kv_files s b")
    case False
    with x store_copy_effect [OF assms(2)] have "kv_files s i = Some x" by metis
    with assms(1) show ?thesis by (simp add: good_files_def)
  next
    case True
    with x store_copy_effect [OF assms(2)] obtain y k where y: "kv_files s a = Some y" "x = take k y"
      by auto
    with assms(1) have "good_file fi y" by (simp add: good_files_def)
    with y(2) show ?thesis unfolding good_file_def by (meson prefix_order.trans take_is_prefix)
  qed
qed

lemma good_files_trimmed: "good_files fi (store e) \<Longrightarrow> good_files fi (store (trim_session_disk e))"
  by (rule good_files_less) (rule trim_session_disk_files)

lemma parked_ok_trimmed: "parked_ok ri fi e \<Longrightarrow> parked_ok ri fi (trim_session_disk e)"
  by (simp add: parked_ok_def good_files_trimmed)

lemma save_incoming_ok:
  assumes "contracts api cells ri fi" and "parked_ok ri fi e" and "ri (snap_tokens s) (snap_state s)"
    and "save_incoming api e i s = (ok, e')"
  shows "parked_ok ri fi e'"
proof -
  obtain sv t where sv: "store_save_captured api (store e) i (snap_tokens s) (snap_state s) = (sv, t)"
    by fastforce
  have "good_files fi t" using assms(2) good_files_captured [OF assms(1) _ assms(3) sv]
    by (simp add: parked_ok_def)
  then have "parked_ok ri fi (e\<lparr> memory := memory_erase (memory e) i, store := t \<rparr>)"
    using assms(2) by (simp add: parked_ok_def good_memory_erase)
  with assms(4) sv show ?thesis
    by (auto simp: save_incoming_def Let_def intro: parked_ok_trimmed split: if_splits)
qed

lemma spill_then_keep_ok:
  assumes "contracts api cells ri fi"
  shows "spill_then_keep api ids e i s = (ok, e') \<Longrightarrow> parked_ok ri fi e \<Longrightarrow>
     ri (snap_tokens s) (snap_state s) \<Longrightarrow> parked_ok ri fi e'"
proof (induction ids arbitrary: e)
  case Nil
  then show ?case by (auto simp: parked_ok_def good_memory_insert good_files_remove)
next
  case (Cons j ids)
  obtain r m where tk: "memory_take (memory e) j = (r, m)" by fastforce
  have gm: "good_memory ri (memory e)" and gf: "good_files fi (store e)"
    using Cons.prems(2) by (simp_all add: parked_ok_def)
  note m = good_memory_take [OF gm tk]
  show ?case
  proof (cases r)
    case None
    have "parked_ok ri fi (e\<lparr> memory := m \<rparr>)" using m(1) gf by (simp add: parked_ok_def)
    with Cons tk None show ?thesis by simp
  next
    case (Some sp)
    obtain sv t where sv: "store_save_captured api (store e) j (snap_tokens sp) (snap_state sp) = (sv, t)"
      by fastforce
    have gt: "good_files fi t" by (rule good_files_captured [OF assms gf m(4) [OF Some] sv])
    show ?thesis
    proof (cases sv)
      case True
      have "parked_ok ri fi (e\<lparr> memory := m, store := t \<rparr>)" using m(1) gt by (simp add: parked_ok_def)
      from Cons.IH [OF _ parked_ok_trimmed [OF this] Cons.prems(3)] Cons.prems(1) tk Some sv True
      show ?thesis by simp
    next
      case False
      have "parked_ok ri fi (e\<lparr> memory := memory_insert m j sp, store := t \<rparr>)"
        using m(1,4) Some gt by (simp add: parked_ok_def good_memory_insert)
      from save_incoming_ok [OF assms this Cons.prems(3)] Cons.prems(1) tk Some sv False
      show ?thesis by simp
    qed
  qed
qed

lemma store_snapshot_ok:
  "contracts api cells ri fi \<Longrightarrow> store_snapshot api e i s = (ok, e') \<Longrightarrow> parked_ok ri fi e \<Longrightarrow>
     ri (snap_tokens s) (snap_state s) \<Longrightarrow> parked_ok ri fi e'"
  by (auto simp: store_snapshot_def Let_def split: if_splits
      dest: save_incoming_ok spill_then_keep_ok)

section \<open>The live sequence\<close>

text \<open>
  After a failed decode or a failed restore the context may hold more than the engine's tokens.
  \<open>live_prefix\<close> is what still holds then, and what a trim needs.
\<close>

definition live_prefix :: "('c \<Rightarrow> token list) \<Rightarrow> ('c, 's) engine \<Rightarrow> bool" where
  "live_prefix cells e \<longleftrightarrow> (\<forall>c. ctx e = Some c \<longrightarrow> prefix (active_tokens e) (cells c))"

lemma live_ok_prefix: "live_ok cells e \<Longrightarrow> live_prefix cells e"
  by (simp add: live_ok_def live_prefix_def)

text \<open>The parts of the state a trim does not touch.\<close>

definition only_trims :: "('c, 's) engine \<Rightarrow> ('c, 's) engine \<Rightarrow> bool" where
  "only_trims e e' \<longleftrightarrow> memory e' = memory e \<and> store e' = store e \<and> config e' = config e \<and>
     active_session_id e' = active_session_id e \<and> vocab_ready e' = vocab_ready e \<and> smpl e' = smpl e \<and>
     hybrid_cache e' = hybrid_cache e \<and> (ctx e' = None \<longleftrightarrow> ctx e = None)"

lemma trim_kv_to_effect:
  assumes "kv_contract api cells" and "live_prefix cells e" and "trim_kv_to api e n = (kept, e')"
  shows "only_trims e e'" "live_ok cells e'"
    "active_tokens e' = (if kept then take n (active_tokens e) else [])"
proof -
  let ?n = "if length (active_tokens e) < n then length (active_tokens e) else n"
  have tk: "take ?n (active_tokens e) = take n (active_tokens e)" by simp
  have "only_trims e e' \<and> live_ok cells e' \<and>
      active_tokens e' = (if kept then take n (active_tokens e) else [])"
  proof (cases "ctx e")
    case None
    with assms(3) show ?thesis
      by (auto simp: trim_kv_to_def only_trims_def live_ok_def Let_def)
  next
    case (Some c)
    obtain k c' ts where mk: "make_kv_trim (hybrid_cache e) api c (active_tokens e) ?n = (k, c', ts)"
      by (metis prod_cases3)
    have "prefix (active_tokens e) (cells c)" using assms(2) Some by (simp add: live_prefix_def)
    from made.trim_coherent [OF assms(1) _ this mk] tk
    have "cells c' = ts" "ts = (if k then take n (active_tokens e) else [])"
      by (auto simp: coherent_def)
    moreover from assms(3) Some mk have "kept = k \<and> e' =
        (if k then e\<lparr> ctx := Some c', active_tokens := ts,
           message_ends := clip_message_ends (message_ends e) (length ts) \<rparr>
         else e\<lparr> ctx := Some c', active_tokens := ts, message_ends := [] \<rparr>)"
      by (auto simp: trim_kv_to_def Let_def)
    ultimately show ?thesis using Some by (simp add: only_trims_def live_ok_def)
  qed
  then show "only_trims e e'" "live_ok cells e'"
    "active_tokens e' = (if kept then take n (active_tokens e) else [])" by blast+
qed

lemma trim_to_nothing:
  assumes "kv_contract api cells" and "live_prefix cells e"
  shows "only_trims e (snd (trim_kv_to api e 0))" "live_ok cells (snd (trim_kv_to api e 0))"
    "active_tokens (snd (trim_kv_to api e 0)) = []"
  using trim_kv_to_effect [OF assms, of 0 "fst (trim_kv_to api e 0)" "snd (trim_kv_to api e 0)"]
  by (auto split: if_splits)

lemma only_trims_parked: "only_trims e e' \<Longrightarrow> parked_ok ri fi e' \<longleftrightarrow> parked_ok ri fi e"
  by (simp add: only_trims_def parked_ok_def)

section \<open>Parking the live sequence\<close>

lemma live_ok_parks: "only_parks e e' \<Longrightarrow> live_ok cells e' \<longleftrightarrow> live_ok cells e"
  by (simp add: live_ok_def only_parks_fields)

lemma write_live_effect:
  assumes "contracts api cells ri fi" and "engine_ok cells ri fi e" and "ctx e = Some c"
  shows "only_parks e (write_live_to_disk api e i) \<and> parked_ok ri fi (write_live_to_disk api e i)"
proof -
  obtain sv t where sv: "store_save api (store e) (Some c) i (active_tokens e) = (sv, t)" by fastforce
  let ?e = "e\<lparr> memory := memory_erase (memory e) i, store := t \<rparr>"
  have cells: "active_tokens e = cells c" using assms(2,3) by (simp add: engine_ok_def live_ok_def)
  have p: "only_parks e ?e" using store_save_effect [OF sv] by (intro only_parksI) simp_all
  have g: "parked_ok ri fi ?e"
    using assms(2) good_files_saved [OF assms(1) _ sv [unfolded cells]]
    by (simp add: engine_ok_def parked_ok_def good_memory_erase)
  have "write_live_to_disk api e i = (if sv then trim_session_disk ?e else ?e)"
    using sv assms(3) by (simp add: write_live_to_disk_def Let_def)
  then show ?thesis
    using p g only_parks_trans [OF p trim_session_disk_parks] parked_ok_trimmed [OF g] by simp
qed

lemma capture_effect:
  assumes "contracts api cells ri fi" and "live_ok cells e"
    and "capture_live_sequence api e = (r, e')"
  shows "only_parks e e' \<and> memory e' = memory e \<and> store e' = store e \<and>
    (\<forall>s. r = Captured s \<longrightarrow> snap_tokens s = active_tokens e \<and> ri (snap_tokens s) (snap_state s))"
proof (cases "ctx e")
  case None
  with assms(3) show ?thesis by (simp add: capture_live_sequence_def)
next
  case (Some c)
  obtain got b where gd: "state_seq_get_data api c (state_seq_get_size api c) = (got, b)" by fastforce
  have c: "cells c = active_tokens e" using assms(2) Some by (simp add: live_ok_def)
  have sc: "state_contract api cells ri fi" using assms(1) by (simp add: contracts_def)
  have img: "8 \<le> got \<Longrightarrow> got \<le> state_seq_get_size api c \<Longrightarrow> ri (active_tokens e) (take got b)"
    using state_get [OF sc gd] by (simp add: c)
  have same: "only_parks e (e\<lparr> alloc_fails := x \<rparr>)" for x by (simp add: only_parks_def live_part_def)
  show ?thesis
    using assms(3) Some gd img same
    by (auto simp: capture_live_sequence_def Let_def k_seq_memory_prefix_def
        split: if_splits list.splits bool.splits prod.splits)
qed

lemma park_effect:
  assumes "contracts api cells ri fi" and "engine_ok cells ri fi e"
  shows "only_parks e (park_active_session api e) \<and> engine_ok cells ri fi (park_active_session api e)"
proof -
  have par: "only_parks e (park_active_session api e) \<and> parked_ok ri fi (park_active_session api e)"
  proof (cases "active_session_id e = [] \<or> ctx e = None \<or> active_tokens e = []")
    case True
    with assms(2) show ?thesis by (auto simp: park_active_session_def engine_ok_def)
  next
    case False
    then obtain c where c: "ctx e = Some c" by (cases "ctx e") simp_all
    let ?i = "active_session_id e"
    obtain r f where cap: "capture_live_sequence api e = (r, f)" by fastforce
    have live: "live_ok cells e" using assms(2) by (simp add: engine_ok_def)
    from capture_effect [OF assms(1) live cap]
    have f: "only_parks e f" "parked_ok ri fi f = parked_ok ri fi e"
      and s: "\<And>s. r = Captured s \<Longrightarrow> ri (snap_tokens s) (snap_state s)"
      by (auto simp: parked_ok_def)
    have disk: "only_parks e (write_live_to_disk api g ?i) \<and> parked_ok ri fi (write_live_to_disk api g ?i)"
      if "only_parks e g" "parked_ok ri fi g" for g
      using write_live_effect [OF assms(1), of g c ?i] that live c only_parks_fields(1) [OF that(1)]
      by (auto simp: engine_ok_def live_ok_parks intro: only_parks_trans)
    show ?thesis
    proof (cases "cfg_session_memory_bytes (config e) = 0")
      case True
      with False disk [of e] assms(2) show ?thesis by (simp add: park_active_session_def engine_ok_def)
    next
      case ram: False
      have pf: "parked_ok ri fi f" using f(2) assms(2) by (simp add: engine_ok_def)
      show ?thesis
      proof (cases r)
        case (Captured s1)
        obtain ok g where st: "store_snapshot api f (active_session_id f) s1 = (ok, g)" by fastforce
        have g: "only_parks e g" "parked_ok ri fi g"
          using only_parks_trans [OF f(1) store_snapshot_parks [OF st]]
            store_snapshot_ok [OF assms(1) st pf s [OF Captured]] by blast+
        have ids: "active_session_id f = ?i" "active_session_id g = ?i"
          using f(1) g(1) by (simp_all add: only_parks_fields)
        with False ram cap Captured st c have "park_active_session api e =
            (if ok then g else write_live_to_disk api g ?i)"
          by (simp add: park_active_session_def)
        with g disk [OF g] show ?thesis by simp
      next
        case Nothing_to_capture
        with False ram cap c disk [OF f(1) pf] only_parks_fields(3) [OF f(1)] show ?thesis
          by (simp add: park_active_session_def)
      next
        case Capture_bad_alloc
        with False ram cap c disk [OF f(1) pf] only_parks_fields(3) [OF f(1)] show ?thesis
          by (simp add: park_active_session_def)
      qed
    qed
  qed
  moreover from par have "live_ok cells (park_active_session api e) = live_ok cells e"
    by (intro live_ok_parks) blast
  ultimately show ?thesis using assms(2) by (simp add: engine_ok_def)
qed

section \<open>Restoring and switching\<close>

lemma store_load_ctx: "store_load api s x i = (l, ts, c) \<Longrightarrow> c = None \<longleftrightarrow> x = None"
  by (cases x) (auto simp: store_load_def Let_def split: option.splits if_splits prod.splits)

lemma store_load_effect:
  assumes "contracts api cells ri fi" and "good_files fi s"
    and "store_load api s (Some c) i = (True, ts, c')"
  shows "\<exists>c1. c' = Some c1 \<and> cells c1 = ts"
proof -
  have sc: "state_contract api cells ri fi" using assms(1) by (simp add: contracts_def)
  from assms(3) obtain b n k c1 where b: "kv_files s i = Some b"
    and ld: "state_seq_load_file api c b n = (k, ts, c1)" "k \<noteq> 0" and c1: "c' = Some c1"
    by (auto simp: store_load_def kv_files_def Let_def split: if_splits option.splits prod.splits)
  from assms(2) b obtain ts0 d where img: "fi ts0 d" "prefix b d" "length ts0 \<le> k_max_tokens"
    unfolding good_files_def good_file_def by blast
  from state_load [OF sc img(1,2) _ ld] img(3) c1 show ?thesis by (simp add: k_max_tokens_def)
qed

lemma unpark_effect:
  assumes "contracts api cells ri fi" and "parked_ok ri fi e" and "active_tokens e = []"
    and "unpark_session api e i = (hit, e')"
  shows "parked_ok ri fi e' \<and> (hit \<longrightarrow> live_ok cells e') \<and> (\<not> hit \<longrightarrow> active_tokens e' = []) \<and>
    active_session_id e' = active_session_id e \<and> store e' = store e \<and> config e' = config e \<and>
    (hit \<longrightarrow> memory e' = memory_erase (memory e) i) \<and> vocab_ready e' = vocab_ready e \<and>
    smpl e' = smpl e \<and> (ctx e' = None \<longleftrightarrow> ctx e = None)"
proof -
  have kc: "kv_contract api cells" and sc: "state_contract api cells ri fi"
    using assms(1) by (simp_all add: contracts_def)
  have gm: "good_memory ri (memory e)" and gf: "good_files fi (store e)"
    using assms(2) by (simp_all add: parked_ok_def)
  obtain r m where tk: "memory_take (memory e) i = (r, m)" by fastforce
  note m = good_memory_take [OF gm tk]
  show ?thesis
  proof (cases r)
    case (Some sp)
    let ?f = "snd (trim_kv_to api (e\<lparr> memory := m \<rparr>) 0)"
    have "live_prefix cells (e\<lparr> memory := m \<rparr>)" using assms(3) by (simp add: live_prefix_def)
    from trim_to_nothing [OF kc this]
    have f: "memory ?f = m" "store ?f = store e" "config ?f = config e" "smpl ?f = smpl e"
      "vocab_ready ?f = vocab_ready e" "active_session_id ?f = active_session_id e"
      "ctx ?f = None \<longleftrightarrow> ctx e = None"
      by (simp_all add: only_trims_def)
    have ri: "ri (snap_tokens sp) (snap_state sp)" by (rule m(4) [OF Some])
    show ?thesis
    proof (cases "ctx ?f")
      case None
      with assms(4) tk Some f m(1) gf ri show ?thesis
        by (auto simp: unpark_session_def Let_def parked_ok_def good_memory_insert)
    next
      case (Some c)
      obtain k c' where set: "state_seq_set_data api c (snap_state sp) = (k, c')" by fastforce
      have "k \<noteq> 0 \<Longrightarrow> cells c' = snap_tokens sp" by (rule state_set [OF sc ri set])
      with assms(4) tk \<open>r = Some sp\<close> f m(1,3) gf ri Some set show ?thesis
        by (auto simp: unpark_session_def Let_def parked_ok_def good_memory_insert live_ok_def
            split: if_splits)
    qed
  next
    case None
    then have none: "memory_find (memory e) i = None" using m(2) by simp
    have mm: "memory_erase (memory e) i = memory e"
      using none by (simp add: memory_erase_def memory_take_def memory_find_def)
    show ?thesis
    proof (cases "store_token_count api (store e) i")
      case None
      with assms(2-4) tk \<open>r = None\<close> show ?thesis by (simp add: unpark_session_def)
    next
      case (Some n)
      let ?f = "snd (trim_kv_to api e 0)"
      have "live_prefix cells e" using assms(3) by (simp add: live_prefix_def)
      from trim_to_nothing [OF kc this]
      have f: "memory ?f = memory e" "store ?f = store e" "config ?f = config e" "smpl ?f = smpl e"
        "vocab_ready ?f = vocab_ready e" "active_session_id ?f = active_session_id e"
        "ctx ?f = None \<longleftrightarrow> ctx e = None"
        by (simp_all add: only_trims_def)
      obtain l ts c where ld: "store_load api (store e) (ctx ?f) i = (l, ts, c)" by (metis prod_cases3)
      have c: "c = None \<longleftrightarrow> ctx ?f = None"
        using ld by (rule store_load_ctx)
      have l: "l \<Longrightarrow> \<exists>c1. c = Some c1 \<and> cells c1 = ts"
        using ld store_load_effect [OF assms(1) gf] by (cases "ctx ?f") (auto simp: store_load_def)
      from assms(4) tk \<open>r = None\<close> Some ld f(2)
      have "hit = l \<and> e' = (if l then ?f\<lparr> ctx := c, active_tokens := ts, message_ends := [] \<rparr>
          else ?f\<lparr> ctx := c, active_tokens := [], message_ends := [] \<rparr>)"
        by (auto simp: unpark_session_def Let_def)
      with f c l mm gm gf show ?thesis by (auto simp: parked_ok_def live_ok_def)
    qed
  qed
qed

lemma activate_effect:
  assumes "contracts api cells ri fi" and "engine_ok cells ri fi e"
  shows "engine_ok cells ri fi (activate_session api e i) \<and>
    active_session_id (activate_session api e i) = i \<and>
    config (activate_session api e i) = config e \<and>
    vocab_ready (activate_session api e i) = vocab_ready e \<and> smpl (activate_session api e i) = smpl e \<and>
    (ctx (activate_session api e i) = None \<longleftrightarrow> ctx e = None)"
proof (cases "i = active_session_id e")
  case True
  with assms(2) show ?thesis by (simp add: activate_session_def)
next
  case False
  let ?p = "park_active_session api e"
  let ?f = "?p\<lparr> active_session_id := i, active_tokens := [], message_ends := [] \<rparr>"
  have kc: "kv_contract api cells" using assms(1) by (simp add: contracts_def)
  from park_effect [OF assms] have p: "only_parks e ?p" "parked_ok ri fi ?p" by (auto simp: engine_ok_def)
  have pf: "parked_ok ri fi ?f" using p(2) by (simp add: parked_ok_def)
  obtain hit g where un: "unpark_session api ?f i = (hit, g)" by fastforce
  from unpark_effect [OF assms(1) pf _ un] only_parks_fields [OF p(1)]
  have g: "parked_ok ri fi g" "hit \<longrightarrow> live_ok cells g" "\<not> hit \<longrightarrow> active_tokens g = []"
    "active_session_id g = i" "config g = config e" "vocab_ready g = vocab_ready e" "smpl g = smpl e"
    "ctx g = None \<longleftrightarrow> ctx e = None" by simp_all
  have act: "activate_session api e i = (if hit then g else snd (trim_kv_to api g 0))"
    using False un by (simp add: activate_session_def Let_def)
  show ?thesis
  proof (cases hit)
    case True
    with act g show ?thesis by (simp add: engine_ok_def)
  next
    case nohit: False
    with g(3) have "live_prefix cells g" by (simp add: live_prefix_def)
    from trim_to_nothing [OF kc this] act nohit g show ?thesis
      by (auto simp: engine_ok_def only_trims_def parked_ok_def)
  qed
qed

section \<open>Cloning, releasing and flushing\<close>

lemma clone_live_effect:
  assumes "contracts api cells ri fi" and "engine_ok cells ri fi e" and "ctx e = Some c"
  shows "only_parks e (clone_live api e i) \<and> parked_ok ri fi (clone_live api e i)"
proof -
  obtain sv t where sv: "store_save api (store e) (Some c) i (active_tokens e) = (sv, t)" by fastforce
  let ?e = "e\<lparr> store := t \<rparr>"
  have cells: "active_tokens e = cells c" using assms(2,3) by (simp add: engine_ok_def live_ok_def)
  have p: "only_parks e ?e" using store_save_effect [OF sv] by (simp add: only_parks_def live_part_def)
  have g: "parked_ok ri fi ?e"
    using assms(2) good_files_saved [OF assms(1) _ sv [unfolded cells]]
    by (simp add: engine_ok_def parked_ok_def)
  have "clone_live api e i = (if sv then trim_session_disk ?e else ?e)"
    using sv assms(3) by (simp add: clone_live_def Let_def)
  then show ?thesis
    using p g only_parks_trans [OF p trim_session_disk_parks] parked_ok_trimmed [OF g] by simp
qed

lemma engine_ok_parks:
  "engine_ok cells ri fi e \<Longrightarrow> only_parks e e' \<Longrightarrow> parked_ok ri fi e' \<Longrightarrow> engine_ok cells ri fi e'"
  by (simp add: engine_ok_def live_ok_parks)

lemma clone_from_live:
  assumes "contracts api cells ri fi" and "engine_ok cells ri fi e" and "ctx e = Some c"
    and "active_tokens e \<noteq> []"
  shows "engine_ok cells ri fi (clone_session api e (active_session_id e) i)"
proof -
  let ?a = "active_session_id e"
  obtain r f where cap: "capture_live_sequence api e = (r, f)" by fastforce
  have live: "live_ok cells e" using assms(2) by (simp add: engine_ok_def)
  from capture_effect [OF assms(1) live cap]
  have f: "only_parks e f" "parked_ok ri fi f"
    and s: "\<And>s. r = Captured s \<Longrightarrow> ri (snap_tokens s) (snap_state s)"
    using assms(2) by (auto simp: parked_ok_def engine_ok_def)
  have disk: "engine_ok cells ri fi (clone_live api g i)" if "only_parks e g" "parked_ok ri fi g" for g
  proof -
    have ok: "engine_ok cells ri fi g" by (rule engine_ok_parks [OF assms(2) that])
    have "ctx g = Some c" using assms(3) only_parks_fields(1) [OF that(1)] by simp
    from clone_live_effect [OF assms(1) ok this, of i] show ?thesis by (blast intro: engine_ok_parks [OF ok])
  qed
  show ?thesis
  proof (cases "?a = [] \<or> i = [] \<or> ?a = i \<or> \<not> 0 < cfg_session_memory_bytes (config e)")
    case True
    then show ?thesis using assms disk [of e] by (auto simp: clone_session_def engine_ok_def)
  next
    case ram: False
    show ?thesis
    proof (cases r)
      case (Captured s1)
      obtain ok g where st: "store_snapshot api f i s1 = (ok, g)" by fastforce
      have g: "only_parks e g" "parked_ok ri fi g"
        using only_parks_trans [OF f(1) store_snapshot_parks [OF st]]
          store_snapshot_ok [OF assms(1) st f(2) s [OF Captured]] by blast+
      have "clone_session api e ?a i = (if ok then g else clone_live api g i)"
        using ram cap Captured st assms(3,4) by (simp add: clone_session_def)
      with disk [OF g] engine_ok_parks [OF assms(2) g] show ?thesis by simp
    next
      case Nothing_to_capture
      with ram cap assms(3,4) disk [OF f] show ?thesis by (simp add: clone_session_def)
    next
      case Capture_bad_alloc
      with ram cap assms(3,4) disk [OF f] show ?thesis by (simp add: clone_session_def)
    qed
  qed
qed

lemma clone_effect:
  assumes "contracts api cells ri fi" and "engine_ok cells ri fi e"
  shows "engine_ok cells ri fi (clone_session api e a b)"
proof (cases "a = [] \<or> b = [] \<or> a = b")
  case True
  with assms(2) show ?thesis by (simp add: clone_session_def)
next
  case go: False
  show ?thesis
  proof (cases "a = active_session_id e")
    case True
    show ?thesis
    proof (cases "ctx e = None \<or> active_tokens e = []")
      case True
      with assms(2) go \<open>a = active_session_id e\<close> show ?thesis by (simp add: clone_session_def)
    next
      case False
      then obtain c where "ctx e = Some c" by (cases "ctx e") simp_all
      from clone_from_live [OF assms this] False True show ?thesis by simp
    qed
  next
    case False
    show ?thesis
    proof (cases "memory_find (memory e) a")
      case (Some p)
      obtain ok f where st: "store_snapshot api e b p = (ok, f)" by fastforce
      have "ri (snap_tokens p) (snap_state p)" "parked_ok ri fi e"
        using assms(2) Some by (simp_all add: engine_ok_def parked_ok_def good_memory_def)
      from store_snapshot_ok [OF assms(1) st this(2,1)] store_snapshot_parks [OF st] go False Some st
      show ?thesis using engine_ok_parks [OF assms(2), of f] by (simp add: clone_session_def)
    next
      case None
      obtain ok t where cp: "store_copy (store e) a b = (ok, t)" by fastforce
      let ?e = "e\<lparr> store := t \<rparr>"
      have p: "only_parks e ?e" using store_copy_effect [OF cp] by (simp add: only_parks_def live_part_def)
      have g: "parked_ok ri fi ?e"
        using assms(2) good_files_copy [OF _ cp] by (simp add: engine_ok_def parked_ok_def)
      have "clone_session api e a b = (if ok then trim_session_disk ?e else ?e)"
        using go False None cp by (simp add: clone_session_def)
      with engine_ok_parks [OF assms(2) p g]
        engine_ok_parks [OF assms(2) only_parks_trans [OF p trim_session_disk_parks] parked_ok_trimmed [OF g]]
      show ?thesis by simp
    qed
  qed
qed

lemma release_effect:
  assumes "contracts api cells ri fi" and "engine_ok cells ri fi e"
  shows "engine_ok cells ri fi (release_session api e i)"
proof -
  let ?e = "e\<lparr> memory := memory_erase (memory e) i, store := store_remove (store e) i \<rparr>"
  have kc: "kv_contract api cells" using assms(1) by (simp add: contracts_def)
  have ok: "engine_ok cells ri fi ?e"
    using assms(2) by (simp add: engine_ok_def parked_ok_def live_ok_def good_memory_erase good_files_remove)
  have "live_prefix cells ?e" using ok by (simp add: engine_ok_def live_ok_prefix)
  from trim_to_nothing [OF kc this] ok show ?thesis
    by (auto simp: release_session_def engine_ok_def Let_def only_trims_parked)
qed

lemma reset_effect:
  assumes "contracts api cells ri fi" and "engine_ok cells ri fi e"
  shows "engine_ok cells ri fi (engine_reset api e)"
proof -
  have kc: "kv_contract api cells" using assms(1) by (simp add: contracts_def)
  have "live_prefix cells e" using assms(2) by (simp add: engine_ok_def live_ok_prefix)
  from trim_to_nothing [OF kc this] assms(2) show ?thesis
    by (auto simp: engine_reset_def engine_ok_def only_trims_parked)
qed

lemma flush_ids_effect:
  assumes "contracts api cells ri fi"
  shows "engine_ok cells ri fi e \<Longrightarrow> engine_ok cells ri fi (flush_ids api ids e)"
proof (induction ids arbitrary: e)
  case (Cons i ids)
  obtain r m where tk: "memory_take (memory e) i = (r, m)" by fastforce
  have gm: "good_memory ri (memory e)" and gf: "good_files fi (store e)" and live: "live_ok cells e"
    using Cons.prems by (simp_all add: engine_ok_def parked_ok_def)
  note m = good_memory_take [OF gm tk]
  show ?case
  proof (cases r)
    case None
    have "engine_ok cells ri fi (e\<lparr> memory := m \<rparr>)"
      using m(1) gf live by (simp add: engine_ok_def parked_ok_def live_ok_def)
    from Cons.IH [OF this] tk None show ?thesis by simp
  next
    case (Some sp)
    obtain sv t where sv: "store_save_captured api (store e) i (snap_tokens sp) (snap_state sp) = (sv, t)"
      by fastforce
    have gt: "good_files fi t" by (rule good_files_captured [OF assms gf m(4) [OF Some] sv])
    let ?w = "e\<lparr> memory := m, store := t \<rparr>"
    have pw: "parked_ok ri fi ?w" using m(1) gt by (simp add: parked_ok_def)
    have "only_parks e ?w"
      using memory_take_limit [OF tk] store_save_captured_effect [OF sv] by (intro only_parksI) simp_all
    then have "engine_ok cells ri fi (trim_session_disk ?w)"
      using engine_ok_parks [OF Cons.prems only_parks_trans [OF _ trim_session_disk_parks] parked_ok_trimmed [OF pw]]
      by blast
    moreover have "engine_ok cells ri fi (e\<lparr> memory := memory_insert m i sp, store := t \<rparr>)"
      using m(1,4) Some gt live by (simp add: engine_ok_def parked_ok_def live_ok_def good_memory_insert)
    ultimately show ?thesis using Cons.IH tk Some sv by simp
  qed
qed simp

lemma flush_effect:
  assumes "contracts api cells ri fi" and "engine_ok cells ri fi e"
  shows "engine_ok cells ri fi (flush_parked_sessions api e)"
proof -
  let ?f = "flush_ids api (ids_oldest_first (memory e)) e"
  have "engine_ok cells ri fi ?f" by (rule flush_ids_effect [OF assms])
  then show ?thesis unfolding flush_parked_sessions_def
    by (blast intro: engine_ok_parks trim_session_disk_parks parked_ok_trimmed dest: engine_ok_def [THEN iffD1])
qed

end
