(* ===== verification/Llm_Budget.thy ===== *)
theory Llm_Budget
  imports Llm_Parking
begin

text \<open>
  Two promises of the parking code: the sessions in RAM never take more than
  \<open>session_memory_bytes\<close>, and moving sessions between RAM and disk loses none of them. For the
  second, \<open>parked_view\<close> is the abstract state, the map from session ids to parked token
  sequences, and \<open>store_snapshot\<close> is shown to be an update of that map.
\<close>

section \<open>The RAM budget\<close>

definition mem_budget :: "session_memory \<Rightarrow> bool" where
  "mem_budget m \<longleftrightarrow> memory_ok m \<and> held_total (entries m) \<le> unat (limit_bytes m)"

lemma mem_budget_keys: "mem_budget m \<Longrightarrow> memory_keys m"
  by (simp add: mem_budget_def memory_ok_def)

lemma mem_budget_used: "mem_budget m \<Longrightarrow> used_bytes m \<le> limit_bytes m"
  by (simp add: mem_budget_def memory_ok_def word_le_nat_alt)

lemma mem_budget_erase:
  assumes "mem_budget m"
  shows "mem_budget (memory_erase m i)"
  using assms held_total_filter [of "\<lambda>e. me_id e \<noteq> i" "entries m"]
  by (simp add: mem_budget_def memory_erase_ok memory_erase_entries [OF mem_budget_keys [OF assms]])

lemma mem_budget_insert:
  assumes "memory_ok m"
    and "held_total (filter (\<lambda>e. me_id e \<noteq> i) (entries m)) + unat (parked_session_bytes s) \<le> unat (limit_bytes m)"
  shows "mem_budget (memory_insert m i s)"
proof -
  have keys: "memory_keys m" using assms(1) by (simp add: memory_ok_def)
  have "memory_ok (memory_insert m i s)"
    using assms unat_u64_less [of "limit_bytes m"] by (intro memory_insert_ok) simp_all
  with assms(2) show ?thesis
    by (simp add: mem_budget_def memory_insert_entries [OF keys] held_total_def)
qed

text \<open>Taking a session out and putting it back as the newest keeps the budget.\<close>

lemma mem_budget_reinsert:
  assumes "mem_budget m" and "memory_find m i = Some s"
  shows "mem_budget (memory_insert (memory_erase m i) i s)"
proof -
  have keys: "memory_keys m" by (rule mem_budget_keys [OF assms(1)])
  obtain e where e: "find_entry m i = Some e" "s = me_snapshot e"
    using assms(2) by (auto simp: memory_find_def)
  then have mem: "e \<in> set (entries m)" and ie: "me_id e = i" by (simp_all add: find_entry_Some)
  have "entries (memory_erase m i) = remove1 e (entries m)"
    by (simp add: memory_erase_def memory_take_def e(1))
  then have "held_total (filter (\<lambda>e. me_id e \<noteq> i) (entries (memory_erase m i))) + unat (me_bytes e)
      \<le> held_total (entries m)"
    using held_total_remove1 [OF mem] held_total_filter [of _ "remove1 e (entries m)"]
    by (metis add.commute add_le_cancel_left)
  moreover have "parked_session_bytes s = me_bytes e"
    using assms(1) mem e(2) by (simp add: mem_budget_def memory_ok_def)
  ultimately show ?thesis
    using assms(1) by (intro mem_budget_insert) (simp_all add: memory_erase_ok mem_budget_def)
qed

lemma mem_budget_take:
  assumes "mem_budget m" and "memory_take m i = (r, m')"
  shows "mem_budget m'" "m' = memory_erase m i" "r = memory_find m i"
  using assms mem_budget_erase [OF assms(1)] memory_take_eq [OF mem_budget_keys [OF assms(1)]]
  by auto

lemma save_incoming_budget:
  "mem_budget (memory e) \<Longrightarrow> save_incoming api e i s = (ok, e') \<Longrightarrow> mem_budget (memory e')"
  by (auto simp: save_incoming_def Let_def mem_budget_erase split: prod.splits if_splits)

lemma filter_drop_taken:
  "distinct (map f xs) \<Longrightarrow> filter (\<lambda>x. f x \<notin> set (map f (take k xs))) xs = drop k xs"
proof (induction xs arbitrary: k)
  case (Cons x xs)
  show ?case
  proof (cases k)
    case (Suc n)
    have "filter (\<lambda>y. f y \<notin> set (map f (take k (x # xs)))) (x # xs) =
        filter (\<lambda>y. f y \<notin> set (map f (take n xs))) xs"
      using Cons.prems Suc by (auto intro!: filter_cong simp: image_iff)
    with Cons Suc show ?thesis by simp
  qed simp
qed simp

lemma spill_then_keep_budget:
  "spill_then_keep api ids e i s = (ok, e') \<Longrightarrow> mem_budget (memory e) \<Longrightarrow>
     held_total (filter (\<lambda>x. me_id x \<noteq> i \<and> me_id x \<notin> set ids) (entries (memory e))) +
       unat (parked_session_bytes s) \<le> unat (limit_bytes (memory e)) \<Longrightarrow> mem_budget (memory e')"
proof (induction ids arbitrary: e)
  case Nil
  then have "mem_budget (memory_insert (memory e) i s)"
    by (intro mem_budget_insert) (simp_all add: mem_budget_def)
  with Nil show ?case by auto
next
  case (Cons j ids)
  obtain r m where tk: "memory_take (memory e) j = (r, m)" by fastforce
  note m = mem_budget_take [OF Cons.prems(2) tk]
  have keys: "memory_keys (memory e)" by (rule mem_budget_keys [OF Cons.prems(2)])
  have rest: "held_total (filter (\<lambda>x. me_id x \<noteq> i \<and> me_id x \<notin> set ids) (entries m)) +
      unat (parked_session_bytes s) \<le> unat (limit_bytes m)"
  proof -
    have "filter (\<lambda>x. me_id x \<noteq> i \<and> me_id x \<notin> set ids) (entries m) =
        filter (\<lambda>x. me_id x \<noteq> i \<and> me_id x \<notin> set (j # ids)) (entries (memory e))"
      by (auto simp: m(2) memory_erase_entries [OF keys] intro!: filter_cong)
    with Cons.prems(3) m(2) show ?thesis by simp
  qed
  show ?case
  proof (cases r)
    case None
    from Cons.IH [of "e\<lparr> memory := m \<rparr>"] Cons.prems(1) tk None m(1) rest show ?thesis by simp
  next
    case (Some sp)
    obtain sv t where sv: "store_save_captured api (store e) j (snap_tokens sp) (snap_state sp) = (sv, t)"
      by fastforce
    show ?thesis
    proof (cases sv)
      case True
      from Cons.IH [of "trim_session_disk (e\<lparr> memory := m, store := t \<rparr>)"] Cons.prems(1) tk Some sv True
        m(1) rest show ?thesis by simp
    next
      case False
      have "mem_budget (memory_insert m j sp)"
        using mem_budget_reinsert [OF Cons.prems(2)] m(2,3) Some by simp
      with save_incoming_budget [of "e\<lparr> memory := memory_insert m j sp, store := t \<rparr>"]
        Cons.prems(1) tk Some sv False show ?thesis by simp
    qed
  qed
qed

lemma store_snapshot_budget:
  assumes "store_snapshot api e i s = (ok, e')" and "mem_budget (memory e)"
  shows "mem_budget (memory e')"
proof (cases "snap_tokens s = [] \<or> length (snap_state s) < k_seq_memory_prefix")
  case True
  with assms show ?thesis by (auto simp: store_snapshot_def)
next
  case False
  let ?b = "parked_session_bytes s" and ?lim = "limit_bytes (memory e)"
  let ?held = "filter (\<lambda>x. me_id x \<noteq> i) (entries (memory e))"
  let ?ps = "map (\<lambda>x. \<lparr> pb_id = me_id x, pb_bytes = me_bytes x \<rparr>) ?held"
  have pl: "memory_plan (memory e) ?b i = plan_memory_admit ?ps ?b ?lim" by (simp add: memory_plan_def)
  show ?thesis
  proof (cases "?lim = 0 \<or> ?b = 0 \<or> ?lim < ?b")
    case True
    with assms False pl plan_refuses [OF True] show ?thesis
      by (auto simp: store_snapshot_def Let_def save_incoming_budget)
  next
    case fits: False
    then have "?lim \<noteq> 0" "?b \<noteq> 0" "?b \<le> ?lim" by (simp_all add: not_less)
    note plan = plan_admits [OF this, of ?ps]
    from plan(2) obtain k where k: "spill (plan_memory_admit ?ps ?b ?lim) = map pb_id (take k ?ps)"
      "held_bytes ?ps < 2 ^ 64 \<longrightarrow> held_bytes (drop k ?ps) + unat ?b \<le> unat ?lim" by blast
    have held: "held_bytes (map (\<lambda>x. \<lparr> pb_id = me_id x, pb_bytes = me_bytes x \<rparr>) es) = held_total es" for es
      by (induction es) (simp_all add: held_bytes_def held_total_def)
    have "held_total ?held \<le> unat ?lim"
      using assms(2) held_total_filter [of "\<lambda>x. me_id x \<noteq> i" "entries (memory e)"]
      by (simp add: mem_budget_def)
    then have small: "held_bytes ?ps < 2 ^ 64" using unat_u64_less [of ?lim] by (simp only: held)
    have ids: "map pb_id (take k ?ps) = map me_id (take k ?held)" by (simp add: take_map comp_def)
    have dist: "distinct (map me_id ?held)"
      using mem_budget_keys [OF assms(2)] by (simp add: memory_keys_def distinct_map_filter)
    have "filter (\<lambda>x. me_id x \<noteq> i \<and> me_id x \<notin> set (map me_id (take k ?held))) (entries (memory e)) =
        drop k ?held"
      using filter_drop_taken [OF dist, of k] by (simp add: conj_commute)
    then have room: "held_total (filter (\<lambda>x. me_id x \<noteq> i \<and> me_id x \<notin> set (map me_id (take k ?held)))
        (entries (memory e))) + unat ?b \<le> unat ?lim"
      using k(2) small held by (simp only: drop_map)
    have "spill_then_keep api (map me_id (take k ?held)) e i s = (ok, e')"
      using assms(1) False plan(1) k(1) ids by (simp add: store_snapshot_def pl Let_def)
    from spill_then_keep_budget [OF this assms(2) room] show ?thesis .
  qed
qed

section \<open>No parked session is lost\<close>

definition parked_view :: "('c, 's, 'z) llama_api_scheme \<Rightarrow> ('c, 's) engine \<Rightarrow> string \<Rightarrow> token list option" where
  "parked_view api e i =
     (case memory_find (memory e) i of
        Some s \<Rightarrow> Some (snap_tokens s)
      | None \<Rightarrow> if valid_id (store e) i then map_option fst (store_look api (store e) i) else None)"

lemma view_cong:
  "memory_find (memory e') j = memory_find (memory e) j \<Longrightarrow> store e' = store e \<Longrightarrow>
     parked_view api e' j = parked_view api e j"
  by (simp add: parked_view_def split: option.split)

definition keeps_files :: "('c, 's) engine \<Rightarrow> bool" where
  "keeps_files e \<longleftrightarrow> cfg_session_disk_max_age_days (config e) < 0"

lemma view_after_file:
  assumes "store_save_captured api (store e) i ts st = (ok, t)" and "memory_find m i = None \<or> \<not> ok"
    and "\<And>j. j \<noteq> i \<or> \<not> ok \<Longrightarrow> memory_find m j = memory_find (memory e) j"
  shows "parked_view api (e\<lparr> memory := m, store := t \<rparr>) =
    (if ok then (parked_view api e)(i \<mapsto> ts) else parked_view api e)"
proof -
  note eff = store_save_captured_effect [OF assms(1)]
  then have dev: "same_device (store e) t" by blast
  show ?thesis
  proof (cases ok)
    case True
    with eff have v: "valid_id (store e) i" "length ts \<le> k_max_tokens"
      and files: "kv_files t = (kv_files (store e))(i \<mapsto> seq_header api ts @ drop 8 st)" by auto
    have "store_look api t j = (if j = i then Some (ts, drop 8 st) else store_look api (store e) j)" for j
      using file_contents_header [OF v(2), of api "drop 8 st"] by (simp add: store_look_def files)
    with True v(1) assms(2,3) valid_id_same [OF dev] show ?thesis
      by (auto simp: parked_view_def fun_eq_iff split: option.splits)
  next
    case False
    with eff have "kv_files t = kv_files (store e)" by simp
    with False assms(3) valid_id_same [OF dev] show ?thesis
      by (simp add: parked_view_def fun_eq_iff store_look_def split: option.split)
  qed
qed

lemma save_incoming_view:
  assumes "save_incoming api e i s = (ok, e')" and "keeps_files e" and "memory_keys (memory e)"
  shows "(ok \<longrightarrow> parked_view api e' = (parked_view api e)(i \<mapsto> snap_tokens s)) \<and>
    (\<forall>j. j \<noteq> i \<longrightarrow> parked_view api e' j = parked_view api e j)"
proof -
  let ?f = "e\<lparr> memory := memory_erase (memory e) i \<rparr>"
  obtain sv t where sv: "store_save_captured api (store ?f) i (snap_tokens s) (snap_state s) = (sv, t)"
    by fastforce
  have e': "ok = sv" "e' = e\<lparr> memory := memory_erase (memory e) i, store := t \<rparr>"
    using assms(1,2) sv by (auto simp: save_incoming_def Let_def keeps_files_def split: if_splits)
  have f: "j \<noteq> i \<Longrightarrow> parked_view api ?f j = parked_view api e j" for j
    by (simp add: parked_view_def memory_erase_find [OF assms(3)] split: option.split)
  have "parked_view api (?f\<lparr> memory := memory_erase (memory e) i, store := t \<rparr>) =
      (if sv then (parked_view api ?f)(i \<mapsto> snap_tokens s) else parked_view api ?f)"
    by (rule view_after_file [OF sv]) (simp_all add: memory_erase_find [OF assms(3)])
  with e' f show ?thesis by (auto simp: fun_eq_iff)
qed

lemma insert_view:
  assumes "memory_keys (memory e)"
  shows "parked_view api (e\<lparr> memory := memory_insert (memory e) i s, store := store_remove (store e) i \<rparr>) =
    (parked_view api e)(i \<mapsto> snap_tokens s)"
proof
  fix j
  show "parked_view api (e\<lparr> memory := memory_insert (memory e) i s, store := store_remove (store e) i \<rparr>) j =
    ((parked_view api e)(i \<mapsto> snap_tokens s)) j"
    using store_remove_effect [of "store e" i]
    by (auto simp: parked_view_def memory_insert_find [OF assms] store_look_def split: option.splits)
qed

lemma spill_then_keep_view:
  "spill_then_keep api ids e i s = (ok, e') \<Longrightarrow> keeps_files e \<Longrightarrow> memory_keys (memory e) \<Longrightarrow>
     (ok \<longrightarrow> parked_view api e' = (parked_view api e)(i \<mapsto> snap_tokens s)) \<and>
     (\<forall>j. j \<noteq> i \<longrightarrow> parked_view api e' j = parked_view api e j)"
proof (induction ids arbitrary: e)
  case Nil
  then show ?case using insert_view [of e api i s] by auto
next
  case (Cons j ids)
  have tk: "memory_take (memory e) j = (memory_find (memory e) j, memory_erase (memory e) j)"
    by (rule memory_take_eq [OF Cons.prems(3)])
  show ?case
  proof (cases "memory_find (memory e) j")
    case None
    then have "memory_erase (memory e) j = memory e"
      by (simp add: memory_erase_def memory_take_def memory_find_def)
    with Cons tk None show ?thesis by simp
  next
    case (Some sp)
    let ?m = "memory_erase (memory e) j"
    obtain sv t where sv: "store_save_captured api (store e) j (snap_tokens sp) (snap_state sp) = (sv, t)"
      by fastforce
    have same: "parked_view api e j = Some (snap_tokens sp)" using Some by (simp add: parked_view_def)
    show ?thesis
    proof (cases sv)
      case True
      have "parked_view api (e\<lparr> memory := ?m, store := t \<rparr>) = (parked_view api e)(j \<mapsto> snap_tokens sp)"
        using view_after_file [OF sv, of ?m] True by (simp add: memory_erase_find [OF Cons.prems(3)])
      then have v: "parked_view api (e\<lparr> memory := ?m, store := t \<rparr>) = parked_view api e"
        using same by (simp add: fun_eq_iff)
      have "spill_then_keep api ids (e\<lparr> memory := ?m, store := t \<rparr>) i s = (ok, e')"
        using Cons.prems(1,2) tk Some sv True by (simp add: keeps_files_def)
      from Cons.IH [OF this] Cons.prems(2,3) v show ?thesis
        by (simp add: keeps_files_def memory_erase_keys)
    next
      case False
      let ?n = "memory_insert ?m j sp"
      have find: "memory_find ?n = memory_find (memory e)"
        using Some by (simp add: memory_insert_find memory_erase_keys [OF Cons.prems(3)]
            memory_erase_find [OF Cons.prems(3)] fun_eq_iff)
      have v: "parked_view api (e\<lparr> memory := ?n, store := t \<rparr>) = parked_view api e"
        using view_after_file [OF sv, of ?n] False find by simp
      have "save_incoming api (e\<lparr> memory := ?n, store := t \<rparr>) i s = (ok, e')"
        using Cons.prems(1) tk Some sv False by simp
      from save_incoming_view [OF this] Cons.prems(2,3) v show ?thesis
        by (simp add: keeps_files_def memory_insert_keys memory_erase_keys)
    qed
  qed
qed

lemma store_snapshot_view:
  "store_snapshot api e i s = (ok, e') \<Longrightarrow> keeps_files e \<Longrightarrow> memory_keys (memory e) \<Longrightarrow>
     (ok \<longrightarrow> parked_view api e' = (parked_view api e)(i \<mapsto> snap_tokens s)) \<and>
     (\<forall>j. j \<noteq> i \<longrightarrow> parked_view api e' j = parked_view api e j)"
  by (auto simp: store_snapshot_def Let_def split: if_splits
      dest: save_incoming_view spill_then_keep_view)

text \<open>Writing the live sequence to disk parks exactly the engine's tokens.\<close>

lemma file_of_image:
  assumes "state_contract api cells ri fi" and "fi ts d" and "length ts \<le> k_max_tokens"
  shows "\<exists>body. file_contents api d = Some (ts, body)"
proof -
  from state_header [OF assms(1,2)] obtain body where "d = seq_header api ts @ body"
    by (auto simp: prefix_def)
  with file_contents_header [OF assms(3)] show ?thesis by blast
qed

lemma write_live_view:
  assumes "contracts api cells ri fi" and "engine_ok cells ri fi e" and "ctx e = Some c"
    and "keeps_files e"
  shows "\<forall>j. j \<noteq> i \<longrightarrow> parked_view api (write_live_to_disk api e i) j = parked_view api e j"
    and "fst (store_save api (store e) (Some c) i (active_tokens e)) \<Longrightarrow>
      parked_view api (write_live_to_disk api e i) i = Some (active_tokens e)"
proof -
  obtain sv t where sv: "store_save api (store e) (Some c) i (active_tokens e) = (sv, t)" by fastforce
  have keys: "memory_keys (memory e)"
    using assms(2) by (simp add: engine_ok_def parked_ok_def good_memory_def)
  have cells: "active_tokens e = cells c" using assms(2,3) by (simp add: engine_ok_def live_ok_def)
  have sc: "state_contract api cells ri fi" using assms(1) by (simp add: contracts_def)
  have w: "write_live_to_disk api e i = e\<lparr> memory := memory_erase (memory e) i, store := t \<rparr>"
    using sv assms(3,4) by (simp add: write_live_to_disk_def keeps_files_def Let_def)
  note eff = store_save_effect [OF sv]
  then have dev: "same_device (store e) t" by blast
  have img: "fi (active_tokens e) (snd (state_seq_save_file api c (active_tokens e)))"
    unfolding cells using state_save [OF sc] by (metis prod.collapse)
  show "\<forall>j. j \<noteq> i \<longrightarrow> parked_view api (write_live_to_disk api e i) j = parked_view api e j"
    using eff
    by (simp add: valid_id_same [OF dev] w parked_view_def memory_erase_find [OF keys] store_look_def split: option.split)
  assume "fst (store_save api (store e) (Some c) i (active_tokens e))"
  with sv have s: sv by simp
  with eff file_of_image [OF sc img] obtain body where
    "valid_id (store e) i" "store_look api t i = Some (active_tokens e, body)"
    by (auto simp: store_look_def)
  then show "parked_view api (write_live_to_disk api e i) i = Some (active_tokens e)"
    by (simp add: valid_id_same [OF dev] w parked_view_def memory_erase_find [OF keys])
qed

lemma write_live_budget: "mem_budget (memory e) \<Longrightarrow> mem_budget (memory (write_live_to_disk api e i))"
  by (simp add: write_live_to_disk_def Let_def mem_budget_erase split: prod.splits)

lemma capture_memory: "capture_live_sequence api e = (r, f) \<Longrightarrow> memory f = memory e \<and> store f = store e"
  by (auto simp: capture_live_sequence_def Let_def split: option.splits if_splits list.splits
      bool.splits prod.splits)

lemma park_budget:
  assumes "mem_budget (memory e)"
  shows "mem_budget (memory (park_active_session api e))"
proof -
  obtain r f where cap: "capture_live_sequence api e = (r, f)" by fastforce
  with assms have f: "mem_budget (memory f)" by (simp add: capture_memory)
  show ?thesis
    using assms cap f
    by (auto simp: park_active_session_def write_live_budget store_snapshot_budget
        split: capture.splits prod.splits bool.splits)
qed

lemma trim_kv_to_memory [simp]: "memory (snd (trim_kv_to api e n)) = memory e"
  by (simp add: trim_kv_to_def Let_def split: option.splits prod.splits)

lemma unpark_budget:
  assumes "mem_budget (memory e)" and "unpark_session api e i = (hit, e')"
  shows "mem_budget (memory e')"
proof -
  obtain r m where tk: "memory_take (memory e) i = (r, m)" by fastforce
  note m = mem_budget_take [OF assms(1) tk]
  have again: "r = Some sp \<Longrightarrow> mem_budget (memory_insert m i sp)" for sp
    using mem_budget_reinsert [OF assms(1)] m by simp
  show ?thesis
    using assms(2) tk m(1) again assms(1)
    by (auto simp: unpark_session_def Let_def split: option.splits prod.splits if_splits)
qed

lemma activate_budget:
  assumes "mem_budget (memory e)"
  shows "mem_budget (memory (activate_session api e i))"
proof -
  let ?f = "(park_active_session api e)\<lparr> active_session_id := i, active_tokens := [], message_ends := [] \<rparr>"
  obtain hit g where un: "unpark_session api ?f i = (hit, g)" by fastforce
  have "mem_budget (memory ?f)" using park_budget [OF assms] by simp
  from unpark_budget [OF this un] un assms show ?thesis
    by (simp add: activate_session_def Let_def)
qed

lemma clone_budget:
  assumes "mem_budget (memory e)"
  shows "mem_budget (memory (clone_session api e a b))"
proof -
  have live: "mem_budget (memory f) \<Longrightarrow> mem_budget (memory (clone_live api f b))" for f
    by (simp add: clone_live_def Let_def split: prod.splits)
  obtain r f where cap: "capture_live_sequence api e = (r, f)" by fastforce
  with assms have f: "mem_budget (memory f)" by (simp add: capture_memory)
  have snap: "mem_budget (memory (snd (store_snapshot api g b s)))" if "mem_budget (memory g)" for g s
    using store_snapshot_budget [OF _ that] by (metis prod.collapse)
  show ?thesis
    using assms cap f live snap store_snapshot_budget [of api f b]
    by (auto simp: clone_session_def Let_def split: capture.splits prod.splits bool.splits option.splits)
qed

lemma flush_ids_budget: "mem_budget (memory e) \<Longrightarrow> mem_budget (memory (flush_ids api ids e))"
proof (induction ids arbitrary: e)
  case (Cons i ids)
  obtain r m where tk: "memory_take (memory e) i = (r, m)" by fastforce
  note m = mem_budget_take [OF Cons.prems tk]
  have again: "r = Some sp \<Longrightarrow> mem_budget (memory_insert m i sp)" for sp
    using mem_budget_reinsert [OF Cons.prems] m by simp
  show ?case using tk m(1) again Cons.IH by (simp split: option.splits prod.splits)
qed simp

lemma release_budget: "mem_budget (memory e) \<Longrightarrow> mem_budget (memory (release_session api e i))"
  by (simp add: release_session_def Let_def mem_budget_erase)

section \<open>Switching sessions\<close>

lemma capture_view:
  "capture_live_sequence api e = (r, f) \<Longrightarrow> parked_view api f = parked_view api e"
  using capture_memory [of api e r f] by (intro ext view_cong) simp_all

text \<open>
  Parking touches the view of the live session only, and leaves its tokens there whenever RAM or
  disk took them.
\<close>

lemma park_view:
  assumes "contracts api cells ri fi" and "engine_ok cells ri fi e" and "ctx e = Some c"
    and "keeps_files e" and "active_session_id e \<noteq> []" and "active_tokens e \<noteq> []"
  shows "(\<forall>j. j \<noteq> active_session_id e \<longrightarrow>
      parked_view api (park_active_session api e) j = parked_view api e j) \<and>
    ((\<forall>s. opened s = opened (store e) \<longrightarrow> calm s \<longrightarrow>
        fst (store_save api s (Some c) (active_session_id e) (active_tokens e))) \<longrightarrow> calm (store e) \<longrightarrow>
      parked_view api (park_active_session api e) (active_session_id e) = Some (active_tokens e))"
proof -
  let ?i = "active_session_id e"
  define works where "works \<longleftrightarrow> (\<forall>s. opened s = opened (store e) \<longrightarrow> calm s \<longrightarrow>
        fst (store_save api s (Some c) ?i (active_tokens e)))"
  define goal where "goal f \<longleftrightarrow> (\<forall>j. j \<noteq> ?i \<longrightarrow> parked_view api f j = parked_view api e j) \<and>
      (works \<longrightarrow> calm (store e) \<longrightarrow> parked_view api f ?i = Some (active_tokens e))" for f
  have disk: "goal (write_live_to_disk api f ?i)"
    if f: "only_parks e f" "parked_ok ri fi f" "\<forall>j. j \<noteq> ?i \<longrightarrow> parked_view api f j = parked_view api e j" for f
  proof -
    note fields = only_parks_fields [OF f(1)]
    have ok: "engine_ok cells ri fi f" by (rule engine_ok_parks [OF assms(2) f(1,2)])
    have "ctx f = Some c" "keeps_files f" using assms(3,4) fields by (simp_all add: keeps_files_def)
    note w = write_live_view [OF assms(1) ok this, of ?i]
    have "works \<Longrightarrow> calm (store e) \<Longrightarrow> fst (store_save api (store f) (Some c) ?i (active_tokens e))"
      using fields(10) by (simp add: works_def same_device_def)
    with w f(3) fields(2) show ?thesis by (simp add: goal_def)
  qed
  have start: "only_parks e e" "parked_ok ri fi e" using assms(2) by (simp_all add: engine_ok_def)
  have "goal (park_active_session api e)"
  proof (cases "cfg_session_memory_bytes (config e) = 0")
    case True
    with assms(3,5,6) disk [OF start] show ?thesis by (simp add: park_active_session_def)
  next
    case ram: False
    obtain r f where cap: "capture_live_sequence api e = (r, f)" by fastforce
    have live: "live_ok cells e" using assms(2) by (simp add: engine_ok_def)
    note c = capture_effect [OF assms(1) live cap]
    then have f: "only_parks e f" "parked_ok ri fi f" using start(2) by (simp_all add: parked_ok_def)
    have vf: "parked_view api f = parked_view api e" by (rule capture_view [OF cap])
    have idf: "active_session_id f = ?i" using only_parks_fields(3) [OF f(1)] .
    show ?thesis
    proof (cases r)
      case (Captured s)
      with c have s: "snap_tokens s = active_tokens e" "ri (snap_tokens s) (snap_state s)" by blast+
      obtain ok g where st: "store_snapshot api f ?i s = (ok, g)" by fastforce
      have keep: "keeps_files f" "memory_keys (memory f)"
        using assms(4) only_parks_fields(4) [OF f(1)] f(2)
        by (simp_all add: keeps_files_def parked_ok_def good_memory_def)
      note v = store_snapshot_view [OF st keep]
      have g: "only_parks e g" "parked_ok ri fi g"
        using only_parks_trans [OF f(1) store_snapshot_parks [OF st]]
          store_snapshot_ok [OF assms(1) st f(2) s(2)] by blast+
      have "park_active_session api e = (if ok then g else write_live_to_disk api g ?i)"
        using assms(3,5,6) ram cap Captured st idf only_parks_fields(3) [OF g(1)]
        by (simp add: park_active_session_def)
      with v vf s(1) disk [OF g] show ?thesis by (auto simp: goal_def)
    next
      case Nothing_to_capture
      with assms(3,5,6) ram cap idf disk [OF f] vf show ?thesis by (simp add: park_active_session_def)
    next
      case Capture_bad_alloc
      with assms(3,5,6) ram cap idf disk [OF f] vf show ?thesis by (simp add: park_active_session_def)
    qed
  qed
  then show ?thesis by (simp add: goal_def works_def)
qed

lemma trim_view: "parked_view api (snd (trim_kv_to api e n)) = parked_view api e"
  by (simp add: parked_view_def fun_eq_iff trim_kv_to_def Let_def split: option.splits prod.splits)

lemma unpark_view:
  assumes "contracts api cells ri fi" and "parked_ok ri fi e" and "active_tokens e = []"
    and "unpark_session api e i = (hit, e')"
  shows "(hit \<longrightarrow> parked_view api e i = Some (active_tokens e')) \<and>
    (\<forall>j. j \<noteq> i \<longrightarrow> parked_view api e' j = parked_view api e j)"
proof -
  have kc: "kv_contract api cells" and sc: "state_contract api cells ri fi"
    using assms(1) by (simp_all add: contracts_def)
  have keys: "memory_keys (memory e)" and gf: "good_files fi (store e)"
    using assms(2) by (simp_all add: parked_ok_def good_memory_def)
  note eff = unpark_effect [OF assms]
  have tk: "memory_take (memory e) i = (memory_find (memory e) i, memory_erase (memory e) i)"
    by (rule memory_take_eq [OF keys])
  show ?thesis
  proof (cases "memory_find (memory e) i")
    case (Some sp)
    have "(hit \<longrightarrow> active_tokens e' = snap_tokens sp) \<and> (j \<noteq> i \<longrightarrow> memory_find (memory e') j = memory_find (memory e) j)" for j
      using assms(4) Some tk keys
      by (auto simp: unpark_session_def Let_def memory_insert_find memory_erase_find memory_erase_keys
          split: option.splits prod.splits if_splits)
    moreover have "parked_view api e i = Some (snap_tokens sp)" using Some by (simp add: parked_view_def)
    ultimately show ?thesis using eff view_cong [of e' _ e api] by simp
  next
    case None
    then have same: "memory_erase (memory e) i = memory e"
      by (simp add: memory_erase_def memory_take_def memory_find_def)
    have mem: "memory e' = memory e"
      using assms(4) None tk same
      by (auto simp: unpark_session_def Let_def split: option.splits prod.splits if_splits)
    have "parked_view api e i = Some (active_tokens e')" if hit
    proof -
      let ?f = "snd (trim_kv_to api e 0)"
      have "live_prefix cells e" using assms(3) by (simp add: live_prefix_def)
      from trim_to_nothing [OF kc this] have sf: "store ?f = store e" by (simp add: only_trims_def)
      obtain l ts0 x where ld0: "store_load api (store e) (ctx ?f) i = (l, ts0, x)" by (metis prod_cases3)
      from that assms(4) None tk same ld0 have lt: l "ts0 = active_tokens e'"
        and cnt: "store_token_count api (store e) i \<noteq> None"
        by (auto simp: unpark_session_def Let_def sf split: option.splits if_splits)
      from ld0 lt obtain c where ld: "store_load api (store e) (Some c) i = (True, active_tokens e', x)"
        by (cases "ctx ?f") (simp_all add: store_load_def)
      from ld obtain b n k c1 where b: "kv_files (store e) i = Some b"
        and lf: "state_seq_load_file api c b n = (k, active_tokens e', c1)" "k \<noteq> 0"
        and v: "valid_id (store e) i"
        by (auto simp: store_load_def kv_files_def Let_def split: if_splits option.splits prod.splits)
      from gf b obtain ts d where img: "fi ts d" "prefix b d" "length ts \<le> k_max_tokens"
        unfolding good_files_def good_file_def by blast
      have ts: "active_tokens e' = ts"
        using state_load [OF sc img(1,2) _ lf] img(3) by (simp add: k_max_tokens_def)
      from state_header [OF sc img(1)] obtain body where d: "d = seq_header api ts @ body"
        by (auto simp: prefix_def)
      have len: "12 \<le> length b" "12 + 4 * unat (of_le32 (drop 8 b)) \<le> length b"
        using cnt v b by (auto simp: store_token_count_def read_token_count_def kv_files_def Let_def
            split: if_splits)
      have "unat (of_le32 (drop 8 b)) = length ts"
        using header_count [OF _ img(2) [unfolded d] len(1)] img(3) by (simp add: k_max_tokens_def)
      with len(2) have "length (seq_header api ts) \<le> length b" using header_fields(4) [OF img(3), of api] by simp
      with img(2) d obtain rest where "b = seq_header api ts @ rest"
        by (metis prefix_def prefix_length_prefix)
      with file_contents_header [OF img(3)] b have "store_look api (store e) i = Some (ts, rest)"
        by (simp add: store_look_def)
      with None v ts show ?thesis by (simp add: parked_view_def)
    qed
    with eff mem view_cong [of e' _ e api] show ?thesis by simp
  qed
qed

lemma park_view_other:
  assumes "contracts api cells ri fi" and "engine_ok cells ri fi e" and "keeps_files e"
    and "j \<noteq> active_session_id e"
  shows "parked_view api (park_active_session api e) j = parked_view api e j"
proof (cases "active_session_id e = [] \<or> ctx e = None \<or> active_tokens e = []")
  case True
  then show ?thesis by (auto simp: park_active_session_def)
next
  case False
  then obtain c where "ctx e = Some c" by (cases "ctx e") simp_all
  from park_view [OF assms(1,2) this assms(3)] False assms(4) show ?thesis by blast
qed

lemma activate_view:
  assumes "contracts api cells ri fi" and "engine_ok cells ri fi e" and "i \<noteq> active_session_id e"
  shows "(\<forall>j. j \<noteq> i \<longrightarrow>
      parked_view api (activate_session api e i) j = parked_view api (park_active_session api e) j) \<and>
    (active_tokens (activate_session api e i) = [] \<or>
     parked_view api (park_active_session api e) i = Some (active_tokens (activate_session api e i)))"
proof -
  let ?p = "park_active_session api e"
  let ?f = "?p\<lparr> active_session_id := i, active_tokens := [], message_ends := [] \<rparr>"
  have kc: "kv_contract api cells" using assms(1) by (simp add: contracts_def)
  from park_effect [OF assms(1,2)] have pf: "parked_ok ri fi ?f" by (simp add: engine_ok_def parked_ok_def)
  obtain hit g where un: "unpark_session api ?f i = (hit, g)" by fastforce
  have pv: "parked_view api ?f = parked_view api ?p" by (intro ext view_cong) simp_all
  from unpark_view [OF assms(1) pf _ un] pv
  have v: "hit \<longrightarrow> parked_view api ?p i = Some (active_tokens g)"
    "\<forall>j. j \<noteq> i \<longrightarrow> parked_view api g j = parked_view api ?p j" by simp_all
  have act: "activate_session api e i = (if hit then g else snd (trim_kv_to api g 0))"
    using assms(3) un by (simp add: activate_session_def Let_def)
  show ?thesis
  proof (cases hit)
    case True
    with act v show ?thesis by simp
  next
    case False
    with unpark_effect [OF assms(1) pf _ un] have "active_tokens g = []" by simp
    then have "live_prefix cells g" by (simp add: live_prefix_def)
    from trim_to_nothing(3) [OF kc this] act v False show ?thesis by (simp add: trim_view)
  qed
qed

section \<open>Properties\<close>

text \<open>Every session operation of the engine, as the worker calls them.\<close>

datatype session_op =
    Op_activate string
  | Op_park
  | Op_clone string string
  | Op_release string
  | Op_flush
  | Op_reset

fun run_op :: "('c, 's, 'z) llama_api_scheme \<Rightarrow> session_op \<Rightarrow> ('c, 's) engine \<Rightarrow> ('c, 's) engine" where
  "run_op api (Op_activate i) e = activate_session api e i"
| "run_op api Op_park e = park_active_session api e"
| "run_op api (Op_clone a b) e = clone_session api e a b"
| "run_op api (Op_release i) e = release_session api e i"
| "run_op api Op_flush e = flush_parked_sessions api e"
| "run_op api Op_reset e = engine_reset api e"

lemma run_op_ok:
  "contracts api cells ri fi \<Longrightarrow> engine_ok cells ri fi e \<Longrightarrow> engine_ok cells ri fi (run_op api x e)"
  by (cases x) (simp_all add: activate_effect park_effect clone_effect release_effect flush_effect reset_effect)

lemma run_op_budget: "mem_budget (memory e) \<Longrightarrow> mem_budget (memory (run_op api x e))"
  by (cases x) (simp_all add: activate_budget park_budget clone_budget release_budget
      flush_parked_sessions_def flush_ids_budget engine_reset_def)

lemma run_ops_ok:
  assumes "contracts api cells ri fi" and "engine_ok cells ri fi e" and "mem_budget (memory e)"
  shows "engine_ok cells ri fi (fold (run_op api) xs e)" and "mem_budget (memory (fold (run_op api) xs e))"
  using assms(2,3) by (induction xs arbitrary: e) (simp_all add: run_op_ok [OF assms(1)] run_op_budget)

text \<open>
  C3. Through any sequence of activations, parkings, clones, releases, flushes and resets, with
  any pattern of disk and allocation failures, the context holds exactly the tokens the engine
  believes in, every parked snapshot and file stays an image of a sequence, and the sessions held
  in RAM never exceed the configured number of bytes.
\<close>

theorem session_operations_keep_the_engine:
  assumes "contracts api cells ri fi" and "engine_ok cells ri fi e" and "mem_budget (memory e)"
  shows "engine_ok cells ri fi (fold (run_op api) xs e) \<and>
    (\<forall>c. ctx (fold (run_op api) xs e) = Some c \<longrightarrow> cells c = active_tokens (fold (run_op api) xs e)) \<and>
    used_bytes (memory (fold (run_op api) xs e)) \<le> limit_bytes (memory (fold (run_op api) xs e))"
  using run_ops_ok [OF assms] by (simp add: engine_ok_def live_ok_def mem_budget_used)

definition demo_config :: "u64 \<Rightarrow> llama_config" where
  "demo_config ram = \<lparr> cfg_reasoning = True, cfg_n_ctx = 8, cfg_temperature = 1, cfg_top_p = 1,
     cfg_top_k = 20, cfg_min_p = 0, cfg_presence_penalty = 0, cfg_frequency_penalty = 0,
     cfg_repetition_penalty = 1, cfg_penalty_last_n = 64, cfg_seed = 0, cfg_max_tokens = -1,
     cfg_session_memory_bytes = ram, cfg_session_disk_max_age_days = -1,
     cfg_session_disk_max_bytes = 0 \<rparr>"

definition demo_engine :: "u64 \<Rightarrow> string \<Rightarrow> token list \<Rightarrow> (token list, token list) engine" where
  "demo_engine ram sid tokens = \<lparr> config = demo_config ram, vocab_ready = True, ctx = Some tokens,
     smpl = None, merge_user_turns = False, keep_reasoning = True, hybrid_cache = False,
     active_session_id = sid, active_tokens = tokens, message_ends = [], store = empty_store [],
     memory = session_memory_new ram, alloc_fails = [] \<rparr>"

lemma demo_contracts:
  "contracts (scripted_cache script n_limit batch eog) (\<lambda>c. c) (\<lambda>ts d. d = list_ram ts)
     (\<lambda>ts d. d = seq_header (scripted_cache script n_limit batch eog) ts @ bytes_of_tokens ts)"
  by (simp add: contracts_def list_cache_kv list_cache_state)

lemma demo_engine_ok: "engine_ok (\<lambda>c. c) ri fi (demo_engine ram sid tokens)"
  by (simp add: engine_ok_def live_ok_def parked_ok_def good_memory_def good_files_def demo_engine_def
      session_memory_new_def memory_keys_def memory_find_def find_entry_def empty_store_def
      kv_files_def file_at_def)

lemma demo_budget: "mem_budget (memory (demo_engine ram sid tokens))"
  using new_memory_ok [of ram]
  by (simp add: mem_budget_def demo_engine_def session_memory_new_def held_total_def)

theorem session_operations_keep_the_engine_witness:
  "let e = fold (run_op (list_cache 8 4 0)) [Op_activate ''b'', Op_clone ''a'' ''c'', Op_activate ''a'']
       (demo_engine 100 ''a'' [5, 6])
   in ctx e = Some (active_tokens e) \<and> used_bytes (memory e) \<le> limit_bytes (memory e)"
proof -
  let ?e = "fold (run_op (list_cache 8 4 0)) [Op_activate ''b'', Op_clone ''a'' ''c'', Op_activate ''a'']
       (demo_engine 100 ''a'' [5, 6])"
  note keeps = session_operations_keep_the_engine [OF demo_contracts demo_engine_ok demo_budget,
      of "[]" 8 4 0 "[Op_activate ''b'', Op_clone ''a'' ''c'', Op_activate ''a'']" 100 "''a''" "[5, 6]"]
  have "ctx ?e \<noteq> None" by code_simp
  with keeps show ?thesis unfolding Let_def by (cases "ctx ?e") simp_all
qed





text \<open>
  The header of \<open>clone_session\<close> asks for a new id, and the id has to be one: cloning a session
  that lies on disk onto an id that is parked in RAM copies the file and leaves the RAM copy, which
  every reader prefers.
\<close>

lemma clone_from_disk_keeps_stale_ram_copy:
  "let api = list_cache 8 4 0;
       e0 = demo_engine 100 ''x'' [];
       e1 = e0\<lparr> store := snd (store_save_captured api (store e0) ''from'' [2, 2] (list_ram [2, 2])),
                memory := memory_insert (memory e0) ''to'' \<lparr> snap_tokens = [1], snap_state = list_ram [1] \<rparr> \<rparr>;
       e2 = clone_session api e1 ''from'' ''to''
   in parked_view api e1 ''from'' = Some [2, 2] \<and> parked_view api e2 ''to'' = Some [1] \<and>
      kv_files (store e2) ''to'' = kv_files (store e2) ''from''"
  by code_simp

end
