(* ===== verification/Utf8_Stream.thy ===== *)
theory Utf8_Stream
  imports Prelude
begin

text \<open>
  \<open>src/server/llm/utf8_stream.hpp\<close>: the buffer between the detokenizer and the client. A
  token may end in the middle of a code point, so \<open>StreamBuffer::process\<close> releases only the
  longest prefix that ends on a complete code point and keeps the rest. The code looks at lead
  bytes only, so its notion of a complete code point is \<open>utf8_text\<close> below: a lead byte
  followed by as many continuation bytes as the lead byte announces. Well-formed UTF-8 is an
  instance of it.
\<close>

section \<open>Model\<close>

definition is_cont :: "char \<Rightarrow> bool" where
  "is_cont c \<longleftrightarrow> byte_of c AND 0xC0 = 0x80"

definition lead_expected :: "char \<Rightarrow> nat" where
  "lead_expected c =
     (if byte_of c AND 0xF8 = 0xF0 then 4
      else if byte_of c AND 0xF0 = 0xE0 then 3
      else if byte_of c AND 0xE0 = 0xC0 then 2
      else 1)"

text \<open>
  The loop \<open>for (i = 1; i <= max_lookback; ++i)\<close>. The argument \<open>left\<close> counts the
  iterations that remain, so \<open>i = Suc max_lookback - left\<close>.
\<close>

fun lookback :: "string \<Rightarrow> nat \<Rightarrow> nat \<Rightarrow> nat" where
  "lookback s i 0 = 0"
| "lookback s i (Suc left) =
     (let c = s ! (length s - i)
      in if \<not> is_cont c
         then (if i < lead_expected c then length s - i else length s)
         else lookback s (Suc i) left)"

definition get_complete_utf8_prefix_len :: "string \<Rightarrow> nat" where
  "get_complete_utf8_prefix_len s =
     (if s = [] then 0 else lookback s 1 (min 4 (length s)))"

definition stream_process :: "string \<Rightarrow> string \<Rightarrow> string \<times> string" where
  "stream_process buf piece =
     (let buf = buf @ piece; valid_len = get_complete_utf8_prefix_len buf
      in if valid_len = 0 then ([], buf) else (take valid_len buf, drop valid_len buf))"

definition stream_flush :: "string \<Rightarrow> string \<times> string" where
  "stream_flush buf =
     (if buf = [] then ([], buf)
      else let valid_len = get_complete_utf8_prefix_len buf
           in (if 0 < valid_len then take valid_len buf else [], []))"

definition stream_reset :: "string \<Rightarrow> string" where
  "stream_reset buf = []"

section \<open>Specification of complete text\<close>

definition code_point :: "string \<Rightarrow> bool" where
  "code_point p \<longleftrightarrow> p \<noteq> [] \<and> \<not> is_cont (hd p) \<and> (\<forall>c \<in> set (tl p). is_cont c) \<and>
     length p = lead_expected (hd p)"

inductive utf8_text :: "string \<Rightarrow> bool" where
  utf8_nil: "utf8_text []"
| utf8_cp: "code_point p \<Longrightarrow> utf8_text s \<Longrightarrow> utf8_text (p @ s)"

text \<open>A proper, non-empty start of a code point: what the buffer holds between two tokens.\<close>

definition partial_point :: "string \<Rightarrow> bool" where
  "partial_point p \<longleftrightarrow> p \<noteq> [] \<and> \<not> is_cont (hd p) \<and> (\<forall>c \<in> set (tl p). is_cont c) \<and>
     length p < lead_expected (hd p)"

lemma lead_expected_bounds: "1 \<le> lead_expected c" "lead_expected c \<le> 4"
  by (auto simp: lead_expected_def)

lemma utf8_text_append: "utf8_text s \<Longrightarrow> utf8_text t \<Longrightarrow> utf8_text (s @ t)"
proof (induction rule: utf8_text.induct)
  case (utf8_cp p s)
  then show ?case using utf8_text.utf8_cp [of p "s @ t"] by simp
qed simp

lemma code_point_text: "code_point p \<Longrightarrow> utf8_text p"
  using utf8_cp [OF _ utf8_nil] by fastforce

text \<open>The last code point of a non-empty complete text.\<close>

lemma utf8_text_snoc:
  assumes "utf8_text s" and "s \<noteq> []"
  obtains t p where "s = t @ p" and "utf8_text t" and "code_point p"
  using assms
proof (induction arbitrary: thesis rule: utf8_text.induct)
  case utf8_nil
  then show ?case by simp
next
  case (utf8_cp p s)
  show ?case
  proof (cases "s = []")
    case True
    with utf8_cp.hyps(1) show ?thesis
      by (intro utf8_cp.prems(1) [of "[]" p]) (auto intro: utf8_text.intros)
  next
    case False
    then obtain t q where "s = t @ q" "utf8_text t" "code_point q"
      using utf8_cp.IH by blast
    then show ?thesis
      using utf8_cp.hyps(1) by (intro utf8_cp.prems(1) [of "p @ t" q]) (auto intro: utf8_text.intros)
  qed
qed

text \<open>A text starts with one code point only: the lead byte fixes its length.\<close>

lemma utf8_text_drop_point:
  assumes "utf8_text (p @ s)" and "code_point p"
  shows "utf8_text s"
  using assms(1)
proof (cases rule: utf8_text.cases)
  case utf8_nil
  with assms(2) show ?thesis by (simp add: code_point_def)
next
  case (utf8_cp q u)
  from assms(2) utf8_cp(2) have ne: "p \<noteq> []" "q \<noteq> []" by (auto simp: code_point_def)
  with utf8_cp(1) have "hd p = hd q" by (metis hd_append2)
  with assms(2) utf8_cp(2) have "length p = length q" by (simp add: code_point_def)
  with utf8_cp(1) have "s = u" by simp
  with utf8_cp(3) show ?thesis by simp
qed

lemma utf8_text_cancel: "utf8_text t \<Longrightarrow> utf8_text (t @ s) \<Longrightarrow> utf8_text s"
proof (induction rule: utf8_text.induct)
  case (utf8_cp p t)
  then show ?case using utf8_text_drop_point [of p "t @ s"] by simp
qed simp

section \<open>The lookback loop\<close>

text \<open>
  Scanning back over the continuation bytes of the last group finds its lead byte.
\<close>

lemma lookback_group:
  assumes "\<not> is_cont c" and "\<forall>d \<in> set cs. is_cont d"
    and "1 \<le> i" and "i \<le> Suc (length cs)" and "Suc (length cs) < i + left"
  shows "lookback (t @ c # cs) i left =
           (if Suc (length cs) < lead_expected c then length t else length (t @ c # cs))"
  using assms(3-5)
proof (induction left arbitrary: i)
  case 0
  then show ?case by simp
next
  case (Suc left)
  let ?s = "t @ c # cs"
  show ?case
  proof (cases "i = Suc (length cs)")
    case True
    then have "?s ! (length ?s - i) = c" by simp
    with assms(1) True show ?thesis by (simp add: Let_def)
  next
    case False
    with Suc.prems have lt: "i < Suc (length cs)" by simp
    then have "length ?s - i = length t + Suc (length cs - i)" using Suc.prems(1) by simp
    then have "?s ! (length ?s - i) = cs ! (length cs - i)"
      by (simp only: nth_append_length_plus nth_Cons_Suc)
    moreover have "cs ! (length cs - i) \<in> set cs"
      using Suc.prems(1) lt by (intro nth_mem) simp
    ultimately have "is_cont (?s ! (length ?s - i))" using assms(2) by simp
    with Suc.IH [of "Suc i"] Suc.prems lt show ?thesis by (simp add: Let_def)
  qed
qed

lemma complete_len_group:
  assumes "\<not> is_cont c" and "\<forall>d \<in> set cs. is_cont d" and "Suc (length cs) \<le> 4"
  shows "get_complete_utf8_prefix_len (t @ c # cs) =
           (if Suc (length cs) < lead_expected c then length t else length (t @ c # cs))"
proof -
  have "Suc (length cs) < 1 + min 4 (length (t @ c # cs))" using assms(3) by simp
  from lookback_group [OF assms(1,2) _ _ this] show ?thesis
    by (simp add: get_complete_utf8_prefix_len_def)
qed

lemma complete_len_code_point:
  assumes "code_point p"
  shows "get_complete_utf8_prefix_len (t @ p) = length (t @ p)"
proof -
  from assms obtain c cs where p: "p = c # cs" by (cases p) (auto simp: code_point_def)
  with assms have "\<not> is_cont c" "\<forall>d \<in> set cs. is_cont d" "Suc (length cs) = lead_expected c"
    by (auto simp: code_point_def)
  with complete_len_group [of c cs t] lead_expected_bounds(2) [of c] show ?thesis
    by (simp add: p)
qed

lemma complete_len_text: "utf8_text s \<Longrightarrow> get_complete_utf8_prefix_len s = length s"
proof (cases "s = []")
  case True
  then show ?thesis by (simp add: get_complete_utf8_prefix_len_def)
next
  case False
  assume "utf8_text s"
  from this False obtain t p where "s = t @ p" "code_point p" by (rule utf8_text_snoc)
  then show ?thesis by (simp add: complete_len_code_point)
qed

lemma complete_len_partial:
  assumes "partial_point p"
  shows "get_complete_utf8_prefix_len (t @ p) = length t"
proof -
  from assms obtain c cs where p: "p = c # cs" by (cases p) (auto simp: partial_point_def)
  with assms have "\<not> is_cont c" "\<forall>d \<in> set cs. is_cont d" "Suc (length cs) < lead_expected c"
    by (auto simp: partial_point_def)
  with complete_len_group [of c cs t] lead_expected_bounds(2) [of c] show ?thesis
    by (simp add: p)
qed

lemma lookback_numeral [simp]:
  "lookback s i (numeral k) =
     (let c = s ! (length s - i)
      in if \<not> is_cont c
         then (if i < lead_expected c then length s - i else length s)
         else lookback s (Suc i) (pred_numeral k))"
  by (simp add: numeral_eq_Suc)

lemma lookback_le: "lookback s i left \<le> length s"
  by (induction s i left rule: lookback.induct) (auto simp: Let_def)

lemma complete_len_le: "get_complete_utf8_prefix_len s \<le> length s"
  by (simp add: get_complete_utf8_prefix_len_def lookback_le)

section \<open>Every prefix of a complete text is complete text and at most one partial code point\<close>

definition splits_text :: "string \<Rightarrow> string \<Rightarrow> string \<Rightarrow> bool" where
  "splits_text s t p \<longleftrightarrow> s = t @ p \<and> utf8_text t \<and> (p = [] \<or> partial_point p)"

lemma prefix_of_text_splits:
  assumes "utf8_text (s @ r)"
  shows "\<exists>t p. splits_text s t p"
  using assms
proof (induction "s @ r" arbitrary: s rule: utf8_text.induct)
  case utf8_nil
  then show ?case by (auto simp: splits_text_def intro!: exI [of _ "[]"] utf8_text.intros)
next
  case (utf8_cp p u)
  show ?case
  proof (cases "length p \<le> length s")
    case True
    with utf8_cp.hyps(4) obtain s' where s': "s = p @ s'" "u = s' @ r"
      by (metis append_eq_append_conv_if append_eq_conv_conj append_take_drop_id)
    with utf8_cp.hyps(3) obtain t q where "splits_text s' t q" by blast
    then have "splits_text s (p @ t) q"
      using utf8_cp.hyps(1) s' by (auto simp: splits_text_def intro: utf8_text.intros)
    then show ?thesis by blast
  next
    case False
    then have lt: "length s < length p" by simp
    with utf8_cp.hyps(4) obtain w where w: "p = s @ w"
      by (metis append_eq_append_conv2 append_Nil2 length_append not_add_less1 linorder_not_less)
    have "s = [] \<or> partial_point s"
      using utf8_cp.hyps(1) lt w by (cases s) (auto simp: code_point_def partial_point_def)
    then have "splits_text s [] s" by (auto simp: splits_text_def intro: utf8_text.intros)
    then show ?thesis by blast
  qed
qed

lemma splits_complete_len: "splits_text s t p \<Longrightarrow> get_complete_utf8_prefix_len s = length t"
  by (auto simp: splits_text_def complete_len_text complete_len_partial)

text \<open>One step on a buffer that is a prefix of complete text.\<close>

lemma stream_process_splits:
  assumes "splits_text (buf @ piece) t p"
  shows "stream_process buf piece = (t, p)"
  using assms splits_complete_len [OF assms]
  by (auto simp: stream_process_def splits_text_def Let_def)

lemma stream_process_conserves:
  "stream_process buf piece = (out, buf') \<Longrightarrow> out @ buf' = buf @ piece"
  by (auto simp: stream_process_def Let_def simp del: take_append drop_append split: if_splits)

interpretation utf8: conserving_stream stream_process "\<lambda>buf. buf"
  by unfold_locales (rule stream_process_conserves)

section \<open>A whole run\<close>

lemma run_utf8_text:
  assumes "utf8_text (buf @ concat pieces @ r)"
    and "run_stream stream_process buf pieces = (outs, buf')"
  shows "(\<forall>out \<in> set outs. utf8_text out) \<and> (pieces \<noteq> [] \<longrightarrow> buf' = [] \<or> partial_point buf')"
  using assms
proof (induction pieces arbitrary: buf outs)
  case Nil
  then show ?case by simp
next
  case (Cons piece pieces)
  from Cons.prems(1) have "utf8_text ((buf @ piece) @ concat pieces @ r)" by simp
  from prefix_of_text_splits [OF this] obtain t p where sp: "splits_text (buf @ piece) t p" by blast
  obtain os b where rn: "run_stream stream_process p pieces = (os, b)" by fastforce
  from Cons.prems(2) rn have eq: "outs = t # os" "buf' = b"
    by (auto simp: stream_process_splits [OF sp])
  from sp have t: "utf8_text t" and bp: "buf @ piece = t @ p" and p: "p = [] \<or> partial_point p"
    by (auto simp: splits_text_def)
  have rest: "utf8_text (p @ concat pieces @ r)"
  proof -
    have "utf8_text (t @ p @ concat pieces @ r)" using Cons.prems(1) bp
      by (simp add: append_assoc [symmetric] del: append_assoc)
    with t show ?thesis by (rule utf8_text_cancel)
  qed
  from Cons.IH [OF rest rn [folded eq(2)]] t p rn eq show ?case by (cases pieces) auto
qed

lemma partial_not_text: "partial_point p \<Longrightarrow> \<not> utf8_text p"
proof
  assume p: "partial_point p" "utf8_text p"
  then have "length p = 0"
    using complete_len_partial [of p "[]"] complete_len_text [of p] by simp
  with p(1) show False by (simp add: partial_point_def)
qed

text \<open>
  C7. When the detokenizer's output is complete UTF-8 text, then however it is cut into pieces,
  every string \<open>process\<close> hands to the client is complete text (no code point is ever split),
  the strings concatenate to exactly the detokenizer's output, and \<open>flush\<close> finds nothing
  left over.
\<close>

theorem utf8_stream_delivers:
  assumes "utf8_text (concat pieces)"
    and "run_stream stream_process [] pieces = (outs, buf)"
    and "stream_flush buf = (rest, buf')"
  shows "(\<forall>out \<in> set outs. utf8_text out) \<and> concat outs = concat pieces \<and> rest = [] \<and> buf' = []"
proof -
  have texts: "\<forall>out \<in> set outs. utf8_text out"
    and partial: "pieces \<noteq> [] \<longrightarrow> buf = [] \<or> partial_point buf"
    using run_utf8_text [of "[]" pieces "[]" outs buf] assms(1,2) by simp_all
  have all: "concat outs @ buf = concat pieces"
    using utf8.run_conserves [OF assms(2)] by simp
  from texts have "utf8_text (concat outs)"
    by (induction outs) (auto intro: utf8_text.intros utf8_text_append)
  with all assms(1) have "utf8_text buf" by (metis utf8_text_cancel)
  with partial assms(2) have "buf = []" by (cases pieces) (auto dest: partial_not_text)
  with texts all assms(3) show ?thesis by (simp add: stream_flush_def)
qed

text \<open>The three bytes of the euro sign, cut inside the sign.\<close>

theorem utf8_stream_delivers_witness:
  "let euro = [CHR 0xE2, CHR 0x82, CHR 0xAC]; pieces = [ [CHR 0xE2, CHR 0x82], [CHR 0xAC, CHR 0x41]];
       (outs, buf) = run_stream stream_process [] pieces
   in utf8_text (concat pieces) \<and> outs = [[], euro @ ''A''] \<and> concat outs = concat pieces \<and> buf = []"
proof -
  let ?ps = "[ [CHR 0xE2, CHR 0x82], [CHR 0xAC, CHR 0x41]]"
  have cps: "code_point [CHR 0xE2, CHR 0x82, CHR 0xAC]" "code_point [CHR 0x41]"
    by (simp_all add: code_point_def is_cont_def lead_expected_def)
  have complete: "utf8_text (concat ?ps)"
    using utf8_cp [OF cps(1) utf8_cp [OF cps(2) utf8_nil]] by simp
  have run: "run_stream stream_process [] ?ps =
      ([ [], [CHR 0xE2, CHR 0x82, CHR 0xAC, CHR 0x41]], [])"
    by (simp add: stream_process_def get_complete_utf8_prefix_len_def is_cont_def
        lead_expected_def Let_def)
  have flush: "stream_flush [] = ([], [])" by (simp add: stream_flush_def)
  from utf8_stream_delivers [OF complete run flush] complete run show ?thesis by simp
qed

lemma lookback_conts:
  "\<forall>k < left. is_cont (s ! (length s - (i + k))) \<Longrightarrow> lookback s i left = 0"
proof (induction left arbitrary: i)
  case (Suc left)
  have "is_cont (s ! (length s - i))" using Suc.prems by force
  moreover have "\<forall>k < left. is_cont (s ! (length s - (Suc i + k)))"
    using Suc.prems by (metis Suc_less_eq add_Suc_shift)
  ultimately show ?case using Suc.IH by (simp add: Let_def)
qed simp

text \<open>
  The header comment promises the longest prefix that ends on a complete code point. After
  four or more continuation bytes the function answers 0 whatever stands before them, even complete
  text: it looks back four bytes and no further.
\<close>

theorem stray_continuations_hide_text:
  assumes "\<forall>c \<in> set cs. is_cont c" and "4 \<le> length cs"
  shows "get_complete_utf8_prefix_len (s @ cs) = 0"
proof -
  have "is_cont ((s @ cs) ! (length (s @ cs) - (1 + k)))" if "k < 4" for k
  proof -
    have "length (s @ cs) - (1 + k) = length s + (length cs - (1 + k))" using that assms(2) by simp
    then have "(s @ cs) ! (length (s @ cs) - (1 + k)) = cs ! (length cs - (1 + k))"
      by (simp only: nth_append_length_plus)
    moreover have "cs ! (length cs - (1 + k)) \<in> set cs" using that assms(2) by (intro nth_mem) simp
    ultimately show ?thesis using assms(1) by simp
  qed
  then have "lookback (s @ cs) 1 4 = 0" by (intro lookback_conts) blast
  with assms(2) show ?thesis by (auto simp: get_complete_utf8_prefix_len_def min_def)
qed

theorem stray_continuations_hide_text_witness:
  "get_complete_utf8_prefix_len (''A'' @ [CHR 0x80, CHR 0x80, CHR 0x80, CHR 0x80]) = 0 \<and> utf8_text ''A''"
proof -
  have "code_point ''A''" by (simp add: code_point_def is_cont_def lead_expected_def)
  then have "utf8_text ''A''" by (rule code_point_text)
  moreover have "get_complete_utf8_prefix_len (''A'' @ [CHR 0x80, CHR 0x80, CHR 0x80, CHR 0x80]) = 0"
    by (rule stray_continuations_hide_text) (simp_all add: is_cont_def)
  ultimately show ?thesis by blast
qed

end
