(* ===== verification/Llm_Generate.thy ===== *)
theory Llm_Generate
  imports Llm_Budget Utf8_Stream
begin

text \<open>
  \<open>src/server/llm/llm_engine.cpp\<close>, the turns: tokenizing a prompt, reusing the longest
  matching prefix of the live sequence, decoding the rest in batches, sampling until the model
  stops, and rolling the cache back when a turn fails or is aborted.

  A request's callbacks run against a client state \<open>'q\<close>, so that a stop request or a refused
  piece may come at any moment the client chooses. Exceptions are values: \<open>Llama_abort\<close> is the
  internal one that \<open>generate_tokens\<close> turns into a partial answer.
\<close>

section \<open>Requests and errors\<close>

datatype llama_error =
    Llama_abort
  | Runtime_error string
  | Context_full string
  | Model_init_error string

record 'q llama_request =
  token_cb :: "('q \<Rightarrow> string \<Rightarrow> bool \<times> 'q) option"
  should_stop :: "('q \<Rightarrow> bool \<times> 'q) option"
  temp_override :: rat
  req_max_tokens :: int
  req_session_id :: string
  on_prompt :: "('q \<Rightarrow> 'q) option"

definition poll_stop :: "('q, 'z) llama_request_scheme \<Rightarrow> 'q \<Rightarrow> bool \<times> 'q" where
  "poll_stop req q = (case should_stop req of None \<Rightarrow> (False, q) | Some f \<Rightarrow> f q)"

definition effective_max_tokens :: "llama_config \<Rightarrow> ('q, 'z) llama_request_scheme \<Rightarrow> int" where
  "effective_max_tokens cfg req =
     (if 0 \<le> req_max_tokens req then req_max_tokens req else cfg_max_tokens cfg)"

section \<open>Sampler and tokenizer\<close>

definition sampler_stages :: "llama_config \<Rightarrow> bool \<Rightarrow> int \<Rightarrow> rat \<Rightarrow> sampler_stage list" where
  "sampler_stages cfg vocab n_vocab temperature =
     (if (cfg_repetition_penalty cfg \<noteq> 1 \<or> cfg_presence_penalty cfg \<noteq> 0 \<or>
          cfg_frequency_penalty cfg \<noteq> 0) \<and> vocab
      then [Stage_penalties (cfg_penalty_last_n cfg) (cfg_repetition_penalty cfg)
              (cfg_frequency_penalty cfg) (cfg_presence_penalty cfg)] else []) @
     (if 0 < cfg_top_k cfg then [Stage_top_k (cfg_top_k cfg)] else []) @
     (if cfg_top_p cfg < 1 then [Stage_top_p (cfg_top_p cfg)] else []) @
     (if 0 < cfg_min_p cfg then [Stage_min_p (cfg_min_p cfg)] else []) @
     [Stage_temp temperature, Stage_dist (cfg_seed cfg)]"

definition rebuild_sampler :: "('c, 's, 'z) llama_api_scheme \<Rightarrow> ('c, 's) engine \<Rightarrow> rat \<Rightarrow>
    llama_error + ('c, 's) engine" where
  "rebuild_sampler api e temperature =
     (case sampler_chain api (sampler_stages (config e) (vocab_ready e) (vocab_n_tokens api) temperature) of
        None \<Rightarrow> Inl (Model_init_error ''failed to create sampler chain'')
      | Some chain \<Rightarrow> Inr (e\<lparr> smpl := Some chain \<rparr>))"

definition tokenize_prompt :: "('c, 's, 'z) llama_api_scheme \<Rightarrow> string \<Rightarrow> llama_error + token list" where
  "tokenize_prompt api text_in =
     (let (probe, _) = llama_tokenize api text_in 0
      in if probe = 0 then Inr []
         else let need = (if probe < 0 then - probe else probe);
                  (got, out) = llama_tokenize api text_in (nat need)
              in if got < 0 then Inl (Runtime_error ''failed to tokenize prompt'')
                 else Inr (take (nat got) out))"

definition detokenize :: "('c, 's, 'z) llama_api_scheme \<Rightarrow> token \<Rightarrow> llama_error + string" where
  "detokenize api t =
     (let (n, buf) = token_to_piece api t 256
      in if 0 \<le> n then Inr (take (nat n) buf)
         else let (n, piece) = token_to_piece api t (nat (- n))
              in if n < 0 then Inl (Runtime_error ''failed to detokenize'')
                 else Inr (take (nat n) piece))"

section \<open>Decoding the prompt\<close>

text \<open>The loop of \<open>decode_tokens\<close>; the argument \<open>tokens\<close> is the span from \<open>offset\<close> on.\<close>

function decode_tokens :: "('c, 's, 'z) llama_api_scheme \<Rightarrow> ('q, 'y) llama_request_scheme \<Rightarrow>
    token list \<Rightarrow> 'c \<Rightarrow> token list \<Rightarrow> 'q \<Rightarrow> llama_error option \<times> 'c \<times> token list \<times> 'q" where
  "decode_tokens api req tokens c active q =
     (if tokens = [] then (None, c, active, q)
      else let (stop, q) = poll_stop req q
           in if stop then (Some Llama_abort, c, active, q)
              else let n_eval = min (max 1 (batch_size api)) (length tokens)
                   in if ctx_size api < length active + n_eval
                      then (Some (Context_full ''context size reached limit''), c, active, q)
                      else let (ret, c) = llama_decode api c (take n_eval tokens)
                           in if ret \<noteq> 0
                              then (Some (Runtime_error ''failed to decode prompt batch''), c, active, q)
                              else decode_tokens api req (drop n_eval tokens) c
                                     (active @ take n_eval tokens) q)"
  by pat_completeness auto
termination
  by (relation "measure (\<lambda>(api, req, tokens, c, active, q). length tokens)") auto

declare decode_tokens.simps [simp del]

section \<open>Sampling\<close>

record ('c, 's, 'q) gen_state =
  g_ctx :: 'c
  g_active :: "token list"
  g_smpl :: 's
  g_client :: 'q
  g_buf :: string
  g_response :: string
  g_count :: nat

text \<open>A piece goes through the UTF-8 buffer only when the request has a token callback.\<close>

definition deliver :: "('q, 'y) llama_request_scheme \<Rightarrow> ('c, 's, 'q) gen_state \<Rightarrow> string \<Rightarrow>
    bool \<times> ('c, 's, 'q) gen_state" where
  "deliver req g piece =
     (case token_cb req of
        None \<Rightarrow> (True, g)
      | Some cb \<Rightarrow>
          (let (ready, buf) = stream_process (g_buf g) piece;
               g = g\<lparr> g_buf := buf \<rparr>
           in if ready = [] then (True, g)
              else let (go, q) = cb (g_client g) ready in (go, g\<lparr> g_client := q \<rparr>)))"

text \<open>
  One iteration of the sampling loop: \<open>Inl\<close> leaves the loop, with the exception if there was
  one, \<open>Inr\<close> goes on.
\<close>

definition sample_step :: "('c, 's, 'z) llama_api_scheme \<Rightarrow> ('q, 'y) llama_request_scheme \<Rightarrow> int \<Rightarrow>
    ('c, 's, 'q) gen_state \<Rightarrow>
    (llama_error option \<times> ('c, 's, 'q) gen_state) + ('c, 's, 'q) gen_state" where
  "sample_step api req max_new g =
     (if \<not> (max_new < 0 \<or> int (g_count g) < max_new) then Inl (None, g)
      else let (stop, q) = poll_stop req (g_client g); g = g\<lparr> g_client := q \<rparr>
           in if stop then Inl (Some Llama_abort, g)
              else if ctx_size api \<le> length (g_active g)
              then Inl (Some (Context_full ''context size reached limit''), g)
              else let (t, smpl') = sampler_sample api (g_smpl g) (g_ctx g); g = g\<lparr> g_smpl := smpl' \<rparr>
                   in if vocab_is_eog api t then Inl (None, g)
                      else case detokenize api t of
                             Inl err \<Rightarrow> Inl (Some err, g)
                           | Inr piece \<Rightarrow>
                               (let g = g\<lparr> g_response := g_response g @ piece \<rparr>;
                                    (go, g) = deliver req g piece
                                in if \<not> go then Inl (Some Llama_abort, g)
                                   else let (ret, c) = llama_decode api (g_ctx g) [t];
                                            g = g\<lparr> g_ctx := c \<rparr>
                                        in if ret \<noteq> 0
                                           then Inl (Some (Runtime_error ''failed to decode generation batch''), g)
                                           else Inr (g\<lparr> g_active := g_active g @ [t],
                                                        g_count := Suc (g_count g) \<rparr>)))"

lemma deliver_keeps:
  "deliver req g piece = (go, g') \<Longrightarrow> g_ctx g' = g_ctx g \<and> g_active g' = g_active g \<and>
     g_count g' = g_count g \<and> g_response g' = g_response g \<and> g_smpl g' = g_smpl g"
  by (auto simp: deliver_def Let_def split: option.splits prod.splits if_splits)

lemma sample_step_continues:
  assumes "sample_step api req max_new g = Inr g'"
  shows "\<exists>t piece. \<not> vocab_is_eog api t \<and> detokenize api t = Inr piece \<and>
    llama_decode api (g_ctx g) [t] = (0, g_ctx g') \<and> g_active g' = g_active g @ [t] \<and>
    g_response g' = g_response g @ piece \<and> g_count g' = Suc (g_count g) \<and>
    length (g_active g) < ctx_size api \<and> (max_new < 0 \<or> int (g_count g) < max_new)"
  using assms
  by (auto simp: sample_step_def Let_def split: if_splits prod.splits sum.splits dest!: deliver_keeps)

function sample_loop :: "('c, 's, 'z) llama_api_scheme \<Rightarrow> ('q, 'y) llama_request_scheme \<Rightarrow> int \<Rightarrow>
    ('c, 's, 'q) gen_state \<Rightarrow> llama_error option \<times> ('c, 's, 'q) gen_state" where
  "sample_loop api req max_new g =
     (case sample_step api req max_new g of Inl r \<Rightarrow> r | Inr g' \<Rightarrow> sample_loop api req max_new g')"
  by pat_completeness auto
termination
  by (relation "measure (\<lambda>(api, req, max_new, g). ctx_size api - length (g_active g))")
    (auto dest!: sample_step_continues)

declare sample_loop.simps [simp del]

section \<open>A turn\<close>

definition uninitialised :: "('c, 's) engine \<Rightarrow> bool" where
  "uninitialised e \<longleftrightarrow> ctx e = None \<or> \<not> vocab_ready e \<or> smpl e = None"

definition not_initialised :: llama_error where
  "not_initialised = Runtime_error ''LlamaEngine is not initialized''"

text \<open>
  The body of the \<open>try\<close> block: decode, announce, sample, flush. \<open>None\<close> is a turn that finished.
\<close>

definition generate_body :: "('c, 's, 'z) llama_api_scheme \<Rightarrow> ('q, 'y) llama_request_scheme \<Rightarrow>
    ('c, 's) engine \<Rightarrow> 'c \<Rightarrow> 's \<Rightarrow> 'q \<Rightarrow> token list \<Rightarrow> nat list \<Rightarrow>
    llama_error option \<times> string \<times> ('c, 's) engine \<times> 'q" where
  "generate_body api req e c chain q rest ends =
     (case decode_tokens api req rest c (active_tokens e) q of
        (Some err, c, active, q) \<Rightarrow> (Some err, [], e\<lparr> ctx := Some c, active_tokens := active \<rparr>, q)
      | (None, c, active, q) \<Rightarrow>
          (let q = (case on_prompt req of None \<Rightarrow> q | Some f \<Rightarrow> f q);
               (err, g) = sample_loop api req (effective_max_tokens (config e) req)
                 \<lparr> g_ctx = c, g_active = active, g_smpl = chain, g_client = q, g_buf = [],
                   g_response = [], g_count = 0 \<rparr>;
               e = e\<lparr> ctx := Some (g_ctx g), active_tokens := g_active g, smpl := Some (g_smpl g) \<rparr>;
               q = g_client g
           in case err of
                Some x \<Rightarrow> (Some x, g_response g, e, q)
              | None \<Rightarrow>
                  (let q = (case token_cb req of
                              None \<Rightarrow> q
                            | Some cb \<Rightarrow> (let (remaining, _) = stream_flush (g_buf g)
                                         in if remaining = [] then q else snd (cb q remaining)));
                       e = (if ends = [] then e else e\<lparr> message_ends := ends \<rparr>)
                   in (None, g_response g, e, q))))"

definition generate_tokens :: "('c, 's, 'z) llama_api_scheme \<Rightarrow> ('q, 'y) llama_request_scheme \<Rightarrow>
    ('c, 's) engine \<Rightarrow> 'q \<Rightarrow> token list \<Rightarrow> nat list \<Rightarrow>
    (llama_error + string) \<times> ('c, 's) engine \<times> 'q" where
  "generate_tokens api req e q prompt_tokens ends =
     (if uninitialised e then (Inl not_initialised, e, q)
      else let e = activate_session api e (req_session_id req);
               temperature = (if 0 \<le> temp_override req then temp_override req
                              else cfg_temperature (config e))
           in case rebuild_sampler api e temperature of
                Inl err \<Rightarrow> (Inl err, e, q)
              | Inr e \<Rightarrow>
                  if prompt_tokens = [] then (Inl (Runtime_error ''failed to tokenize prompt''), e, q)
                  else if ctx_size api \<le> length prompt_tokens
                  then (Inl (Context_full ''context size reached limit''), e, q)
                  else let checkpoint = checkpoint_from_offsets (active_tokens e) prompt_tokens (message_ends e);
                           (kept, e) = trim_kv_to api e checkpoint;
                           checkpoint = (if kept then checkpoint else 0)
                       in case (ctx e, smpl e) of
                            (Some c, Some chain) \<Rightarrow>
                              (case generate_body api req e c chain q (drop checkpoint prompt_tokens) ends of
                                 (None, response, e, q) \<Rightarrow> (Inr response, e, q)
                               | (Some err, response, e, q) \<Rightarrow>
                                   (let e = snd (trim_kv_to api e checkpoint)
                                    in (if err = Llama_abort then Inr response else Inl err, e, q)))
                          | _ \<Rightarrow> (Inl not_initialised, e, q))"

definition generate :: "('c, 's, 'z) llama_api_scheme \<Rightarrow> ('q, 'y) llama_request_scheme \<Rightarrow>
    ('c, 's) engine \<Rightarrow> 'q \<Rightarrow> string \<Rightarrow> (llama_error + string) \<times> ('c, 's) engine \<times> 'q" where
  "generate api req e q prompt =
     (if uninitialised e then (Inl not_initialised, e, q)
      else case tokenize_prompt api prompt of
             Inl err \<Rightarrow> (Inl err, e, q)
           | Inr tokens \<Rightarrow> generate_tokens api req e q tokens [])"

section \<open>What the loops establish\<close>

lemma decode_tokens_spec:
  assumes "kv_contract api cells"
  shows "decode_tokens api req tokens c active q = (err, c', active', q') \<Longrightarrow> cells c = active \<Longrightarrow>
     \<exists>k \<le> length tokens. active' = active @ take k tokens \<and> prefix active' (cells c') \<and>
       (err = None \<longrightarrow> k = length tokens \<and> cells c' = active')"
proof (induction "length tokens" arbitrary: tokens c active q rule: less_induct)
  case less
  have none: ?case if "active' = active" "prefix active (cells c')" "err = None \<longrightarrow> tokens = [] \<and> cells c' = active"
    using that by (intro exI [of _ 0]) auto
  show ?case
  proof (cases "tokens = []")
    case True
    with less.prems none show ?thesis by (simp add: decode_tokens.simps [of _ _ "[]"])
  next
    case False
    let ?n = "min (max 1 (batch_size api)) (length tokens)"
    obtain stop q1 where poll: "poll_stop req q = (stop, q1)" by fastforce
    obtain ret c1 where dec: "llama_decode api c (take ?n tokens) = (ret, c1)" by fastforce
    show ?thesis
    proof (cases "stop \<or> ctx_size api < length active + ?n \<or> ret \<noteq> 0")
      case True
      have "prefix active (cells c1)" using kv_decode_prefix [OF assms dec] less.prems(2) by simp
      with True False less.prems poll dec none show ?thesis
        by (auto simp: decode_tokens.simps [of _ _ tokens] Let_def split: if_splits)
    next
      case go: False
      with dec have c1: "cells c1 = active @ take ?n tokens"
        using kv_decode [OF assms, of c "take ?n tokens" c1] less.prems(2) by simp
      have run: "decode_tokens api req (drop ?n tokens) c1 (active @ take ?n tokens) q1 = (err, c', active', q')"
        using less.prems(1) False go poll dec by (simp add: decode_tokens.simps [of _ _ tokens] Let_def)
      have "length (drop ?n tokens) < length tokens" using False by (cases tokens) auto
      from less.hyps [OF this run c1] obtain k where k: "k \<le> length (drop ?n tokens)"
        "active' = (active @ take ?n tokens) @ take k (drop ?n tokens)" "prefix active' (cells c')"
        "err = None \<longrightarrow> k = length (drop ?n tokens) \<and> cells c' = active'" by blast
      have "active' = active @ take (?n + k) tokens" using k(2) by (simp add: take_add)
      with k show ?thesis by (intro exI [of _ "?n + k"]) auto
    qed
  qed
qed

definition piece_of :: "('c, 's, 'z) llama_api_scheme \<Rightarrow> token \<Rightarrow> string" where
  "piece_of api t = (case detokenize api t of Inl err \<Rightarrow> [] | Inr piece \<Rightarrow> piece)"

lemma sample_step_leaves:
  assumes "kv_contract api cells" and "sample_step api req max_new g = Inl (err, g')"
  shows "g_active g' = g_active g \<and> prefix (cells (g_ctx g)) (cells (g_ctx g')) \<and>
    (err = None \<longrightarrow> g_ctx g' = g_ctx g \<and> g_response g' = g_response g)"
  using assms(2) kv_decode_prefix [OF assms(1)]
  by (auto simp: sample_step_def Let_def split: if_splits prod.splits sum.splits dest!: deliver_keeps)

text \<open>A run of the loop generates a list of tokens, one per iteration that did not leave it.\<close>

definition generated :: "('c, 's, 'z) llama_api_scheme \<Rightarrow> int \<Rightarrow> ('c, 's, 'q) gen_state \<Rightarrow>
    ('c, 's, 'q) gen_state \<Rightarrow> token list \<Rightarrow> bool" where
  "generated api max_new g g' gen \<longleftrightarrow> g_active g' = g_active g @ gen \<and>
     (\<forall>t \<in> set gen. \<not> vocab_is_eog api t) \<and>
     (gen \<noteq> [] \<longrightarrow> length (g_active g') \<le> ctx_size api) \<and>
     (0 \<le> max_new \<and> int (g_count g) \<le> max_new \<longrightarrow> int (g_count g + length gen) \<le> max_new)"

lemma sample_loop_spec:
  assumes "kv_contract api cells"
  shows "sample_loop api req max_new g = (err, g') \<Longrightarrow> cells (g_ctx g) = g_active g \<Longrightarrow>
     \<exists>gen. generated api max_new g g' gen \<and> prefix (g_active g') (cells (g_ctx g')) \<and>
       (err = None \<longrightarrow> cells (g_ctx g') = g_active g' \<and>
          g_response g' = g_response g @ concat (map (piece_of api) gen))"
proof (induction "ctx_size api - length (g_active g)" arbitrary: g rule: less_induct)
  case less
  show ?case
  proof (cases "sample_step api req max_new g")
    case (Inl r)
    with less.prems(1) have "sample_step api req max_new g = Inl (err, g')"
      by (simp add: sample_loop.simps [of _ _ _ g])
    from sample_step_leaves [OF assms this] less.prems(2) show ?thesis
      by (intro exI [of _ "[]"]) (auto simp: generated_def)
  next
    case (Inr h)
    from sample_step_continues [OF Inr] obtain t piece where t: "\<not> vocab_is_eog api t"
      "detokenize api t = Inr piece" "llama_decode api (g_ctx g) [t] = (0, g_ctx h)"
      "g_active h = g_active g @ [t]" "g_response h = g_response g @ piece"
      "g_count h = Suc (g_count g)" "length (g_active g) < ctx_size api"
      "max_new < 0 \<or> int (g_count g) < max_new" by blast
    have run: "sample_loop api req max_new h = (err, g')"
      using less.prems(1) Inr by (simp add: sample_loop.simps [of _ _ _ g])
    have cells: "cells (g_ctx h) = g_active h"
      using kv_decode [OF assms t(3)] less.prems(2) t(4) by simp
    have "ctx_size api - length (g_active h) < ctx_size api - length (g_active g)"
      using t(4,7) by simp
    from less.hyps [OF this run cells] obtain gen where gen: "generated api max_new h g' gen"
      "prefix (g_active g') (cells (g_ctx g'))"
      "err = None \<longrightarrow> cells (g_ctx g') = g_active g' \<and>
         g_response g' = g_response h @ concat (map (piece_of api) gen)" by blast
    have "generated api max_new g g' (t # gen)"
      using gen(1) t by (auto simp: generated_def)
    with gen(2,3) t(2,5) show ?thesis by (intro exI [of _ "t # gen"]) (auto simp: piece_of_def)
  qed
qed

section \<open>What a turn establishes\<close>

text \<open>The tokens \<open>gen\<close> a finished turn appends to its prompt, and the text it answers.\<close>

definition answers :: "('c, 's, 'z) llama_api_scheme \<Rightarrow> int \<Rightarrow> token list \<Rightarrow> token list \<Rightarrow> token list \<Rightarrow>
    string \<Rightarrow> bool" where
  "answers api max_new live prompt gen response \<longleftrightarrow>
     live = prompt @ gen \<and> response = concat (map (piece_of api) gen) \<and>
     (\<forall>t \<in> set gen. \<not> vocab_is_eog api t) \<and> length live \<le> ctx_size api \<and>
     (0 \<le> max_new \<longrightarrow> int (length gen) \<le> max_new)"

lemma generate_body_spec:
  assumes "kv_contract api cells" and "cells c = active_tokens e"
    and "generate_body api req e c chain q rest ends = (err, response, e', q')"
    and "length (active_tokens e @ rest) < ctx_size api"
  shows "live_prefix cells e' \<and> memory e' = memory e \<and> store e' = store e \<and>
    active_session_id e' = active_session_id e \<and> config e' = config e \<and> prefix (active_tokens e) (active_tokens e') \<and>
    (err = None \<longrightarrow> live_ok cells e' \<and> (\<exists>gen. answers api (effective_max_tokens (config e) req)
       (active_tokens e') (active_tokens e @ rest) gen response))"
proof -
  obtain derr c1 active q1 where dec: "decode_tokens api req rest c (active_tokens e) q = (derr, c1, active, q1)"
    by (metis prod_cases4)
  from decode_tokens_spec [OF assms(1) dec assms(2)] obtain k where
    k: "active = active_tokens e @ take k rest" "prefix active (cells c1)"
    "derr = None \<longrightarrow> k = length rest \<and> cells c1 = active" by blast
  show ?thesis
  proof (cases derr)
    case (Some x)
    with assms(3) dec k(1,2) show ?thesis by (auto simp: generate_body_def live_prefix_def)
  next
    case None
    let ?q = "case on_prompt req of None \<Rightarrow> q1 | Some f \<Rightarrow> f q1"
    let ?max = "effective_max_tokens (config e) req"
    let ?g = "\<lparr> g_ctx = c1, g_active = active, g_smpl = chain, g_client = ?q, g_buf = [], g_response = [], g_count = 0 \<rparr>"
    obtain serr g where lp: "sample_loop api req ?max ?g = (serr, g)" by fastforce
    have "cells (g_ctx ?g) = g_active ?g" using None k(3) by simp
    from sample_loop_spec [OF assms(1) lp this] obtain gen where gen: "generated api ?max ?g g gen"
      "prefix (g_active g) (cells (g_ctx g))"
      "serr = None \<longrightarrow> cells (g_ctx g) = g_active g \<and> g_response g = concat (map (piece_of api) gen)"
      by auto
    have act: "g_active g = (active_tokens e @ rest) @ gen"
      using gen(1) k(1,3) None by (simp add: generated_def)
    have e': "memory e' = memory e" "store e' = store e" "active_session_id e' = active_session_id e"
      "config e' = config e" "ctx e' = Some (g_ctx g)" "active_tokens e' = g_active g" "err = serr"
      "err = None \<longrightarrow> response = g_response g"
      using assms(3) dec None lp by (auto simp: generate_body_def Let_def split: option.splits)
    have "err = None \<longrightarrow> answers api ?max (active_tokens e') (active_tokens e @ rest) gen response"
      using gen act e' assms(4) by (auto simp: answers_def generated_def)
    with e' gen(2,3) act show ?thesis by (auto simp: live_prefix_def live_ok_def)
  qed
qed

lemma rebuild_sampler_keeps:
  "rebuild_sampler api e temperature = Inr e' \<Longrightarrow>
     \<exists>chain. e' = e\<lparr> smpl := Some chain \<rparr>"
  by (auto simp: rebuild_sampler_def split: option.splits)

text \<open>
  The state a turn starts from, after activation, sampler and trim: the live sequence is the part
  of the prompt that is reused.
\<close>

lemma turn_start:
  assumes "contracts api cells ri fi" and "engine_ok cells ri fi e"
    and "trim_kv_to api e (checkpoint_from_offsets (active_tokens e) prompt ends) = (kept, e')"
  shows "engine_ok cells ri fi e'" "only_trims e e'"
    "active_tokens e' @ drop (if kept then checkpoint_from_offsets (active_tokens e) prompt ends else 0) prompt = prompt"
    "length (active_tokens e') = (if kept then checkpoint_from_offsets (active_tokens e) prompt ends else 0)"
proof -
  let ?n = "checkpoint_from_offsets (active_tokens e) prompt ends"
  have kc: "kv_contract api cells" using assms(1) by (simp add: contracts_def)
  have "live_prefix cells e" using assms(2) by (simp add: engine_ok_def live_ok_prefix)
  note t = trim_kv_to_effect [OF kc this assms(3)]
  show "only_trims e e'" by (rule t(1))
  with t(2) assms(2) show "engine_ok cells ri fi e'" by (simp add: engine_ok_def only_trims_parked)
  have n: "?n = common_prefix_length (active_tokens e) prompt" by (rule checkpoint_common)
  show "active_tokens e' @ drop (if kept then ?n else 0) prompt = prompt"
    using t(3) common_prefix_take [of "active_tokens e" prompt] by (simp add: n)
  show "length (active_tokens e') = (if kept then ?n else 0)"
    using t(3) common_prefix_le(1) [of "active_tokens e" prompt] by (simp add: n min_def)
qed

lemma no_abort_decode:
  "should_stop req = None \<Longrightarrow> decode_tokens api req tokens c active q = (Some Llama_abort, r) \<Longrightarrow> False"
proof (induction "length tokens" arbitrary: tokens c active q rule: less_induct)
  case less
  let ?n = "min (max 1 (batch_size api)) (length tokens)"
  have ne: "tokens \<noteq> []" using less.prems(2) by (auto simp: decode_tokens.simps [of _ _ "[]"])
  then have "length (drop ?n tokens) < length tokens" by (cases tokens) auto
  from less.hyps [OF this less.prems(1)] less.prems ne show False
    by (auto simp: decode_tokens.simps [of _ _ tokens] poll_stop_def Let_def split: if_splits prod.splits)
qed

lemma no_abort_sample:
  "should_stop req = None \<Longrightarrow> token_cb req = None \<Longrightarrow>
     sample_loop api req max_new g = (Some Llama_abort, g') \<Longrightarrow> False"
proof (induction "ctx_size api - length (g_active g)" arbitrary: g rule: less_induct)
  case less
  show False
  proof (cases "sample_step api req max_new g")
    case (Inl r)
    with less.prems show False
      by (auto simp: sample_loop.simps [of _ _ _ g] sample_step_def deliver_def poll_stop_def detokenize_def
          Let_def split: if_splits prod.splits sum.splits)
  next
    case (Inr h)
    then have "ctx_size api - length (g_active h) < ctx_size api - length (g_active g)"
      by (auto dest!: sample_step_continues)
    from less.hyps [OF this less.prems(1,2)] less.prems(3) Inr show False
      by (simp add: sample_loop.simps [of _ _ _ g])
  qed
qed

lemma no_abort_body:
  "should_stop req = None \<Longrightarrow> token_cb req = None \<Longrightarrow>
     generate_body api req e c chain q rest ends = (Some Llama_abort, r) \<Longrightarrow> False"
  by (auto simp: generate_body_def Let_def dest: no_abort_decode no_abort_sample
      split: prod.splits option.splits)

text \<open>How a turn ends.\<close>

definition turn_outcome :: "('c, 's, 'z) llama_api_scheme \<Rightarrow> ('q, 'y) llama_request_scheme \<Rightarrow>
    ('c, 's) engine \<Rightarrow> token list \<Rightarrow> (llama_error + string) \<Rightarrow> ('c, 's) engine \<Rightarrow> bool" where
  "turn_outcome api req e prompt result e' \<longleftrightarrow>
     (\<exists>gen response. result = Inr response \<and>
        answers api (effective_max_tokens (config e) req) (active_tokens e') prompt gen response) \<or>
     (prefix (active_tokens e') prompt \<and>
        ((\<exists>err. result = Inl err) \<or> should_stop req \<noteq> None \<or> token_cb req \<noteq> None)) \<or>
     (\<exists>err. result = Inl err \<and> (active_tokens e' = active_tokens e \<or>
        active_tokens e' = active_tokens (activate_session api e (req_session_id req))))"

lemma turn_after_trim:
  assumes "contracts api cells ri fi" and "engine_ok cells ri fi e"
    and "active_tokens e @ drop n prompt = prompt" and "length (active_tokens e) = n"
    and "length prompt < ctx_size api" and "ctx e = Some c"
    and "generate_body api req e c chain q (drop n prompt) ends = (err, response, f, q')"
    and "e' = (if err = None then f else snd (trim_kv_to api f n))"
  shows "engine_ok cells ri fi e' \<and>
    (err = None \<longrightarrow> (\<exists>gen. answers api (effective_max_tokens (config e) req) (active_tokens e') prompt gen response)) \<and>
    (err \<noteq> None \<longrightarrow> prefix (active_tokens e') prompt)"
proof -
  have kc: "kv_contract api cells" using assms(1) by (simp add: contracts_def)
  have cells: "cells c = active_tokens e" using assms(2,6) by (simp add: engine_ok_def live_ok_def)
  have "length (active_tokens e @ drop n prompt) < ctx_size api" using assms(3,5) by simp
  note body = generate_body_spec [OF kc cells assms(7) this]
  have parked: "parked_ok ri fi f" using body assms(2) by (simp add: engine_ok_def parked_ok_def)
  show ?thesis
  proof (cases err)
    case None
    with body assms(3,8) parked show ?thesis by (simp add: engine_ok_def)
  next
    case (Some x)
    have "live_prefix cells f" using body by blast
    note t = trim_kv_to_effect [OF kc this, of n "fst (trim_kv_to api f n)" "snd (trim_kv_to api f n)"]
    have e': "e' = snd (trim_kv_to api f n)" using Some assms(8) by simp
    have "take n (active_tokens f) = active_tokens e" using body assms(4) by (auto simp: prefix_def)
    moreover have "prefix (active_tokens e) prompt" using assms(3) by (metis prefixI)
    ultimately have "prefix (active_tokens e') prompt" using t(3) e' by simp
    with t(1,2) parked e' Some show ?thesis by (simp add: engine_ok_def only_trims_parked)
  qed
qed

lemma generate_tokens_outcome:
  assumes "contracts api cells ri fi" and "engine_ok cells ri fi e"
    and "generate_tokens api req e q prompt ends = (result, e', q')"
  shows "engine_ok cells ri fi e' \<and> turn_outcome api req e prompt result e'"
proof (cases "uninitialised e")
  case True
  with assms show ?thesis by (auto simp: generate_tokens_def turn_outcome_def)
next
  case init: False
  let ?a = "activate_session api e (req_session_id req)"
  let ?t = "if 0 \<le> temp_override req then temp_override req else cfg_temperature (config ?a)"
  from activate_effect [OF assms(1,2)] have a: "engine_ok cells ri fi ?a" "config ?a = config e" by auto
  show ?thesis
  proof (cases "rebuild_sampler api ?a ?t")
    case (Inl err)
    with init assms(3) a(1) show ?thesis by (auto simp: generate_tokens_def turn_outcome_def Let_def)
  next
    case (Inr b)
    from rebuild_sampler_keeps [OF Inr] obtain chain where b: "b = ?a\<lparr> smpl := Some chain \<rparr>" by blast
    have okb: "engine_ok cells ri fi b" using a(1) by (simp add: b engine_ok_def live_ok_def parked_ok_def)
    show ?thesis
    proof (cases "prompt = [] \<or> ctx_size api \<le> length prompt")
      case True
      with init assms(3) Inr okb b show ?thesis
        by (auto simp: generate_tokens_def turn_outcome_def Let_def split: if_splits)
    next
      case fits: False
      let ?n0 = "checkpoint_from_offsets (active_tokens b) prompt (message_ends b)"
      obtain kept d where tr: "trim_kv_to api b ?n0 = (kept, d)" by fastforce
      let ?n = "if kept then ?n0 else 0"
      note st = turn_start [OF assms(1) okb tr]
      have cb: "ctx ?a \<noteq> None" using activate_effect [OF assms(1,2), of "req_session_id req"] init
        by (simp add: uninitialised_def)
      then obtain c where c: "ctx d = Some c" "smpl d = Some chain"
        using st(2) b by (cases "ctx d") (auto simp: only_trims_def)
      obtain err response f q1 where body:
        "generate_body api req d c chain q (drop ?n prompt) ends = (err, response, f, q1)"
        by (metis prod_cases4)
      define g where "g = (if err = None then f else snd (trim_kv_to api f ?n))"
      have len: "length prompt < ctx_size api" using fits by simp
      note after = turn_after_trim [OF assms(1) st(1,3,4) len c(1) body g_def]
      have res: "e' = g" "result = (case err of None \<Rightarrow> Inr response
          | Some x \<Rightarrow> if x = Llama_abort then Inr response else Inl x)"
        using assms(3) init Inr fits tr c body
        by (auto simp: generate_tokens_def Let_def g_def split: option.splits if_splits)
      have cfg: "config d = config e" using st(2) a(2) b by (simp add: only_trims_def)
      have "err = Some Llama_abort \<Longrightarrow> should_stop req \<noteq> None \<or> token_cb req \<noteq> None"
        using no_abort_body [of req api d c chain q "drop ?n prompt" ends] body by metis
      with after res cfg show ?thesis
        by (cases err) (auto simp: turn_outcome_def)
    qed
  qed
qed

section \<open>Properties\<close>

text \<open>
  C1. A turn, however it ends, leaves the cells of the context equal to the tokens the engine
  believes in and keeps every parked session an image of its sequence. A finished turn leaves
  exactly the prompt followed by the generated tokens in the cache, at most as many as the context
  and the token limit allow and none of them an end-of-generation token, and answers the text of
  those tokens. An aborted or failed turn leaves a prefix of its prompt and nothing it generated.
  A turn that is refused before it starts leaves the sequence of the session it activated.
\<close>

theorem turn_keeps_cache_and_tokens_together:
  assumes "contracts api cells ri fi" and "engine_ok cells ri fi e"
    and "generate_tokens api req e q prompt ends = (result, e', q')"
  shows "engine_ok cells ri fi e' \<and> (\<forall>c. ctx e' = Some c \<longrightarrow> cells c = active_tokens e') \<and>
    turn_outcome api req e prompt result e'"
  using generate_tokens_outcome [OF assms] by (simp add: engine_ok_def live_ok_def)

definition plain_request :: "string \<Rightarrow> int \<Rightarrow> unit llama_request" where
  "plain_request sid max_new = \<lparr> token_cb = None, should_stop = None, temp_override = -1,
     req_max_tokens = max_new, req_session_id = sid, on_prompt = None \<rparr>"

theorem turn_keeps_cache_and_tokens_together_witness:
  "let api = scripted_cache [72, 105] 8 2 0; e = (demo_engine 100 ''a'' [1, 2, 9])\<lparr> smpl := Some [] \<rparr>;
       (result, e', q) = generate_tokens api (plain_request ''a'' 5) e () [1, 2, 3] []
   in result = Inr ''Hi'' \<and> active_tokens e' = [1, 2, 3, 72, 105] \<and> ctx e' = Some (active_tokens e')"
proof -
  let ?api = "scripted_cache [72, 105] 8 2 0"
  let ?e = "(demo_engine 100 ''a'' [1, 2, 9])\<lparr> smpl := Some [] \<rparr>"
  obtain result e' q where run: "generate_tokens ?api (plain_request ''a'' 5) ?e () [1, 2, 3] [] = (result, e', q)"
    by (metis prod_cases3)
  have ok: "engine_ok (\<lambda>c. c) (\<lambda>ts d. d = list_ram ts)
     (\<lambda>ts d. d = seq_header ?api ts @ bytes_of_tokens ts) ?e"
    using demo_engine_ok by (simp add: engine_ok_def live_ok_def parked_ok_def)
  have "fst (generate_tokens ?api (plain_request ''a'' 5) ?e () [1, 2, 3] []) = Inr ''Hi''"
    "active_tokens (fst (snd (generate_tokens ?api (plain_request ''a'' 5) ?e () [1, 2, 3] []))) = [1, 2, 3, 72, 105]"
    "ctx (fst (snd (generate_tokens ?api (plain_request ''a'' 5) ?e () [1, 2, 3] []))) \<noteq> None"
    by code_simp+
  with turn_keeps_cache_and_tokens_together [OF demo_contracts ok run] run show ?thesis by auto
qed

end
