(* ===== verification/Models.thy ===== *)
theory Models
  imports Prelude
begin

text \<open>
  \<open>src/api/models.hpp\<close>: the data the components exchange. JSON values come from nlohmann::json,
  which is not part of the repository, so they are a type parameter \<open>'j\<close>. \<open>job_state\<close> keeps
  the numbering of its enum, which also orders it.
\<close>

section \<open>Job states\<close>

datatype job_state = Unknown | Queued | Running | Done | Error | Cancelled

definition job_state_value :: "job_state \<Rightarrow> int" where
  "job_state_value s =
     (case s of Unknown \<Rightarrow> -1 | Queued \<Rightarrow> 0 | Running \<Rightarrow> 1 | Done \<Rightarrow> 2 | Error \<Rightarrow> 3 | Cancelled \<Rightarrow> 4)"

definition is_finished :: "job_state \<Rightarrow> bool" where
  "is_finished s \<longleftrightarrow> s = Done \<or> s = Error \<or> s = Cancelled"

definition job_state_to_string :: "job_state \<Rightarrow> string option" where
  "job_state_to_string s =
     (case s of Queued \<Rightarrow> Some ''queued'' | Running \<Rightarrow> Some ''running'' | Done \<Rightarrow> Some ''done''
      | Error \<Rightarrow> Some ''error'' | Cancelled \<Rightarrow> Some ''cancelled'' | Unknown \<Rightarrow> None)"

definition job_state_to_enum :: "string \<Rightarrow> job_state option" where
  "job_state_to_enum s =
     (if s = ''queued'' then Some Queued
      else if s = ''running'' then Some Running
      else if s = ''done'' then Some Done
      else if s = ''error'' then Some Error
      else if s = ''cancelled'' then Some Cancelled
      else None)"

instantiation job_state :: linorder
begin

definition less_eq_job_state :: "job_state \<Rightarrow> job_state \<Rightarrow> bool" where
  "less_eq_job_state s t \<longleftrightarrow> job_state_value s \<le> job_state_value t"

definition less_job_state :: "job_state \<Rightarrow> job_state \<Rightarrow> bool" where
  "less_job_state s t \<longleftrightarrow> job_state_value s < job_state_value t"

instance
proof
  fix s t u :: job_state
  show "s < t \<longleftrightarrow> s \<le> t \<and> \<not> t \<le> s" by (auto simp: less_job_state_def less_eq_job_state_def)
  show "s \<le> s" by (simp add: less_eq_job_state_def)
  show "s \<le> t \<Longrightarrow> t \<le> u \<Longrightarrow> s \<le> u" by (simp add: less_eq_job_state_def)
  show "s \<le> t \<Longrightarrow> t \<le> s \<Longrightarrow> s = t"
    by (cases s; cases t) (simp_all add: less_eq_job_state_def job_state_value_def)
  show "s \<le> t \<or> t \<le> s" by (auto simp: less_eq_job_state_def)
qed

end

text \<open>In the order of the enum the terminal states are the ones from \<open>Done\<close> on.\<close>

lemma is_finished_order: "is_finished s \<longleftrightarrow> Done \<le> s"
  by (cases s) (simp_all add: is_finished_def less_eq_job_state_def job_state_value_def)

lemma job_state_string_round_trip: "job_state_to_string s = Some t \<Longrightarrow> job_state_to_enum t = Some s"
  by (cases s) (auto simp: job_state_to_string_def job_state_to_enum_def)

section \<open>Messages\<close>

record 'j parsed_tool_call =
  tc_id :: string
  tc_name :: string
  tc_arguments :: 'j

record 'j chat_message =
  role :: string
  msg_content :: string
  reasoning_content :: string
  tool_call_id :: string
  tool_name :: string
  tool_calls :: "'j parsed_tool_call list"

definition role_user :: string where "role_user = ''user''"
definition role_system :: string where "role_system = ''system''"
definition role_assistant :: string where "role_assistant = ''assistant''"
definition role_tool :: string where "role_tool = ''tool''"

record chat_tool =
  tool_spec_name :: string
  tool_description :: string
  tool_parameters :: string

record parsed_question =
  q_text :: string
  q_answers :: "string list"

record 'j parsed_actions =
  pa_tool_calls :: "'j parsed_tool_call list"
  pa_question :: "parsed_question option"
  pa_reasoning :: string
  pa_visible_text :: string

definition no_actions :: "'j parsed_actions" where
  "no_actions = \<lparr> pa_tool_calls = [], pa_question = None, pa_reasoning = [],
     pa_visible_text = [] \<rparr>"

end
