(* ===== verification/Json_Api.thy ===== *)
theory Json_Api
  imports Complex_Main Prelude "HOL-Library.AList"
begin

text \<open>
  nlohmann::json, which the sources only call, as a record of the functions they use. A definition
  that reads or builds JSON takes it as an argument; \<open>'j\<close> is the type of JSON values.
  \<open>json_contract\<close> is what the library documents of them and what a proof may rely on. The
  second half instantiates the record with plain trees.
\<close>

section \<open>The functions in use\<close>

text \<open>
  \<open>j_parse\<close> answers the message of the exception or the value; the readers answer
  \<open>None\<close> where the type test of the library (\<open>is_string\<close>, \<open>is_object\<close>, \<dots>) is false.
  The members of an object come in the order in which the library iterates over them. A discarded
  value of the parser that does not throw is an \<open>Inl\<close> as well. \<open>j_zero\<close> is the number 0.0.
  \<open>j_as_int\<close> is what \<open>get<int>\<close> converts and \<open>j_as_long\<close> what \<open>get<int64_t>\<close> and \<open>get<uint64_t>\<close> convert:
  any number, before the conversion to the width; they throw (\<open>None\<close>) on other values.
\<close>

record 'j json_api =
  j_parse :: "string \<Rightarrow> string + 'j"
  j_dump :: "'j \<Rightarrow> string"
  j_dump_indented :: "'j \<Rightarrow> nat \<Rightarrow> string"
  j_string_of :: "'j \<Rightarrow> string option"
  j_bool_of :: "'j \<Rightarrow> bool option"
  j_int_of :: "'j \<Rightarrow> int option"
  j_is_null :: "'j \<Rightarrow> bool"
  j_is_number :: "'j \<Rightarrow> bool"
  j_number_of :: "'j \<Rightarrow> rat option"
  j_as_int :: "'j \<Rightarrow> int option"
  j_as_long :: "'j \<Rightarrow> int option"
  j_members :: "'j \<Rightarrow> (string \<times> 'j) list option"
  j_elements :: "'j \<Rightarrow> 'j list option"
  j_null :: 'j
  j_string :: "string \<Rightarrow> 'j"
  j_bool :: "bool \<Rightarrow> 'j"
  j_int :: "int \<Rightarrow> 'j"
  j_zero :: 'j
  j_object :: "(string \<times> 'j) list \<Rightarrow> 'j"
  j_array :: "'j list \<Rightarrow> 'j"

text \<open>What was built is read back, and a value has one type.\<close>

definition json_contract :: "('j, 'z) json_api_scheme \<Rightarrow> bool" where
  "json_contract js \<longleftrightarrow>
     (\<forall>s. j_string_of js (j_string js s) = Some s \<and> j_members js (j_string js s) = None \<and>
          j_elements js (j_string js s) = None \<and> j_bool_of js (j_string js s) = None) \<and>
     (\<forall>b. j_bool_of js (j_bool js b) = Some b) \<and>
     (\<forall>n. j_int_of js (j_int js n) = Some n) \<and>
     (\<forall>ms. distinct (map fst ms) \<longrightarrow> (\<exists>ns. j_members js (j_object js ms) = Some ns \<and> map_of ns = map_of ms \<and>
          distinct (map fst ns))) \<and>
     (\<forall>xs. j_elements js (j_array js xs) = Some xs) \<and>
     (\<forall>v. j_members js v \<noteq> None \<longrightarrow> j_string_of js v = None \<and> j_elements js v = None) \<and>
     (\<forall>v. j_members js v \<noteq> None \<longrightarrow> \<not> j_is_null js v) \<and>
     (\<forall>n. j_as_int js (j_int js n) = Some n \<and> j_as_long js (j_int js n) = Some n)"

text \<open>\<open>contains\<close>, and \<open>at\<close> of a member that is there.\<close>

definition j_get :: "('j, 'z) json_api_scheme \<Rightarrow> string \<Rightarrow> 'j \<Rightarrow> 'j option" where
  "j_get js key v = (case j_members js v of None \<Rightarrow> None | Some ms \<Rightarrow> map_of ms key)"

lemma j_get_object:
  "json_contract js \<Longrightarrow> distinct (map fst ms) \<Longrightarrow> j_get js key (j_object js ms) = map_of ms key"
  unfolding json_contract_def j_get_def by (metis option.simps(5))

lemma j_members_object: "json_contract js \<Longrightarrow> distinct (map fst ms) \<Longrightarrow> j_members js (j_object js ms) \<noteq> None"
  unfolding json_contract_def by blast

lemma j_members_no_string: "json_contract js \<Longrightarrow> j_members js v = Some ms \<Longrightarrow> j_string_of js v = None"
  by (simp add: json_contract_def)

lemma j_string_read: "json_contract js \<Longrightarrow> j_string_of js (j_string js s) = Some s"
  by (simp add: json_contract_def)

lemma j_reads:
  assumes "json_contract js"
  shows "j_string_of js (j_string js s) = Some s" and "j_bool_of js (j_bool js b) = Some b"
    and "j_elements js (j_array js xs) = Some xs" and "j_as_int js (j_int js n) = Some n"
    and "j_as_long js (j_int js n) = Some n" and "j_int_of js (j_int js n) = Some n"
  using assms by (simp_all add: json_contract_def)

lemma j_object_no_null: "json_contract js \<Longrightarrow> j_members js v = Some ms \<Longrightarrow> \<not> j_is_null js v"
  by (simp add: json_contract_def)

text \<open>\<open>json[key] = v\<close> on an object.\<close>

definition j_set :: "('j, 'z) json_api_scheme \<Rightarrow> string \<Rightarrow> 'j \<Rightarrow> 'j \<Rightarrow> 'j" where
  "j_set js key x v = (case j_members js v of None \<Rightarrow> v | Some ms \<Rightarrow> j_object js (AList.update key x ms))"

lemma j_get_set:
  assumes "json_contract js" and "j_members js v = Some ms" and "distinct (map fst ms)"
  shows "j_get js k (j_set js key x v) = (if k = key then Some x else j_get js k v)"
  using assms by (simp add: j_set_def j_get_object distinct_update update_conv')
    (simp add: j_get_def)

text \<open>\<open>v.empty()\<close>: null and containers without elements.\<close>

definition j_is_empty :: "('j, 'z) json_api_scheme \<Rightarrow> 'j \<Rightarrow> bool" where
  "j_is_empty js v \<longleftrightarrow> j_is_null js v \<or> j_members js v = Some [] \<or> j_elements js v = Some []"

section \<open>Failing\<close>

text \<open>
  What the request handlers answer: \<open>Bad_request\<close> is thrown by the sources, \<open>Json_exception\<close> by the
  library (a value of another type, a text that does not parse).
\<close>

datatype request_error = Bad_request string | Json_exception

text \<open>
  A computation that may fail is a sum; \<open>then_do\<close> goes on with its result, \<open>fold_err\<close> and
  \<open>map_err\<close> are loops that a failing element ends.
\<close>

definition then_do :: "'e + 'a \<Rightarrow> ('a \<Rightarrow> 'e + 'b) \<Rightarrow> 'e + 'b" where
  "then_do m f = (case m of Inl e \<Rightarrow> Inl e | Inr x \<Rightarrow> f x)"

lemma then_do_simps [simp]: "then_do (Inl e) f = Inl e" "then_do (Inr x) f = f x"
  by (simp_all add: then_do_def)

lemma then_do_InrE:
  assumes "then_do m f = Inr y"
  obtains x where "m = Inr x" and "f x = Inr y"
  using assms by (cases m) simp_all

lemma then_do_Inr_iff: "then_do m f = Inr y \<longleftrightarrow> (\<exists>x. m = Inr x \<and> f x = Inr y)"
  by (cases m) simp_all

lemma then_do_cong [fundef_cong]: "m = m' \<Longrightarrow> (\<And>x. m' = Inr x \<Longrightarrow> f x = g x) \<Longrightarrow> then_do m f = then_do m' g"
  by (cases m') (simp_all add: then_do_def)

fun fold_err :: "('s \<Rightarrow> 'a \<Rightarrow> 'e + 's) \<Rightarrow> 's \<Rightarrow> 'a list \<Rightarrow> 'e + 's" where
  "fold_err f s [] = Inr s"
| "fold_err f s (x # xs) = then_do (f s x) (\<lambda>s. fold_err f s xs)"

lemma fold_err_cong [fundef_cong]:
  "s = s' \<Longrightarrow> xs = ys \<Longrightarrow> (\<And>t x. x \<in> set ys \<Longrightarrow> f t x = g t x) \<Longrightarrow> fold_err f s xs = fold_err g s' ys"
proof (induction ys arbitrary: s s' xs)
  case (Cons y ys)
  have "fold_err f t ys = fold_err g t ys" for t
    using Cons.prems(3) by (intro Cons.IH) simp_all
  with Cons.prems show ?case by simp
qed simp

text \<open>What each round keeps, a loop that ends without an error keeps.\<close>

lemma fold_err_inv:
  "fold_err f s xs = Inr s' \<Longrightarrow> P s \<Longrightarrow>
   (\<And>t x t'. x \<in> set xs \<Longrightarrow> P t \<Longrightarrow> f t x = Inr t' \<Longrightarrow> P t') \<Longrightarrow> P s'"
proof (induction xs arbitrary: s)
  case (Cons x xs)
  from Cons.prems(1) obtain t where t: "f s x = Inr t" "fold_err f t xs = Inr s'" by (auto elim: then_do_InrE)
  have "P t" by (rule Cons.prems(3) [OF _ Cons.prems(2) t(1)]) simp
  with Cons.IH [OF t(2)] Cons.prems(3) show ?case by (metis list.set_intros(2))
qed simp

fun map_err :: "('a \<Rightarrow> 'e + 'b) \<Rightarrow> 'a list \<Rightarrow> 'e + 'b list" where
  "map_err f [] = Inr []"
| "map_err f (x # xs) = then_do (f x) (\<lambda>y. then_do (map_err f xs) (\<lambda>ys. Inr (y # ys)))"

lemma map_err_Inr: "map_err f xs = Inr ys \<longleftrightarrow> list_all2 (\<lambda>x y. f x = Inr y) xs ys"
proof (induction xs arbitrary: ys)
  case (Cons x xs)
  then show ?case by (cases ys) (auto simp: then_do_Inr_iff)
qed auto

text \<open>
  \<open>v.value(key, default)\<close>: the member read with \<open>get\<close>, the default where it is missing, an exception
  where \<open>v\<close> is no object or the member has another type.
\<close>

definition j_value :: "('j, 'z) json_api_scheme \<Rightarrow> ('j \<Rightarrow> 'a option) \<Rightarrow> string \<Rightarrow> 'a \<Rightarrow> 'j \<Rightarrow> request_error + 'a" where
  "j_value js get key fallback v =
     (case j_members js v of
        None \<Rightarrow> Inl Json_exception
      | Some ms \<Rightarrow>
          (case map_of ms key of
             None \<Rightarrow> Inr fallback
           | Some x \<Rightarrow> (case get x of None \<Rightarrow> Inl Json_exception | Some a \<Rightarrow> Inr a)))"

section \<open>Plain trees\<close>

datatype json_tree =
    J_null
  | J_bool bool
  | J_int int
  | J_string string
  | J_array "json_tree list"
  | J_object "(string \<times> json_tree) list"

text \<open>Enough of a parser and a printer for the examples: texts that begin with a brace are empty objects.\<close>

definition tree_json :: "json_tree json_api" where
  "tree_json = \<lparr>
     j_parse = (\<lambda>s. if prefix ''{'' s then Inr (J_object []) else Inl ''parse error''),
     j_dump = (\<lambda>v. case v of J_string s \<Rightarrow> s | _ \<Rightarrow> ''{}''), j_dump_indented = (\<lambda>v n. ''{}''),
     j_string_of = (\<lambda>v. case v of J_string s \<Rightarrow> Some s | _ \<Rightarrow> None),
     j_bool_of = (\<lambda>v. case v of J_bool b \<Rightarrow> Some b | _ \<Rightarrow> None),
     j_int_of = (\<lambda>v. case v of J_int n \<Rightarrow> Some n | _ \<Rightarrow> None),
     j_is_null = (\<lambda>v. v = J_null), j_is_number = (\<lambda>v. case v of J_int n \<Rightarrow> True | _ \<Rightarrow> False),
     j_number_of = (\<lambda>v. case v of J_int n \<Rightarrow> Some (of_int n) | _ \<Rightarrow> None),
     j_as_int = (\<lambda>v. case v of J_int n \<Rightarrow> Some n | _ \<Rightarrow> None),
     j_as_long = (\<lambda>v. case v of J_int n \<Rightarrow> Some n | _ \<Rightarrow> None),
     j_members = (\<lambda>v. case v of J_object ms \<Rightarrow> Some ms | _ \<Rightarrow> None),
     j_elements = (\<lambda>v. case v of J_array xs \<Rightarrow> Some xs | _ \<Rightarrow> None),
     j_null = J_null, j_string = J_string, j_bool = J_bool, j_int = J_int, j_zero = J_int 0, j_object = J_object,
     j_array = J_array \<rparr>"

lemma tree_json_contract: "json_contract tree_json"
  by (auto simp: json_contract_def tree_json_def split: json_tree.splits)

end
