(* ===== verification/Chat_Prompt.thy ===== *)
theory Chat_Prompt
  imports Llm_Generate Models Json_Api
begin

text \<open>
  \<open>src/server/llm/chat_prompt.hpp\<close> and its part of \<open>llm_engine.cpp\<close>: how a list of messages
  becomes a prompt. The strict templates are relaxed, consecutive user messages are merged, the
  messages and tools are handed to the template of llama.cpp (a parameter), and the token offset
  at which each message ends is recorded for the next turn. \<open>chat\<close> is a whole turn.
\<close>

section \<open>Replacing text\<close>

text \<open>The text after an occurrence is shorter, so the loop ends.\<close>

function replace_all :: "string \<Rightarrow> string \<Rightarrow> string \<Rightarrow> string" where
  "replace_all from to str =
     (if from = [] then str
      else case sfind from str of
             None \<Rightarrow> str
           | Some i \<Rightarrow> take i str @ to @ replace_all from to (drop (i + length from) str))"
  by pat_completeness auto
termination
  by (relation "measure (\<lambda>(from, to, str). length str)") (auto dest: sfind_progress simp del: length_drop)

declare replace_all.simps [simp del]

lemma sfind_part: "sfind p (u @ v @ w) = None \<Longrightarrow> sfind p v = None"
  unfolding sfind_None_iff by (metis append.assoc)

lemma sfind_before:
  assumes "sfind p s = Some i" and "p \<noteq> []"
  shows "sfind p (take i s) = None"
  unfolding sfind_None_iff
proof (intro allI notI)
  fix u v assume eq: "take i s = u @ p @ v"
  then have "length u + length p \<le> i"
    by (metis length_append length_take le_add1 min.cobounded2 add.assoc le_trans)
  then have "length u < i" using assms(2) by (cases p) auto
  moreover have "prefix p (drop (length u) s)"
    by (metis append.assoc append_eq_conv_conj append_take_drop_id eq prefixI)
  ultimately show False using sfind_first [OF assms(1)] by blast
qed

text \<open>
  A replacement of two equal characters which do not stand side by side in \<open>p\<close>, nor at its ends,
  cannot bring an occurrence of \<open>p\<close> about.
\<close>

definition apart :: "char \<Rightarrow> string \<Rightarrow> bool" where
  "apart x p \<longleftrightarrow> p \<noteq> [] \<and> hd p \<noteq> x \<and> last p \<noteq> x \<and> sfind [x, x] p = None"

lemma sfind_across:
  assumes "apart x p" and "sfind p a = None" and "sfind p b = None"
  shows "sfind p (a @ [x, x] @ b) = None"
  unfolding sfind_None_iff
proof (intro allI notI)
  fix u v assume "a @ [x, x] @ b = u @ p @ v"
  then consider (before) us where "a = u @ us" "us @ [x, x] @ b = p @ v"
    | (after) us where "u = a @ us" "[x, x] @ b = us @ p @ v"
    by (auto simp: append_eq_append_conv2)
  then show False
  proof cases
    case after
    then show ?thesis using assms(1,3)
      by (cases us; cases "tl us"; cases p) (auto simp: apart_def sfind_None_iff)
  next
    case before
    from before(2) consider (inside) w where "us = p @ w" | (over) w where "p = us @ w" "[x, x] @ b = w @ v"
      by (auto simp: append_eq_append_conv2)
    then show ?thesis
    proof cases
      case inside
      with before(1) assms(2) show ?thesis by (auto simp: sfind_None_iff)
    next
      case over
      show ?thesis
      proof (cases w)
        case Nil
        with over before(1) have "a = u @ p @ []" by simp
        with assms(2) show ?thesis unfolding sfind_None_iff by blast
      next
        case (Cons c w')
        with over have c: "c = x" by simp
        show ?thesis
        proof (cases w')
          case Nil
          with Cons c over(1) assms(1) show ?thesis by (simp add: apart_def)
        next
          case (Cons d w'')
          with \<open>w = c # w'\<close> c over have "p = us @ [x, x] @ w''" by simp
          with assms(1) show ?thesis by (auto simp: apart_def sfind_None_iff)
        qed
      qed
    qed
  qed
qed

lemma sfind_around:
  assumes "sfind q str = Some i" and "sfind p str = None"
  shows "sfind p (take i str) = None" "sfind p (drop (i + length q) str) = None"
proof -
  have "sfind p ([] @ take i str @ drop i str) = None" using assms(2) by simp
  then show "sfind p (take i str) = None" by (rule sfind_part)
  have "sfind p (take (i + length q) str @ drop (i + length q) str @ []) = None" using assms(2) by simp
  then show "sfind p (drop (i + length q) str) = None" by (rule sfind_part)
qed

lemma replace_keeps_out:
  assumes "apart x p"
  shows "sfind p str = None \<Longrightarrow> sfind p (replace_all q [x, x] str) = None"
proof (induction "length str" arbitrary: str rule: less_induct)
  case less
  show ?case
  proof (cases "q = [] \<or> sfind q str = None")
    case False
    then obtain i where i: "sfind q str = Some i" and q: "q \<noteq> []" by auto
    note around = sfind_around [OF i less(2)]
    from less(1) [OF sfind_progress [OF i q] around(2)] sfind_across [OF assms around(1)] i q show ?thesis
      by (simp add: replace_all.simps [of q _ str])
  qed (use less(2) in \<open>auto simp: replace_all.simps [of q _ str]\<close>)
qed

lemma replace_removes:
  assumes "apart x p"
  shows "sfind p (replace_all p [x, x] str) = None"
proof (induction "length str" arbitrary: str rule: less_induct)
  case less
  have p: "p \<noteq> []" using assms by (simp add: apart_def)
  show ?case
  proof (cases "sfind p str")
    case (Some i)
    from less [OF sfind_progress [OF Some p]] sfind_across [OF assms sfind_before [OF Some p]] Some p
    show ?thesis by (simp add: replace_all.simps [of p _ str])
  qed (use p in \<open>simp add: replace_all.simps [of p _ str]\<close>)
qed

section \<open>Strict templates\<close>

definition template_requires_alternating_roles :: "string \<Rightarrow> bool" where
  "template_requires_alternating_roles source \<longleftrightarrow>
     sfind ''conversation roles must alternate'' source \<noteq> None"

definition k_roles_message :: string where
  "k_roles_message = ''After the optional system message, conversation roles must alternate user and assistant roles except for tool calls and results.''"

definition k_single :: string where
  "k_single = ''raise_exception('' @ [CHR 0x27] @ k_roles_message @ [CHR 0x27] @ '')''"

definition k_double :: string where
  "k_double = ''raise_exception('' @ [CHR 0x22] @ k_roles_message @ [CHR 0x22] @ '')''"

definition relax_strict_role_template :: "string \<Rightarrow> string" where
  "relax_strict_role_template source =
     (let source = replace_all k_single [CHR 0x27, CHR 0x27] source
      in replace_all k_double [CHR 0x27, CHR 0x27] source)"

definition template_renders_reasoning :: "string \<Rightarrow> bool" where
  "template_renders_reasoning source \<longleftrightarrow>
     sfind ''reasoning_content'' source \<noteq> None \<or> sfind ''<think>'' source \<noteq> None \<or>
     sfind ''[THINK]'' source \<noteq> None"

lemma patterns_apart: "apart (CHR 0x27) k_single" "apart (CHR 0x27) k_double"
  by code_simp+

text \<open>
  Relaxing a template removes every call that raises on roles that do not alternate, in either
  quoting, and cannot bring a new one about; a template without such a call is left as it is.
\<close>

theorem relaxed_template_never_raises:
  "sfind k_single (relax_strict_role_template source) = None \<and>
   sfind k_double (relax_strict_role_template source) = None \<and>
   (sfind k_single source = None \<and> sfind k_double source = None \<longrightarrow>
      relax_strict_role_template source = source)"
proof -
  have "sfind p source = None \<Longrightarrow> replace_all p to source = source" for p to
    by (simp add: replace_all.simps [of p to source])
  then show ?thesis
    by (simp add: relax_strict_role_template_def Let_def replace_removes [OF patterns_apart(1)]
        replace_removes [OF patterns_apart(2)] replace_keeps_out [OF patterns_apart(1)])
qed

theorem relaxed_template_never_raises_witness:
  "let t = ''{% x %}'' @ k_double @ k_single @ ''{% end %}''
   in relax_strict_role_template t = ''{% x %}'' @ [CHR 0x27, CHR 0x27, CHR 0x27, CHR 0x27] @ ''{% end %}'' \<and>
      sfind k_double (relax_strict_role_template t) = None \<and> relax_strict_role_template ''abc'' = ''abc''"
proof -
  let ?t = "''{% x %}'' @ k_double @ k_single @ ''{% end %}''"
  have "relax_strict_role_template ?t = ''{% x %}'' @ [CHR 0x27, CHR 0x27, CHR 0x27, CHR 0x27] @ ''{% end %}''"
    by code_simp
  moreover have "sfind k_single ''abc'' = None" "sfind k_double ''abc'' = None" by code_simp+
  ultimately show ?thesis
    using relaxed_template_never_raises [of ?t] relaxed_template_never_raises [of "''abc''"]
    by (simp add: Let_def)
qed

section \<open>Consecutive user messages\<close>

definition merge_step :: "'j chat_message list \<Rightarrow> 'j chat_message \<Rightarrow> 'j chat_message list" where
  "merge_step merged m =
     (if merged \<noteq> [] \<and> role m = role_user \<and> role (last merged) = role_user
      then if msg_content m = [] then merged
           else butlast merged @ [(last merged)\<lparr> msg_content :=
                  (if msg_content (last merged) = [] then [] else msg_content (last merged) @ [CHR 0x0A]) @
                  msg_content m \<rparr>]
      else merged @ [m])"

definition merge_consecutive_users :: "'j chat_message list \<Rightarrow> 'j chat_message list" where
  "merge_consecutive_users messages = foldl merge_step [] messages"

fun no_user_pair :: "'j chat_message list \<Rightarrow> bool" where
  "no_user_pair (m # n # ms) \<longleftrightarrow> \<not> (role m = role_user \<and> role n = role_user) \<and> no_user_pair (n # ms)"
| "no_user_pair ms \<longleftrightarrow> True"

lemma merge_step_cases:
  obtains "merge_step ms m = ms" "role m = role_user" "ms \<noteq> []" "role (last ms) = role_user"
  | c where "merge_step ms m = butlast ms @ [(last ms)\<lparr> msg_content := c \<rparr>]" "role m = role_user" "ms \<noteq> []"
      "role (last ms) = role_user"
  | "merge_step ms m = ms @ [m]" "ms = [] \<or> role m \<noteq> role_user \<or> role (last ms) \<noteq> role_user"
  by (cases "ms \<noteq> [] \<and> role m = role_user \<and> role (last ms) = role_user"; cases "msg_content m = []")
    (auto simp: merge_step_def)

lemma no_user_pair_append:
  "no_user_pair (ms @ [m]) \<longleftrightarrow> no_user_pair ms \<and>
     (ms \<noteq> [] \<longrightarrow> \<not> (role (last ms) = role_user \<and> role m = role_user))"
  by (induction ms rule: no_user_pair.induct) auto

lemma no_user_pair_merge: "no_user_pair ms \<Longrightarrow> no_user_pair (merge_step ms m)"
proof (cases rule: merge_step_cases [of ms m])
  case (2 c)
  assume "no_user_pair ms"
  then have "no_user_pair (butlast ms @ [last ms])" using 2(3) by simp
  with 2(1,4) show ?thesis by (simp add: no_user_pair_append)
qed (auto simp: no_user_pair_append)

lemma others_merge:
  "filter (\<lambda>m. role m \<noteq> role_user) (merge_step ms m) =
     filter (\<lambda>m. role m \<noteq> role_user) ms @ (if role m \<noteq> role_user then [m] else [])"
proof (cases rule: merge_step_cases [of ms m])
  case (2 c)
  obtain ns l where "ms = ns @ [l]" using 2(3) by (cases ms rule: rev_cases) auto
  with 2 show ?thesis by simp
qed auto

text \<open>The text of a run of user messages, without the separators.\<close>

definition user_text :: "'j chat_message list \<Rightarrow> string" where
  "user_text ms = concat (map (\<lambda>m. filter (\<lambda>c. c \<noteq> CHR 0x0A) (msg_content m)) ms)"

lemma user_text_merge: "user_text (merge_step ms m) = user_text ms @ user_text [m]"
proof (cases "ms \<noteq> [] \<and> role m = role_user \<and> role (last ms) = role_user \<and> msg_content m \<noteq> []")
  case True
  then obtain ns l where "ms = ns @ [l]" by (cases ms rule: rev_cases) auto
  with True show ?thesis by (simp add: merge_step_def user_text_def)
qed (auto simp: merge_step_def user_text_def)

text \<open>
  The messages handed to a strict template never hold two user messages in a row; the messages
  of all other roles are unchanged and in order, no text is lost or reordered but for the newlines
  that join merged messages, and a conversation that already alternates is not touched.
\<close>

theorem merged_users_alternate:
  "no_user_pair (merge_consecutive_users ms) \<and>
   filter (\<lambda>m. role m \<noteq> role_user) (merge_consecutive_users ms) = filter (\<lambda>m. role m \<noteq> role_user) ms \<and>
   user_text (merge_consecutive_users ms) = user_text ms \<and>
   (no_user_pair ms \<longrightarrow> merge_consecutive_users ms = ms)"
proof -
  have "no_user_pair ms \<Longrightarrow> merge_consecutive_users ms = ms"
  proof (induction ms rule: rev_induct)
    case (snoc m ms)
    then show ?case by (auto simp: merge_consecutive_users_def no_user_pair_append merge_step_def)
  qed (simp add: merge_consecutive_users_def)
  moreover have "no_user_pair (merge_consecutive_users ms)"
    by (induction ms rule: rev_induct) (simp_all add: merge_consecutive_users_def no_user_pair_merge)
  moreover have "filter (\<lambda>m. role m \<noteq> role_user) (merge_consecutive_users ms) = filter (\<lambda>m. role m \<noteq> role_user) ms"
    by (induction ms rule: rev_induct) (simp_all add: merge_consecutive_users_def others_merge)
  moreover have "user_text (merge_consecutive_users ms) = user_text ms"
    by (induction ms rule: rev_induct)
      (simp_all add: merge_consecutive_users_def user_text_merge, simp_all add: user_text_def)
  ultimately show ?thesis by blast
qed

definition plain_message :: "string \<Rightarrow> string \<Rightarrow> 'j chat_message" where
  "plain_message r c = \<lparr> role = r, msg_content = c, reasoning_content = [], tool_call_id = [],
     tool_name = [], tool_calls = [] \<rparr>"

theorem merged_users_alternate_witness:
  "let ms = [plain_message role_user ''a'', plain_message role_user ''b'', plain_message role_assistant ''c'']
            :: nat chat_message list
   in map msg_content (merge_consecutive_users ms) = [''a'' @ [CHR 0x0A] @ ''b'', ''c''] \<and>
      merge_consecutive_users (tl ms) = tl ms"
proof -
  let ?ms = "[plain_message role_user ''a'', plain_message role_user ''b'', plain_message role_assistant ''c'']
            :: nat chat_message list"
  have "map msg_content (merge_consecutive_users ?ms) = [''a'' @ [CHR 0x0A] @ ''b'', ''c'']" "no_user_pair (tl ?ms)"
    by code_simp+
  with merged_users_alternate [of "tl ?ms"] show ?thesis by (simp add: Let_def)
qed

section \<open>Rendering the prompt\<close>

text \<open>
  \<open>common_chat_templates_inputs\<close> as far as it is filled in. The template engine is a parameter: a
  function from the inputs to the prompt or the message of its exception. A missing template
  object is \<open>None\<close>.
\<close>

record prompt_call =
  pc_name :: string
  pc_id :: string
  pc_arguments :: string

record prompt_message =
  pm_role :: string
  pm_content :: string
  pm_reasoning :: string
  pm_call_id :: string
  pm_tool_name :: string
  pm_calls :: "prompt_call list"

record template_inputs =
  add_generation_prompt :: bool
  enable_thinking :: bool
  in_messages :: "prompt_message list"
  in_tools :: "chat_tool list"
  force_pure_content :: bool

type_synonym templates = "(template_inputs \<Rightarrow> string + string) option"

record chat_policy =
  add_assistant :: bool
  policy_thinking :: bool
  policy_reasoning :: bool
  merge_users :: bool

definition prompt_call_of :: "('j, 'z) json_api_scheme \<Rightarrow> 'j parsed_tool_call \<Rightarrow> prompt_call" where
  "prompt_call_of js call = \<lparr> pc_name = tc_name call, pc_id = tc_id call,
     pc_arguments = (case j_string_of js (tc_arguments call) of
                       Some s \<Rightarrow> s | None \<Rightarrow> j_dump js (tc_arguments call)) \<rparr>"

definition prompt_message_of :: "('j, 'z) json_api_scheme \<Rightarrow> chat_policy \<Rightarrow> 'j chat_message \<Rightarrow> prompt_message" where
  "prompt_message_of js policy m = \<lparr> pm_role = role m, pm_content = msg_content m,
     pm_reasoning = (if policy_reasoning policy then reasoning_content m else []),
     pm_call_id = tool_call_id m, pm_tool_name = tool_name m,
     pm_calls = map (prompt_call_of js) (tool_calls m) \<rparr>"

definition no_parameters :: string where
  "no_parameters = ''{'' @ [CHR 0x22] @ ''type'' @ [CHR 0x22] @ '':'' @ [CHR 0x22] @ ''object'' @ [CHR 0x22] @ '','' @
     [CHR 0x22] @ ''properties'' @ [CHR 0x22] @ '':{}}''"

definition prompt_tool_of :: "('j, 'z) json_api_scheme \<Rightarrow> chat_tool \<Rightarrow> string + chat_tool" where
  "prompt_tool_of js tool =
     (if tool_spec_name tool = [] then Inl ''tool name is required''
      else case j_parse js (if tool_parameters tool = [] then no_parameters else tool_parameters tool) of
             Inl what \<Rightarrow> Inl (''tool parameters are not JSON: '' @ what)
           | Inr parsed \<Rightarrow>
               if j_members js parsed = None then Inl ''tool parameters must be a JSON object''
               else Inr \<lparr> tool_spec_name = tool_spec_name tool, tool_description = tool_description tool,
                          tool_parameters = j_dump js parsed \<rparr>)"

fun prompt_tools :: "('j, 'z) json_api_scheme \<Rightarrow> chat_tool list \<Rightarrow> string + chat_tool list" where
  "prompt_tools js [] = Inr []"
| "prompt_tools js (t # ts) =
     (case prompt_tool_of js t of
        Inl what \<Rightarrow> Inl what
      | Inr spec \<Rightarrow> (case prompt_tools js ts of Inl what \<Rightarrow> Inl what | Inr specs \<Rightarrow> Inr (spec # specs)))"

definition render_chat_prompt :: "('j, 'z) json_api_scheme \<Rightarrow> templates \<Rightarrow> 'j chat_message list \<Rightarrow>
    chat_tool list \<Rightarrow> chat_policy \<Rightarrow> string + string" where
  "render_chat_prompt js templates messages tools policy =
     (case templates of
        None \<Rightarrow> Inl ''no chat template''
      | Some apply_template \<Rightarrow>
          (let turns = (if merge_users policy then merge_consecutive_users messages else messages)
           in case prompt_tools js tools of
                Inl what \<Rightarrow> Inl what
              | Inr specs \<Rightarrow>
                  (let inputs = \<lparr> add_generation_prompt = add_assistant policy,
                         enable_thinking = policy_thinking policy,
                         in_messages = map (prompt_message_of js policy) turns, in_tools = specs,
                         force_pure_content = False \<rparr>
                   in case apply_template inputs of
                        Inr prompt \<Rightarrow> Inr prompt
                      | Inl _ \<Rightarrow>
                          (case apply_template (inputs\<lparr> force_pure_content := True \<rparr>) of
                             Inr prompt \<Rightarrow> Inr prompt
                           | Inl what \<Rightarrow> Inl (''failed to format chat template: '' @ what)))))"

section \<open>The engine's side\<close>

definition format_messages :: "('j, 'z) json_api_scheme \<Rightarrow> templates \<Rightarrow> ('c, 's) engine \<Rightarrow>
    'j chat_message list \<Rightarrow> bool \<Rightarrow> chat_tool list \<Rightarrow> llama_error + string" where
  "format_messages js templates e messages assistant tools =
     (case render_chat_prompt js templates messages tools
             \<lparr> add_assistant = assistant, policy_thinking = cfg_reasoning (config e),
               policy_reasoning = keep_reasoning e, merge_users = merge_user_turns e \<rparr> of
        Inl what \<Rightarrow> Inl (Runtime_error what)
      | Inr prompt \<Rightarrow> Inr prompt)"

text \<open>
  The loop of \<open>message_token_ends\<close> from message \<open>i\<close> on. The prompt of the first \<open>i + 1\<close>
  messages counts only while its tokens are a prefix of the whole prompt's.
\<close>

function ends_from :: "('c, 's, 'z) llama_api_scheme \<Rightarrow> ('j, 'y) json_api_scheme \<Rightarrow> templates \<Rightarrow>
    ('c, 's) engine \<Rightarrow> 'j chat_message list \<Rightarrow> chat_tool list \<Rightarrow> token list \<Rightarrow> nat \<Rightarrow> nat list \<Rightarrow>
    llama_error + nat list" where
  "ends_from api js templates e messages tools prompt_tokens i ends =
     (if length messages \<le> i then Inr ends
      else case format_messages js templates e (take (Suc i) messages) False tools of
             Inl err \<Rightarrow> Inl err
           | Inr formatted \<Rightarrow>
               (case tokenize_prompt api formatted of
                  Inl err \<Rightarrow> Inl err
                | Inr tokens \<Rightarrow>
                    if length prompt_tokens < length tokens then Inr ends
                    else if \<not> prefix tokens prompt_tokens then Inr ends
                    else if ends \<noteq> [] \<and> length tokens < last ends then Inr ends
                    else ends_from api js templates e messages tools prompt_tokens (Suc i)
                           (ends @ [length tokens])))"
  by pat_completeness auto
termination
  by (relation "measure (\<lambda>(api, js, templates, e, messages, tools, prompt, i, ends). length messages - i)") auto

declare ends_from.simps [simp del]

definition message_token_ends :: "('c, 's, 'z) llama_api_scheme \<Rightarrow> ('j, 'y) json_api_scheme \<Rightarrow> templates \<Rightarrow>
    ('c, 's) engine \<Rightarrow> 'j chat_message list \<Rightarrow> chat_tool list \<Rightarrow> token list \<Rightarrow> llama_error + nat list" where
  "message_token_ends api js templates e messages tools prompt_tokens =
     (let kept = (message_ends e \<noteq> [] \<and>
                  (let l = last (message_ends e)
                   in l \<le> length prompt_tokens \<and> l \<le> length (active_tokens e) \<and>
                      take l (active_tokens e) = take l prompt_tokens));
          ends = (if kept then message_ends e else []);
          start = (if kept then length (message_ends e) else 0)
      in ends_from api js templates e messages tools prompt_tokens start ends)"

definition chat :: "('c, 's, 'z) llama_api_scheme \<Rightarrow> ('j, 'y) json_api_scheme \<Rightarrow> templates \<Rightarrow>
    ('q, 'w) llama_request_scheme \<Rightarrow> chat_tool list \<Rightarrow> ('c, 's) engine \<Rightarrow> 'q \<Rightarrow> 'j chat_message list \<Rightarrow>
    (llama_error + string) \<times> ('c, 's) engine \<times> 'q" where
  "chat api js templates req tools e q messages =
     (if uninitialised e then (Inl not_initialised, e, q)
      else let e = activate_session api e (req_session_id req)
           in case format_messages js templates e messages True tools of
                Inl err \<Rightarrow> (Inl err, e, q)
              | Inr prompt \<Rightarrow>
                  (case tokenize_prompt api prompt of
                     Inl err \<Rightarrow> (Inl err, e, q)
                   | Inr tokens \<Rightarrow>
                       (case message_token_ends api js templates e messages tools tokens of
                          Inl err \<Rightarrow> (Inl err, e, q)
                        | Inr ends \<Rightarrow> generate_tokens api req e q tokens ends)))"

section \<open>Message ends are prefixes of the prompt\<close>

text \<open>The tokens of the prompt for the first \<open>n\<close> messages alone.\<close>

definition turn_tokens :: "('c, 's, 'z) llama_api_scheme \<Rightarrow> ('j, 'y) json_api_scheme \<Rightarrow> templates \<Rightarrow>
    ('c, 's) engine \<Rightarrow> 'j chat_message list \<Rightarrow> chat_tool list \<Rightarrow> nat \<Rightarrow> llama_error + token list" where
  "turn_tokens api js templates e messages tools n =
     (case format_messages js templates e (take n messages) False tools of
        Inl err \<Rightarrow> Inl err | Inr formatted \<Rightarrow> tokenize_prompt api formatted)"

definition ends_ok :: "token list \<Rightarrow> nat list \<Rightarrow> bool" where
  "ends_ok prompt ends \<longleftrightarrow> sorted ends \<and> (\<forall>n \<in> set ends. n \<le> length prompt)"

lemma ends_from_spec:
  "ends_from api js templates e messages tools prompt i ends = Inr ends' \<Longrightarrow> ends_ok prompt ends \<Longrightarrow>
     i = length ends \<Longrightarrow> ends_ok prompt ends' \<and> prefix ends ends' \<and> length ends' \<le> max i (length messages) \<and>
     (\<forall>k. i \<le> k \<and> k < length ends' \<longrightarrow>
        turn_tokens api js templates e messages tools (Suc k) = Inr (take (ends' ! k) prompt))"
proof (induction "length messages - i" arbitrary: i ends rule: less_induct)
  case less
  show ?case
  proof (cases "length messages \<le> i")
    case True
    then have "ends' = ends" using less(2) by (simp add: ends_from.simps [of _ _ _ _ _ _ _ i])
    with less(3,4) True show ?thesis by auto
  next
    case False
    obtain formatted tokens where f: "format_messages js templates e (take (Suc i) messages) False tools = Inr formatted"
      "tokenize_prompt api formatted = Inr tokens"
      using less(2) False by (auto simp: ends_from.simps [of _ _ _ _ _ _ _ i] split: sum.splits)
    show ?thesis
    proof (cases "length prompt < length tokens \<or> \<not> prefix tokens prompt \<or> ends \<noteq> [] \<and> length tokens < last ends")
      case True
      then have "ends' = ends" using f False less(2)
        by (auto simp: ends_from.simps [of _ _ _ _ _ _ _ i] split: if_splits)
      with less(3,4) show ?thesis by auto
    next
      case on: False
      have run: "ends_from api js templates e messages tools prompt (Suc i) (ends @ [length tokens]) = Inr ends'"
        using on f False less(2) by (auto simp: ends_from.simps [of _ _ _ _ _ _ _ i])
      have le: "n \<le> length tokens" if "n \<in> set ends" for n
        using on less(3) that by (cases ends rule: rev_cases) (auto simp: ends_ok_def sorted_append)
      have ok: "ends_ok prompt (ends @ [length tokens])"
        using on less(3) le by (auto simp: ends_ok_def sorted_append)
      have "length messages - Suc i < length messages - i" using False by simp
      from less(1) [OF this run ok] less(4) have rest: "ends_ok prompt ends'" "prefix (ends @ [length tokens]) ends'"
        "length ends' \<le> max (Suc i) (length messages)"
        "\<forall>k. Suc i \<le> k \<and> k < length ends' \<longrightarrow>
           turn_tokens api js templates e messages tools (Suc k) = Inr (take (ends' ! k) prompt)" by auto
      have "ends' ! i = length tokens" using rest(2) less(4) by (auto simp: prefix_def nth_append)
      moreover have "take (length tokens) prompt = tokens" using on by (auto simp: prefix_def)
      ultimately have "turn_tokens api js templates e messages tools (Suc i) = Inr (take (ends' ! i) prompt)"
        using f by (simp add: turn_tokens_def)
      with rest(4) have "\<forall>k. i \<le> k \<and> k < length ends' \<longrightarrow>
           turn_tokens api js templates e messages tools (Suc k) = Inr (take (ends' ! k) prompt)"
        by (metis Suc_leI le_neq_implies_less)
      with rest(1-3) False show ?thesis by (auto dest: append_prefixD)
    qed
  qed
qed

text \<open>
  C16. The offsets at which messages end grow, never leave the prompt, and are true: message \<open>k\<close>
  ends at \<open>n\<close> only if the prompt of the first \<open>k + 1\<close> messages alone tokenizes to exactly the first
  \<open>n\<close> tokens of the whole prompt. Offsets kept from the last turn are a prefix of the new ones.
\<close>

theorem message_ends_are_prompt_prefixes:
  assumes "message_token_ends api js templates e messages tools prompt = Inr ends"
    and "sorted (message_ends e)"
  shows "sorted ends \<and> (\<forall>n \<in> set ends. n \<le> length prompt) \<and>
    (\<exists>start. (start = 0 \<or> start = length (message_ends e) \<and> prefix (message_ends e) ends) \<and>
       (\<forall>k. start \<le> k \<and> k < length ends \<longrightarrow>
          turn_tokens api js templates e messages tools (Suc k) = Inr (take (ends ! k) prompt)))"
proof -
  define kept where "kept \<longleftrightarrow> message_ends e \<noteq> [] \<and> last (message_ends e) \<le> length prompt \<and>
    last (message_ends e) \<le> length (active_tokens e) \<and>
    take (last (message_ends e)) (active_tokens e) = take (last (message_ends e)) prompt"
  define old where "old = (if kept then message_ends e else [])"
  have run: "ends_from api js templates e messages tools prompt (length old) old = Inr ends"
    using assms(1) by (cases kept) (auto simp: message_token_ends_def kept_def old_def Let_def split: if_splits)
  have "n \<le> last (message_ends e)" if "n \<in> set (message_ends e)" for n
    using assms(2) that by (cases "message_ends e" rule: rev_cases) (auto simp: sorted_append)
  then have "ends_ok prompt old" using assms(2) by (auto simp: ends_ok_def old_def kept_def intro: order_trans)
  from ends_from_spec [OF run this refl] show ?thesis
    by (intro conjI exI [where x = "length old"]) (auto simp: ends_ok_def old_def)
qed

text \<open>A template for the examples: the contents of the messages, one after the other.\<close>

definition plain_templates :: templates where
  "plain_templates = Some (\<lambda>inputs. Inr (concat (map pm_content (in_messages inputs))))"

definition demo_turn_engine :: "(token list, token list) engine" where
  "demo_turn_engine = (demo_engine 100 ''a'' [1, 2, 9])\<lparr> smpl := Some [] \<rparr>"

theorem message_ends_are_prompt_prefixes_witness:
  "let api = scripted_cache [72, 105] 8 2 0; ms = [plain_message role_user ''ab'', plain_message role_user ''c''];
       prompt = map (\<lambda>c. of_char c) ''abc''
   in message_token_ends api tree_json plain_templates demo_turn_engine ms [] prompt = Inr [2, 3] \<and>
      turn_tokens api tree_json plain_templates demo_turn_engine ms [] 1 = Inr (take 2 prompt)"
proof -
  let ?api = "scripted_cache [72, 105] 8 2 0"
  let ?ms = "[plain_message role_user ''ab'', plain_message role_user ''c'']"
  let ?prompt = "map (\<lambda>c. of_char c) ''abc'' :: token list"
  have run: "message_token_ends ?api tree_json plain_templates demo_turn_engine ?ms [] ?prompt = Inr [2, 3]"
    and old: "message_ends demo_turn_engine = []"
    by code_simp+
  then have "sorted (message_ends demo_turn_engine)" by simp
  from message_ends_are_prompt_prefixes [OF run this] old
  have "turn_tokens ?api tree_json plain_templates demo_turn_engine ?ms [] (Suc 0) = Inr (take ([2, 3] ! 0) ?prompt)"
    by auto
  with run show ?thesis by (simp add: Let_def)
qed

section \<open>A whole turn\<close>

lemma chat_refused:
  assumes "chat api js templates req tools e q messages = (result, e', q')" and "\<not> uninitialised e"
    and "a = activate_session api e (req_session_id req)"
    and "\<nexists>prompt tokens ends. format_messages js templates a messages True tools = Inr prompt \<and>
      tokenize_prompt api prompt = Inr tokens \<and> message_token_ends api js templates a messages tools tokens = Inr ends"
  shows "e' = a \<and> (\<exists>err. result = Inl err)"
proof -
  have "\<exists>err. chat api js templates req tools e q messages = (Inl err, a, q)"
  proof (cases "format_messages js templates a messages True tools")
    case f: (Inr prompt)
    show ?thesis
    proof (cases "tokenize_prompt api prompt")
      case (Inr tokens)
      with f assms(4) obtain err where "message_token_ends api js templates a messages tools tokens = Inl err"
        by (cases "message_token_ends api js templates a messages tools tokens") auto
      with f Inr assms(2,3) show ?thesis by (simp add: chat_def)
    qed (use f assms(2,3) in \<open>simp add: chat_def\<close>)
  qed (use assms(2,3) in \<open>simp add: chat_def\<close>)
  with assms(1) show ?thesis by auto
qed

text \<open>
  C14. A chat turn, whatever its messages, its template, its tools and its callbacks do, keeps the
  context cells equal to the tokens of the engine. A turn whose messages or tools cannot be
  rendered, or whose prompt cannot be tokenized, changes nothing but the session that is live; any
  other one ends as a turn over the rendered prompt's tokens does.
\<close>

theorem chat_keeps_cache_and_tokens_together:
  assumes "contracts api cells ri fi" and "engine_ok cells ri fi e"
    and "chat api js templates req tools e q messages = (result, e', q')"
  shows "(\<forall>c. ctx e' = Some c \<longrightarrow> cells c = active_tokens e') \<and>
    (let a = (if uninitialised e then e else activate_session api e (req_session_id req))
     in (e' = a \<and> (\<exists>err. result = Inl err)) \<or>
        (\<exists>prompt tokens. format_messages js templates a messages True tools = Inr prompt \<and>
           tokenize_prompt api prompt = Inr tokens \<and> turn_outcome api req a tokens result e'))"
proof (cases "uninitialised e")
  case True
  with assms show ?thesis by (auto simp: chat_def engine_ok_def live_ok_def)
next
  case False
  let ?a = "activate_session api e (req_session_id req)"
  have a: "engine_ok cells ri fi ?a" using activate_effect [OF assms(1,2)] by blast
  show ?thesis
  proof (cases "\<exists>prompt tokens ends. format_messages js templates ?a messages True tools = Inr prompt \<and>
      tokenize_prompt api prompt = Inr tokens \<and>
      message_token_ends api js templates ?a messages tools tokens = Inr ends")
    case True
    then obtain prompt tokens ends where p: "format_messages js templates ?a messages True tools = Inr prompt"
      "tokenize_prompt api prompt = Inr tokens"
      "message_token_ends api js templates ?a messages tools tokens = Inr ends" by blast
    then have "generate_tokens api req ?a q tokens ends = (result, e', q')"
      using assms(3) False by (simp add: chat_def)
    from generate_tokens_outcome [OF assms(1) a this] p(1,2) False show ?thesis
      by (auto simp: engine_ok_def live_ok_def)
  next
    case no: False
    have "e' = ?a \<and> (\<exists>err. result = Inl err)" by (rule chat_refused [OF assms(3) False refl no])
    with a False show ?thesis by (auto simp: engine_ok_def live_ok_def)
  qed
qed

theorem chat_keeps_cache_and_tokens_together_witness:
  "let (result, e', q) = chat (scripted_cache [72, 105] 8 2 0) tree_json plain_templates (plain_request ''a'' 5) []
         demo_turn_engine () [plain_message role_user ''ab'']
   in result = Inr ''Hi'' \<and> ctx e' = Some (active_tokens e')"
proof -
  let ?api = "scripted_cache [72, 105] 8 2 0"
  let ?run = "chat ?api tree_json plain_templates (plain_request ''a'' 5) [] demo_turn_engine ()
    [plain_message role_user ''ab'']"
  obtain result e' q where run: "?run = (result, e', q)" by (metis prod_cases3)
  have ok: "engine_ok (\<lambda>c. c) (\<lambda>ts d. d = list_ram ts)
     (\<lambda>ts d. d = seq_header ?api ts @ bytes_of_tokens ts) demo_turn_engine"
    using demo_engine_ok by (simp add: engine_ok_def live_ok_def parked_ok_def demo_turn_engine_def)
  have "fst ?run = Inr ''Hi''" "ctx (fst (snd ?run)) \<noteq> None" by code_simp+
  with chat_keeps_cache_and_tokens_together [OF demo_contracts ok run] run show ?thesis by auto
qed

end
