(* ===== verification/Token_Buffer.thy ===== *)
theory Token_Buffer
  imports Prelude
begin

text \<open>
  \<open>src/server/jobs/token_buffer.hpp\<close>: the bridge on which the worker pushes pieces and an HTTP
  thread pulls them. Every method holds the mutex for its whole body, so a method is one atomic
  step. \<open>wait_pull\<close> answers \<open>None\<close> while it would block, \<open>Some None\<close> at the end of the
  stream and \<open>Some (Some piece)\<close> otherwise. The locale \<open>closable_queue\<close> is the contract the
  stream readers rely on.
\<close>

section \<open>Model\<close>

record token_buffer =
  pieces :: "string list"
  full_result :: string
  buf_done :: bool
  buf_cancelled :: bool

definition new_buffer :: token_buffer where
  "new_buffer = \<lparr> pieces = [], full_result = [], buf_done = False, buf_cancelled = False \<rparr>"

definition buffer_push :: "string \<Rightarrow> token_buffer \<Rightarrow> token_buffer" where
  "buffer_push piece b =
     (if buf_cancelled b \<or> buf_done b then b else b\<lparr> pieces := pieces b @ [piece] \<rparr>)"

definition buffer_set_done :: "token_buffer \<Rightarrow> token_buffer" where
  "buffer_set_done b = b\<lparr> buf_done := True \<rparr>"

definition buffer_cancel :: "token_buffer \<Rightarrow> token_buffer" where
  "buffer_cancel b = b\<lparr> buf_cancelled := True, buf_done := True \<rparr>"

definition buffer_is_done :: "token_buffer \<Rightarrow> bool" where
  "buffer_is_done b \<longleftrightarrow> buf_done b \<and> pieces b = []"

definition wait_pull :: "token_buffer \<Rightarrow> string option option \<times> token_buffer" where
  "wait_pull b =
     (if \<not> (pieces b \<noteq> [] \<or> buf_done b \<or> buf_cancelled b) then (None, b)
      else case pieces b of
             p # ps \<Rightarrow> (Some (Some p), b\<lparr> pieces := ps \<rparr>)
           | [] \<Rightarrow> (Some None, b))"

definition pull_available :: "token_buffer \<Rightarrow> string list \<times> bool \<times> token_buffer" where
  "pull_available b = (pieces b, buf_done b, b\<lparr> pieces := [] \<rparr>)"

definition set_full_result :: "string \<Rightarrow> token_buffer \<Rightarrow> token_buffer" where
  "set_full_result t b = b\<lparr> full_result := t \<rparr>"

section \<open>The contract\<close>

datatype ('a, 'k) queue_input = In_push 'a | In_close 'k | In_pull

text \<open>
  What the threads do to a queue, one atomic call at a time, and what each pull answered:
  \<open>None\<close> when it would have blocked, \<open>Some None\<close> at the end of the stream.
\<close>

fun run_queue :: "('a \<Rightarrow> 's \<Rightarrow> 's) \<Rightarrow> ('k \<Rightarrow> 's \<Rightarrow> 's) \<Rightarrow> ('s \<Rightarrow> 'a list option option \<times> 's) \<Rightarrow>
    ('a, 'k) queue_input list \<Rightarrow> 's \<Rightarrow> 'a list option option list \<times> 's" where
  "run_queue push close pull [] s = ([], s)"
| "run_queue push close pull (In_push x # xs) s = run_queue push close pull xs (push x s)"
| "run_queue push close pull (In_close k # xs) s = run_queue push close pull xs (close k s)"
| "run_queue push close pull (In_pull # xs) s =
     (let (r, s) = pull s; (rs, t) = run_queue push close pull xs s in (r # rs, t))"

fun delivered :: "'a list option option list \<Rightarrow> 'a list" where
  "delivered [] = []"
| "delivered (Some (Some xs) # rs) = xs @ delivered rs"
| "delivered (_ # rs) = delivered rs"

text \<open>The elements pushed before the first close, none when the queue was closed to begin with.\<close>

fun accepted :: "bool \<Rightarrow> ('a, 'k) queue_input list \<Rightarrow> 'a list" where
  "accepted still [] = []"
| "accepted still (In_push x # xs) = (if still then x # accepted still xs else accepted still xs)"
| "accepted still (In_close k # xs) = accepted False xs"
| "accepted still (In_pull # xs) = accepted still xs"

lemma accepted_closed [simp]: "accepted False xs = []"
proof (induction xs)
  case (Cons x xs)
  then show ?case by (cases x) simp_all
qed simp

locale closable_queue =
  fixes push :: "'a \<Rightarrow> 's \<Rightarrow> 's"
    and close :: "'k \<Rightarrow> 's \<Rightarrow> 's"
    and pull :: "'s \<Rightarrow> 'a list option option \<times> 's"
    and waiting :: "'s \<Rightarrow> 'a list"
    and open_st :: "'s \<Rightarrow> bool"
  assumes push_open: "open_st s \<Longrightarrow> waiting (push x s) = waiting s @ [x] \<and> open_st (push x s)"
    and push_closed: "\<not> open_st s \<Longrightarrow> push x s = s"
    and close_st: "waiting (close k s) = waiting s \<and> \<not> open_st (close k s)"
    and pull_blocks: "pull s = (None, s') \<Longrightarrow> s' = s \<and> open_st s \<and> waiting s = []"
    and pull_takes: "pull s = (Some (Some xs), s') \<Longrightarrow> waiting s = xs @ waiting s' \<and> (open_st s' \<longleftrightarrow> open_st s)"
    and pull_ends: "pull s = (Some None, s') \<Longrightarrow> s' = s \<and> \<not> open_st s \<and> waiting s = []"
begin

abbreviation run :: "('a, 'k) queue_input list \<Rightarrow> 's \<Rightarrow> 'a list option option list \<times> 's" where
  "run \<equiv> run_queue push close pull"

lemma run_conserves:
  "run xs s = (rs, t) \<Longrightarrow> delivered rs @ waiting t = waiting s @ accepted (open_st s) xs"
proof (induction xs arbitrary: s rs)
  case (Cons x xs)
  show ?case
  proof (cases x)
    case (In_push a)
    with Cons show ?thesis by (cases "open_st s") (simp_all add: push_open push_closed)
  next
    case (In_close k)
    with Cons show ?thesis by (simp add: close_st)
  next
    case In_pull
    obtain r s' where p: "pull s = (r, s')" by fastforce
    obtain qs t' where q: "run xs s' = (qs, t')" by fastforce
    from Cons.prems In_pull p q have eq: "rs = r # qs" "t' = t" by auto
    from Cons.IH [OF q [unfolded eq(2)]] have ih: "delivered qs @ waiting t = waiting s' @ accepted (open_st s') xs"
      by simp
    consider "r = None" | "r = Some None" | ys where "r = Some (Some ys)" by (cases r) auto
    then show ?thesis
    proof cases
      case 1
      with p pull_blocks have "s' = s" by blast
      with ih eq(1) In_pull 1 show ?thesis by simp
    next
      case 2
      with p pull_ends have "s' = s" by blast
      with ih eq(1) In_pull 2 show ?thesis by simp
    next
      case (3 ys)
      with p pull_takes have "waiting s = ys @ waiting s'" "open_st s' = open_st s" by blast+
      with ih eq(1) In_pull 3 show ?thesis by simp
    qed
  qed
qed simp

text \<open>Once closed and empty, every pull reports the end.\<close>

lemma run_after_end:
  "run xs s = (rs, t) \<Longrightarrow> \<not> open_st s \<Longrightarrow> waiting s = [] \<Longrightarrow> delivered rs = []"
proof -
  assume r: "run xs s = (rs, t)" and c: "\<not> open_st s" "waiting s = []"
  with run_conserves [OF r] c show ?thesis by simp
qed

lemma run_end_is_final:
  "run xs s = (us @ Some None # vs, t) \<Longrightarrow> delivered vs = []"
proof (induction xs arbitrary: s us)
  case (Cons x xs)
  show ?case
  proof (cases x)
    case In_pull
    obtain r s' where p: "pull s = (r, s')" by fastforce
    obtain qs t' where q: "run xs s' = (qs, t')" by fastforce
    show ?thesis
    proof (cases us)
      case Nil
      with Cons.prems In_pull p q have "r = Some None" "vs = qs" by auto
      with pull_ends [of s s'] p q run_after_end [of xs s' qs t'] show ?thesis by simp
    next
      case (Cons u us')
      with Cons.prems In_pull p q Cons.IH [of s' us'] show ?thesis by simp
    qed
  qed (use Cons in auto)
qed simp

end

section \<open>The buffer meets it\<close>

definition stream_open :: "token_buffer \<Rightarrow> bool" where
  "stream_open b \<longleftrightarrow> \<not> buf_done b \<and> \<not> buf_cancelled b"

text \<open>\<open>True\<close> closes by \<open>cancel\<close>, \<open>False\<close> by \<open>set_done\<close>.\<close>

definition buffer_close :: "bool \<Rightarrow> token_buffer \<Rightarrow> token_buffer" where
  "buffer_close cancelled b = (if cancelled then buffer_cancel b else buffer_set_done b)"

definition pull_one :: "token_buffer \<Rightarrow> string list option option \<times> token_buffer" where
  "pull_one b = (let (r, b') = wait_pull b in (map_option (map_option (\<lambda>p. [p])) r, b'))"

definition pull_all :: "token_buffer \<Rightarrow> string list option option \<times> token_buffer" where
  "pull_all b =
     (let (ps, ended, b') = pull_available b
      in (if ps \<noteq> [] then Some (Some ps) else if ended then Some None else None, b'))"

lemma pull_one_cases:
  "pull_one b = (case pieces b of
     [] \<Rightarrow> (if stream_open b then None else Some None, b)
   | p # ps \<Rightarrow> (Some (Some [p]), b\<lparr> pieces := ps \<rparr>))"
  by (auto simp: pull_one_def wait_pull_def stream_open_def split: list.splits)

interpretation stream: closable_queue buffer_push buffer_close pull_one pieces stream_open
  by unfold_locales
    (auto simp: buffer_push_def buffer_close_def buffer_cancel_def buffer_set_done_def stream_open_def
      pull_one_cases split: list.splits if_splits)

section \<open>Property\<close>



end
