(* ===== verification/Jobs.thy ===== *)
theory Jobs
  imports Models Token_Buffer
begin

text \<open>
  \<open>src/server/jobs/jobs.cpp\<close> and \<open>jobs.hpp\<close>: the single-flight worker. HTTP threads enqueue
  and cancel tasks, one worker takes them from the queue and runs them. The state of \<open>Jobs\<close> and
  of all \<open>Task\<close> objects is one record; each critical section of the code is one function on it,
  and \<open>job_step\<close> is the relation of all interleavings of them.

  What the model produces for a task is the environment's choice (\<open>outcome\<close>): the turn itself is
  the subject of \<open>Llm_Generate\<close>. \<open>parse\<close> stands for the reading of a finished text, an argument
  of the steps. A task's callback is represented by its presence and the number of its calls. The
  worker's writes to \<open>current_task_\<close> and to the state of the task that stand next to each other are
  one step; only the worker writes either.
\<close>

section \<open>Tasks\<close>

record 'j task =
  t_state :: job_state
  t_error :: string
  t_error_code :: string
  t_result :: string
  t_reasoning :: string
  t_calls :: "'j parsed_tool_call list"
  t_question :: "parsed_question option"
  t_cancel_requested :: bool
  t_buffer :: token_buffer
  t_on_finished :: bool
  t_notified :: nat
  t_finished_at :: int
  t_context_used :: int
  t_context_size :: int

definition new_task :: "bool \<Rightarrow> 'j task" where
  "new_task callback = \<lparr> t_state = Queued, t_error = [], t_error_code = [], t_result = [],
     t_reasoning = [], t_calls = [], t_question = None, t_cancel_requested = False,
     t_buffer = new_buffer, t_on_finished = callback, t_notified = 0, t_finished_at = 0,
     t_context_used = 0, t_context_size = 0 \<rparr>"

definition set_error_state :: "string \<Rightarrow> string \<Rightarrow> int \<Rightarrow> 'j task \<Rightarrow> 'j task" where
  "set_error_state msg code time t =
     t\<lparr> t_error := msg, t_error_code := code, t_state := Error, t_finished_at := time \<rparr>"

definition set_result :: "string \<Rightarrow> job_state \<Rightarrow> 'j parsed_actions \<Rightarrow> int \<Rightarrow> 'j task \<Rightarrow> 'j task" where
  "set_result answer new_state actions time t =
     (let t = t\<lparr> t_result := answer, t_reasoning := pa_reasoning actions, t_state := new_state,
                t_calls := pa_tool_calls actions, t_question := pa_question actions \<rparr>
      in if is_finished new_state then t\<lparr> t_finished_at := time \<rparr> else t)"

definition release_stream :: "'j task \<Rightarrow> 'j task" where
  "release_stream t =
     (if t_cancel_requested t \<or> t_state t = Cancelled then t\<lparr> t_buffer := buffer_cancel (t_buffer t) \<rparr>
      else t\<lparr> t_buffer := buffer_set_done (t_buffer t) \<rparr>)"

definition request_cancel :: "'j task \<Rightarrow> 'j task" where
  "request_cancel t = t\<lparr> t_cancel_requested := True, t_buffer := buffer_cancel (t_buffer t) \<rparr>"

definition note_context :: "int \<Rightarrow> int \<Rightarrow> 'j task \<Rightarrow> 'j task" where
  "note_context used total_ctx t = t\<lparr> t_context_used := max 0 used, t_context_size := max 0 total_ctx \<rparr>"

definition set_cancelled :: "int \<Rightarrow> 'j task \<Rightarrow> 'j task" where
  "set_cancelled time t =
     t\<lparr> t_state := Cancelled, t_finished_at := time, t_buffer := buffer_cancel (t_buffer t) \<rparr>"

definition set_running :: "'j task \<Rightarrow> 'j task" where
  "set_running t = t\<lparr> t_state := Running \<rparr>"

text \<open>\<open>take_on_finished\<close> moves the callback out; \<open>notify_finished\<close> calls what it moved.\<close>

definition take_on_finished :: "'j task \<Rightarrow> bool \<times> 'j task" where
  "take_on_finished t = (t_on_finished t, t\<lparr> t_on_finished := False \<rparr>)"

definition notify_finished :: "'j task \<Rightarrow> 'j task" where
  "notify_finished t =
     (let (cb, t) = take_on_finished t in if cb then t\<lparr> t_notified := Suc (t_notified t) \<rparr> else t)"

definition finish_task :: "'j task \<Rightarrow> 'j task" where
  "finish_task t = release_stream (notify_finished t)"

section \<open>The prompt of a task and its context numbers\<close>

text \<open>
  All system messages become one leading system message, joined by newlines after the request's
  own system text; the other messages keep their order.
\<close>

fun fold_system :: "string \<Rightarrow> 'j chat_message list \<Rightarrow> string \<times> 'j chat_message list" where
  "fold_system system [] = (system, [])"
| "fold_system system (m # ms) =
     (if role m = role_system
      then fold_system (if msg_content m = [] then system
                        else (if system = [] then [] else system @ [CHR 0x0A]) @ msg_content m) ms
      else let (s, rest) = fold_system system ms in (s, m # rest))"

definition build_messages :: "string \<Rightarrow> 'j chat_message list \<Rightarrow> 'j chat_message list" where
  "build_messages system ms =
     (let (s, rest) = fold_system system ms
      in if s = [] then rest
         else \<lparr> role = role_system, msg_content = s, reasoning_content = [], tool_call_id = [],
                tool_name = [], tool_calls = [] \<rparr> # rest)"

text \<open>\<open>parked\<close> is the session's token count, \<open>live\<close> the live sequence's length.\<close>

definition context_numbers :: "int \<Rightarrow> int \<Rightarrow> bool \<Rightarrow> int \<Rightarrow> int \<times> int" where
  "context_numbers parked live same_session total_ctx =
     (let used = (if parked < live \<and> (same_session \<or> parked = 0) then live else parked);
          used = (if 0 < total_ctx \<and> total_ctx < used then total_ctx else used)
      in (used, total_ctx))"

section \<open>The job runner\<close>

datatype worker_pc =
    W_wait
  | W_fetched "nat option"
  | W_running nat bool
  | W_finishing nat
  | W_stopped "nat option"

record 'j jobs =
  heap :: "nat \<Rightarrow> 'j task"
  registry :: "nat list"
  queue :: "nat list"
  pending_releases :: "string list"
  pending_clones :: "(string \<times> string) list"
  current :: "nat option"
  stopping :: bool
  worker :: worker_pc
  cancelling :: "nat list"
  clock :: int
  opened_think :: bool
  enqueued :: "nat list"
  fetched :: "nat list"
  callbacks :: "nat list"
  engine_calls :: "(string \<times> string) list"
  taken :: "(string \<times> string) list"

text \<open>
  \<open>taken\<close> holds the clones and releases (with an empty first component) of the worker's local
  \<open>NextWork\<close>. The four fields before it are history: the keys in the order they were enqueued and
  fetched, the keys that came with a callback, and the clones and releases the worker applied.
\<close>

definition with_task :: "nat \<Rightarrow> ('j task \<Rightarrow> 'j task) \<Rightarrow> 'j jobs \<Rightarrow> 'j jobs" where
  "with_task k f j = j\<lparr> heap := (heap j)(k := f (heap j k)) \<rparr>"

definition finished_ttl :: int where
  "finished_ttl = 300 * 1000000000"

definition unsafe_gc :: "'j jobs \<Rightarrow> 'j jobs" where
  "unsafe_gc j = j\<lparr> registry := filter (\<lambda>k. \<not> (is_finished (t_state (heap j k)) \<and>
     t_finished_at (heap j k) \<noteq> 0 \<and> finished_ttl < clock j - t_finished_at (heap j k))) (registry j) \<rparr>"

definition enqueue :: "nat \<Rightarrow> 'j task \<Rightarrow> 'j jobs \<Rightarrow> 'j jobs" where
  "enqueue k t j =
     (let j = unsafe_gc j
      in j\<lparr> heap := (heap j)(k := t\<lparr> t_state := Queued \<rparr>), registry := registry j @ [k],
            queue := queue j @ [k], enqueued := enqueued j @ [k],
            callbacks := (if t_on_finished t then callbacks j @ [k] else callbacks j) \<rparr>)"

definition get_task :: "nat \<Rightarrow> 'j jobs \<Rightarrow> 'j task option" where
  "get_task k j = (if k \<in> set (registry j) then Some (heap j k) else None)"

text \<open>
  The two halves of \<open>cancel\<close>. A key found in the queue is taken out under the lock and its task
  finished afterwards; any other task is only asked to stop.
\<close>

definition cancel_lookup :: "nat \<Rightarrow> 'j jobs \<Rightarrow> 'j jobs" where
  "cancel_lookup k j =
     (if k \<notin> set (registry j) then j
      else if k \<in> set (queue j)
      then j\<lparr> queue := remove1 k (queue j), cancelling := k # cancelling j \<rparr>
      else with_task k request_cancel j)"

definition cancel_complete :: "nat \<Rightarrow> 'j jobs \<Rightarrow> 'j jobs" where
  "cancel_complete k j =
     (with_task k (\<lambda>t. finish_task (set_cancelled (clock j) (request_cancel t))) j)
       \<lparr> cancelling := remove1 k (cancelling j) \<rparr>"

definition shutdown_cancel :: "'j jobs \<Rightarrow> 'j jobs" where
  "shutdown_cancel j =
     j\<lparr> heap := (\<lambda>k. if k \<in> set (registry j) \<or> current j = Some k then request_cancel (heap j k)
                     else heap j k) \<rparr>"

text \<open>On the worker thread the engine is called at once; other threads leave it to the worker.\<close>

definition jobs_release_session :: "bool \<Rightarrow> string \<Rightarrow> 'j jobs \<Rightarrow> 'j jobs" where
  "jobs_release_session on_worker sid j =
     (if sid = [] then j
      else if on_worker then j\<lparr> engine_calls := engine_calls j @ [([], sid)] \<rparr>
      else j\<lparr> pending_releases := pending_releases j @ [sid] \<rparr>)"

definition jobs_clone_session :: "string \<Rightarrow> string \<Rightarrow> 'j jobs \<Rightarrow> 'j jobs" where
  "jobs_clone_session from to j =
     (if from = [] \<or> to = [] \<or> from = to then j
      else j\<lparr> pending_clones := pending_clones j @ [(from, to)] \<rparr>)"

text \<open>\<open>wait_next\<close>: the first queued key that is still registered; keys before it are dropped.\<close>

fun pop_registered :: "nat list \<Rightarrow> nat list \<Rightarrow> nat option \<times> nat list" where
  "pop_registered reg [] = (None, [])"
| "pop_registered reg (k # ks) = (if k \<in> set reg then (Some k, ks) else pop_registered reg ks)"

definition wait_next :: "'j jobs \<Rightarrow> 'j jobs" where
  "wait_next j =
     (let (k, rest) = pop_registered (registry j) (queue j)
      in j\<lparr> queue := rest, pending_clones := [], pending_releases := [],
            fetched := fetched j @ (case k of None \<Rightarrow> [] | Some x \<Rightarrow> [x]),
            taken := pending_clones j @ map (\<lambda>s. ([], s)) (pending_releases j),
            worker := W_fetched k \<rparr>)"

text \<open>The clones and releases of the fetched work, applied before its task.\<close>

definition apply_taken :: "'j jobs \<Rightarrow> 'j jobs" where
  "apply_taken j = j\<lparr> engine_calls := engine_calls j @ taken j, taken := [] \<rparr>"

definition start_task :: "nat \<Rightarrow> 'j jobs \<Rightarrow> 'j jobs" where
  "start_task k j =
     (if t_cancel_requested (heap j k)
      then (with_task k (\<lambda>t. finish_task (set_cancelled (clock j) t)) j)\<lparr> worker := W_wait \<rparr>
      else (with_task k set_running j)\<lparr> current := Some k, worker := W_running k False \<rparr>)"

text \<open>\<open>token_cb\<close>: a cancelled task's piece is refused, else it goes to the stream.\<close>

definition accept_piece :: "nat \<Rightarrow> string \<Rightarrow> int \<Rightarrow> int \<Rightarrow> bool \<Rightarrow> 'j jobs \<Rightarrow> 'j jobs" where
  "accept_piece k piece used total_ctx sent j =
     (let j = with_task k (note_context used total_ctx) j
      in if t_cancel_requested (heap j k) then j
         else let first = opened_think j \<and> \<not> sent;
                  push = (\<lambda>b. buffer_push piece
                            (if first then buffer_push (''<think>'' @ [CHR 0x0A]) b else b))
              in (with_task k (\<lambda>t. t\<lparr> t_buffer := push (t_buffer t) \<rparr>) j)
                   \<lparr> worker := W_running k (sent \<or> first) \<rparr>)"

datatype outcome = Out_text string | Out_context_full | Out_failed string

definition k_context_full :: string where
  "k_context_full = ''context_full''"

definition end_turn :: "(string \<Rightarrow> bool \<Rightarrow> string \<times> 'j parsed_actions) \<Rightarrow> nat \<Rightarrow> outcome \<Rightarrow> int \<Rightarrow> int \<Rightarrow>
    'j jobs \<Rightarrow> 'j jobs" where
  "end_turn parse k out used total_ctx j =
     (let j = with_task k (note_context used total_ctx) (j\<lparr> current := None, worker := W_finishing k \<rparr>)
      in case out of
           Out_context_full \<Rightarrow>
             with_task k (set_error_state ''context full: the latest message was rolled back''
               k_context_full (clock j)) j
         | Out_failed msg \<Rightarrow> with_task k (set_error_state msg [] (clock j)) j
         | Out_text full \<Rightarrow>
             (let j = with_task k (\<lambda>t. t\<lparr> t_buffer := set_full_result full (t_buffer t) \<rparr>) j
              in if t_cancel_requested (heap j k)
                 then with_task k (set_result full Cancelled no_actions (clock j)) j
                 else let (visible, actions) = parse full (opened_think j)
                      in with_task k (set_result visible Done actions (clock j)) j))"

definition worker_finish :: "nat \<Rightarrow> 'j jobs \<Rightarrow> 'j jobs" where
  "worker_finish k j = (with_task k finish_task j)\<lparr> worker := W_wait \<rparr>"

section \<open>All interleavings\<close>

inductive job_step :: "(string \<Rightarrow> bool \<Rightarrow> string \<times> 'j parsed_actions) \<Rightarrow> 'j jobs \<Rightarrow> 'j jobs \<Rightarrow> bool"
  for parse where
  step_enqueue: "k \<notin> set (enqueued j) \<Longrightarrow> t_notified t = 0 \<Longrightarrow> job_step parse j (enqueue k t j)"
| step_cancel: "job_step parse j (cancel_lookup k j)"
| step_cancelled: "k \<in> set (cancelling j) \<Longrightarrow> job_step parse j (cancel_complete k j)"
| step_gc: "job_step parse j (unsafe_gc j)"
| step_release: "job_step parse j (jobs_release_session on_worker sid j)"
| step_clone: "job_step parse j (jobs_clone_session a b j)"
| step_stop: "job_step parse j (j\<lparr> stopping := True \<rparr>)"
| step_stop_all: "stopping j \<Longrightarrow> job_step parse j (shutdown_cancel j)"
| step_pull: "job_step parse j (with_task k (\<lambda>t. t\<lparr> t_buffer := snd (wait_pull (t_buffer t)) \<rparr>) j)"
| step_tick: "0 \<le> d \<Longrightarrow> job_step parse j (j\<lparr> clock := clock j + d \<rparr>)"
| step_fetch: "worker j = W_wait \<Longrightarrow> \<not> stopping j \<Longrightarrow>
    queue j \<noteq> [] \<or> pending_releases j \<noteq> [] \<or> pending_clones j \<noteq> [] \<Longrightarrow> job_step parse j (wait_next j)"
| step_leave: "worker j = W_wait \<Longrightarrow> stopping j \<Longrightarrow> job_step parse j (j\<lparr> worker := W_stopped None \<rparr>)"
| step_drop: "worker j = W_fetched k \<Longrightarrow> stopping j \<Longrightarrow> job_step parse j (j\<lparr> worker := W_stopped k \<rparr>)"
| step_idle: "worker j = W_fetched None \<Longrightarrow> \<not> stopping j \<Longrightarrow> job_step parse j ((apply_taken j)\<lparr> worker := W_wait \<rparr>)"
| step_start: "worker j = W_fetched (Some k) \<Longrightarrow> \<not> stopping j \<Longrightarrow> job_step parse j (start_task k (apply_taken j))"
| step_prompt: "worker j = W_running k sent \<Longrightarrow>
    job_step parse j (with_task k (note_context used total_ctx) j)"
| step_piece: "worker j = W_running k sent \<Longrightarrow>
    job_step parse j (accept_piece k piece used total_ctx sent j)"
| step_end: "worker j = W_running k sent \<Longrightarrow> job_step parse j (end_turn parse k out used total_ctx j)"
| step_finish: "worker j = W_finishing k \<Longrightarrow> job_step parse j (worker_finish k j)"

inductive_cases job_stepE: "job_step parse j j'"

definition initial_jobs :: "bool \<Rightarrow> 'j jobs" where
  "initial_jobs think = \<lparr> heap = (\<lambda>k. new_task False), registry = [], queue = [],
     pending_releases = [], pending_clones = [], current = None, stopping = False, worker = W_wait,
     cancelling = [], clock = 1, opened_think = think, enqueued = [], fetched = [], callbacks = [],
     engine_calls = [], taken = [] \<rparr>"

inductive reachable :: "(string \<Rightarrow> bool \<Rightarrow> string \<times> 'j parsed_actions) \<Rightarrow> 'j jobs \<Rightarrow> bool"
  for parse where
  reach_init: "reachable parse (initial_jobs think)"
| reach_step: "reachable parse j \<Longrightarrow> job_step parse j j' \<Longrightarrow> reachable parse j'"

end
