(* ===== verification/Jobs_Proofs.thy ===== *)
theory Jobs_Proofs
  imports Jobs
begin

text \<open>
  Invariants of \<open>Jobs\<close> over all interleavings of its critical sections: where each task is, that
  its callback runs once, that one task runs at a time, that tasks start in the order they were
  enqueued, that a terminal state is final, and that the queue drains. The last section shows what
  a shutdown leaves behind.
\<close>

section \<open>Where a task is\<close>

datatype place = In_queue | In_cancel | In_fetched | In_running | In_finishing | In_dropped | Settled

fun worker_key :: "worker_pc \<Rightarrow> nat option" where
  "worker_key W_wait = None"
| "worker_key (W_fetched k) = k"
| "worker_key (W_running k sent) = Some k"
| "worker_key (W_finishing k) = Some k"
| "worker_key (W_stopped k) = k"

fun worker_place :: "worker_pc \<Rightarrow> place" where
  "worker_place (W_fetched k) = In_fetched"
| "worker_place (W_running k sent) = In_running"
| "worker_place (W_finishing k) = In_finishing"
| "worker_place (W_stopped k) = In_dropped"
| "worker_place W_wait = Settled"

definition place_of :: "'j jobs \<Rightarrow> nat \<Rightarrow> place" where
  "place_of j k =
     (if k \<in> set (queue j) then In_queue
      else if k \<in> set (cancelling j) then In_cancel
      else if worker_key (worker j) = Some k then worker_place (worker j)
      else Settled)"

definition place_ok :: "bool \<Rightarrow> place \<Rightarrow> 'j task \<Rightarrow> bool" where
  "place_ok callback p t \<longleftrightarrow>
     (case p of
        In_running \<Rightarrow> t_state t = Running \<and> t_notified t = 0 \<and> t_on_finished t = callback
      | In_finishing \<Rightarrow> is_finished (t_state t) \<and> t_notified t = 0 \<and> t_on_finished t = callback
      | Settled \<Rightarrow> is_finished (t_state t) \<and> t_notified t = (if callback then 1 else 0) \<and> \<not> t_on_finished t
      | _ \<Rightarrow> t_state t = Queued \<and> t_notified t = 0 \<and> t_on_finished t = callback)"

definition keys_ok :: "'j jobs \<Rightarrow> bool" where
  "keys_ok j \<longleftrightarrow> distinct (enqueued j) \<and>
     distinct (queue j @ cancelling j @ (case worker_key (worker j) of None \<Rightarrow> [] | Some k \<Rightarrow> [k])) \<and>
     set (queue j) \<subseteq> set (enqueued j) \<and> set (cancelling j) \<subseteq> set (enqueued j) \<and>
     (\<forall>k. worker_key (worker j) = Some k \<longrightarrow> k \<in> set (enqueued j)) \<and>
     set (callbacks j) \<subseteq> set (enqueued j) \<and> set (queue j) \<subseteq> set (registry j) \<and>
     subseq (fetched j @ queue j) (enqueued j) \<and>
     current j = (case worker j of W_running k sent \<Rightarrow> Some k | _ \<Rightarrow> None)"

definition tasks_ok :: "'j jobs \<Rightarrow> bool" where
  "tasks_ok j \<longleftrightarrow>
     (\<forall>k \<in> set (enqueued j). place_ok (k \<in> set (callbacks j)) (place_of j k) (heap j k))"

definition job_inv :: "'j jobs \<Rightarrow> bool" where
  "job_inv j \<longleftrightarrow> keys_ok j \<and> tasks_ok j"

section \<open>Steps that only touch one task\<close>

lemma with_task_simps [simp]:
  "registry (with_task k f j) = registry j" "queue (with_task k f j) = queue j"
  "cancelling (with_task k f j) = cancelling j" "worker (with_task k f j) = worker j"
  "enqueued (with_task k f j) = enqueued j" "fetched (with_task k f j) = fetched j"
  "callbacks (with_task k f j) = callbacks j" "current (with_task k f j) = current j"
  "stopping (with_task k f j) = stopping j" "clock (with_task k f j) = clock j"
  "opened_think (with_task k f j) = opened_think j"
  "heap (with_task k f j) = (heap j)(k := f (heap j k))"
  "pending_releases (with_task k f j) = pending_releases j"
  "pending_clones (with_task k f j) = pending_clones j"
  by (simp_all add: with_task_def)

text \<open>What the accounting of a task looks at; updates that keep it keep the invariant.\<close>

definition same_standing :: "'j task \<Rightarrow> 'j task \<Rightarrow> bool" where
  "same_standing t u \<longleftrightarrow> t_state u = t_state t \<and> t_notified u = t_notified t \<and> t_on_finished u = t_on_finished t"

lemma same_standing_ok: "same_standing t u \<Longrightarrow> place_ok c p u = place_ok c p t"
  by (cases p) (simp_all add: same_standing_def place_ok_def)

lemma same_standing_simps [simp]:
  "same_standing t t" "same_standing t (request_cancel t)" "same_standing t (note_context a b t)"
  "same_standing t (t\<lparr> t_buffer := b' \<rparr>)"
  by (simp_all add: same_standing_def request_cancel_def note_context_def)

lemma note_context_cancel [simp]: "t_cancel_requested (note_context a b t) = t_cancel_requested t"
  by (simp add: note_context_def)

lemma inv_same_standing:
  assumes "job_inv j" and "\<And>k. same_standing (heap j k) (h k)"
  shows "job_inv (j\<lparr> heap := h \<rparr>)"
proof -
  have "place_of (j\<lparr> heap := h \<rparr>) = place_of j" by (simp add: place_of_def fun_eq_iff)
  moreover have "keys_ok (j\<lparr> heap := h \<rparr>) = keys_ok j" by (simp add: keys_ok_def)
  moreover have "place_ok c p (h k) = place_ok c p (heap j k)" for c p k
    using assms(2) by (rule same_standing_ok)
  ultimately show ?thesis using assms(1) by (simp add: job_inv_def tasks_ok_def)
qed

lemma inv_with_task:
  "job_inv j \<Longrightarrow> same_standing (heap j k) (f (heap j k)) \<Longrightarrow> job_inv (with_task k f j)"
  unfolding with_task_def by (rule inv_same_standing) auto

section \<open>Preservation\<close>

lemma finish_standing:
  "t_state (finish_task t) = t_state t" "\<not> t_on_finished (finish_task t)"
  "t_notified (finish_task t) = (if t_on_finished t then Suc (t_notified t) else t_notified t)"
  by (simp_all add: finish_task_def release_stream_def notify_finished_def take_on_finished_def)

lemma gc_keeps:
  assumes "job_inv j"
  shows "job_inv (unsafe_gc j)" "set (queue j) \<subseteq> set (registry (unsafe_gc j))"
proof -
  have q: "k \<in> set (queue j) \<Longrightarrow> \<not> is_finished (t_state (heap j k))" for k
    using assms by (force simp: job_inv_def tasks_ok_def keys_ok_def place_of_def place_ok_def is_finished_def)
  then show sub: "set (queue j) \<subseteq> set (registry (unsafe_gc j))"
    using assms by (auto simp: unsafe_gc_def job_inv_def keys_ok_def)
  have "place_of (unsafe_gc j) = place_of j" by (simp add: place_of_def unsafe_gc_def fun_eq_iff)
  with assms sub show "job_inv (unsafe_gc j)"
    by (simp add: job_inv_def tasks_ok_def keys_ok_def) (simp add: unsafe_gc_def)
qed

text \<open>The common shape of the other steps: one task changes and moves.\<close>

lemma inv_move:
  assumes "job_inv j" and "keys_ok j'" and "enqueued j' = enqueued j" and "callbacks j' = callbacks j"
    and "\<And>i. i \<noteq> k \<Longrightarrow> heap j' i = heap j i" and "\<And>i. i \<noteq> k \<Longrightarrow> place_of j' i = place_of j i"
    and "k \<in> set (enqueued j) \<Longrightarrow> place_ok (k \<in> set (callbacks j)) (place_of j k) (heap j k) \<Longrightarrow>
      place_ok (k \<in> set (callbacks j)) (place_of j' k) (heap j' k)"
  shows "job_inv j'"
proof -
  have "place_ok (i \<in> set (callbacks j)) (place_of j' i) (heap j' i)" if "i \<in> set (enqueued j)" for i
    using that assms(1,5,6,7) by (cases "i = k") (auto simp: job_inv_def tasks_ok_def)
  with assms(2-4) show ?thesis by (simp add: job_inv_def tasks_ok_def)
qed

lemma enqueue_keeps:
  assumes "job_inv j" and "k \<notin> set (enqueued j)" and "t_notified t = 0"
  shows "job_inv (enqueue k t j)"
proof -
  let ?g = "unsafe_gc j"
  have g: "keys_ok ?g" "tasks_ok ?g" using gc_keeps(1) [OF assms(1)] by (simp_all add: job_inv_def)
  have fld: "enqueued ?g = enqueued j" by (simp add: unsafe_gc_def)
  have k: "k \<notin> set (queue ?g)" "k \<notin> set (cancelling ?g)" "worker_key (worker ?g) \<noteq> Some k"
    "k \<notin> set (callbacks ?g)"
    using g(1) assms(2) fld by (auto simp: keys_ok_def)
  have "subseq (fetched ?g @ queue ?g) (enqueued ?g)" using g(1) by (simp add: keys_ok_def)
  then have "subseq (fetched ?g @ queue ?g @ [k]) (enqueued ?g @ [k])"
    by (metis append_assoc list_emb_append_mono subseq_order.order_refl)
  then have keys: "keys_ok (enqueue k t j)"
    using g(1) k assms(2) fld
    by (auto simp: keys_ok_def enqueue_def Let_def split: option.splits)
  have place: "place_of (enqueue k t j) i = (if i = k then In_queue else place_of ?g i)" for i
    by (auto simp: place_of_def enqueue_def Let_def)
  have "place_ok (i \<in> set (callbacks (enqueue k t j))) (place_of (enqueue k t j) i) (heap (enqueue k t j) i)"
    if "i \<in> set (enqueued (enqueue k t j))" for i
  proof (cases "i = k")
    case True
    with that k assms(3) show ?thesis by (simp add: place) (simp add: enqueue_def Let_def place_ok_def)
  next
    case False
    with that g(2) show ?thesis by (auto simp: place tasks_ok_def) (auto simp: enqueue_def Let_def)
  qed
  with keys show ?thesis by (simp add: job_inv_def tasks_ok_def)
qed

lemma subseq_remove1: "subseq (remove1 k xs) xs"
  by (induction xs) auto

lemma cancel_lookup_keeps:
  assumes "job_inv j"
  shows "job_inv (cancel_lookup k j)"
proof (cases "k \<in> set (registry j) \<and> k \<in> set (queue j)")
  case True
  have keys: "keys_ok j" using assms by (simp add: job_inv_def)
  then have d: "distinct (queue j)" by (simp add: keys_ok_def)
  show ?thesis
  proof (rule inv_move [OF assms, where k = k])
    have "subseq (fetched j @ remove1 k (queue j)) (fetched j @ queue j)"
      by (intro list_emb_append_mono subseq_order.order_refl subseq_remove1)
    then show "keys_ok (cancel_lookup k j)"
      using True keys set_remove1_subset [of k "queue j"]
      by (auto simp: keys_ok_def cancel_lookup_def d split: option.splits intro: subseq_order.order_trans)
  qed (use True d in \<open>auto simp: cancel_lookup_def place_of_def place_ok_def\<close>)
qed (use assms in \<open>auto simp: cancel_lookup_def intro: inv_with_task\<close>)

lemma cancel_complete_keeps:
  assumes "job_inv j" and "k \<in> set (cancelling j)"
  shows "job_inv (cancel_complete k j)"
proof (rule inv_move [OF assms(1), where k = k])
  have keys: "keys_ok j" using assms by (simp add: job_inv_def)
  then show "keys_ok (cancel_complete k j)"
    using set_remove1_subset [of k "cancelling j"]
    by (auto simp: keys_ok_def cancel_complete_def split: option.splits)
  have d: "distinct (cancelling j)" "k \<notin> set (queue j)" "worker_key (worker j) \<noteq> Some k"
    using keys assms(2) by (auto simp: keys_ok_def)
  show "place_of (cancel_complete k j) i = place_of j i" if "i \<noteq> k" for i
    using that d by (simp add: place_of_def cancel_complete_def)
  assume "place_ok (k \<in> set (callbacks j)) (place_of j k) (heap j k)"
  with d assms(2) show "place_ok (k \<in> set (callbacks j)) (place_of (cancel_complete k j) k)
      (heap (cancel_complete k j) k)"
    by (auto simp: place_of_def cancel_complete_def place_ok_def finish_standing set_cancelled_def
        request_cancel_def is_finished_def)
qed (simp_all add: cancel_complete_def)

lemma pop_queued: "set q \<subseteq> set reg \<Longrightarrow>
    pop_registered reg q = (case q of [] \<Rightarrow> (None, []) | k # ks \<Rightarrow> (Some k, ks))"
  by (cases q) auto

lemma wait_next_keeps:
  assumes "job_inv j" and "worker j = W_wait"
  shows "job_inv (wait_next j)"
proof (cases "queue j")
  case Nil
  have "keys_ok j" using assms by (simp add: job_inv_def)
  with Nil assms(2) have "keys_ok (wait_next j)" by (simp add: keys_ok_def wait_next_def)
  moreover have "place_of (wait_next j) i = place_of j i" for i
    using Nil assms(2) by (simp add: place_of_def wait_next_def)
  ultimately show ?thesis
    using assms(1) by (simp add: job_inv_def tasks_ok_def) (simp add: wait_next_def split: prod.split)
next
  case (Cons k ks)
  have keys: "keys_ok j" using assms by (simp add: job_inv_def)
  then have next_eq: "wait_next j = j\<lparr> queue := ks, pending_clones := [], pending_releases := [],
      fetched := fetched j @ [k], worker := W_fetched (Some k),
      taken := pending_clones j @ map (\<lambda>s. ([], s)) (pending_releases j) \<rparr>"
    by (simp add: keys_ok_def wait_next_def pop_queued Cons)
  show ?thesis
  proof (rule inv_move [OF assms(1), where k = k])
    show "keys_ok (wait_next j)" using keys Cons assms(2) by (simp add: next_eq keys_ok_def)
  qed (use Cons assms(2) keys in \<open>auto simp: next_eq place_of_def place_ok_def keys_ok_def\<close>)
qed

lemma start_task_keeps:
  assumes "job_inv j" and "worker j = W_fetched (Some k)"
  shows "job_inv (start_task k j)"
proof (rule inv_move [OF assms(1), where k = k])
  have keys: "keys_ok j" using assms by (simp add: job_inv_def)
  then show "keys_ok (start_task k j)" using assms(2) by (auto simp: keys_ok_def start_task_def)
  have d: "k \<notin> set (queue j)" "k \<notin> set (cancelling j)" using keys assms(2) by (auto simp: keys_ok_def)
  show "place_of (start_task k j) i = place_of j i" if "i \<noteq> k" for i
    using that assms(2) by (simp add: place_of_def start_task_def)
  assume "place_ok (k \<in> set (callbacks j)) (place_of j k) (heap j k)"
  with d assms(2) show "place_ok (k \<in> set (callbacks j)) (place_of (start_task k j) k)
      (heap (start_task k j) k)"
    by (auto simp: place_of_def start_task_def place_ok_def finish_standing set_cancelled_def
        set_running_def is_finished_def)
qed (simp_all add: start_task_def)

lemma accept_piece_heap:
  "\<exists>h b. accept_piece k piece used total_ctx sent j = j\<lparr> heap := h, worker := W_running k b \<rparr> \<and>
     (\<forall>i. same_standing (heap j i) (h i))" if "worker j = W_running k sent"
proof (cases "t_cancel_requested (heap j k)")
  case True
  with that show ?thesis
    by (intro exI [where x = "(heap j)(k := note_context used total_ctx (heap j k))"] exI [where x = sent])
      (cases j, simp add: accept_piece_def with_task_def)
next
  case False
  let ?j = "accept_piece k piece used total_ctx sent j"
  have "?j = j\<lparr> heap := heap ?j, worker := W_running k (sent \<or> opened_think j) \<rparr>"
    using False by (cases sent; cases "opened_think j")
      (auto simp: accept_piece_def with_task_def Let_def note_context_def)
  moreover have "same_standing (heap j i) (heap ?j i)" for i
    using False by (auto simp: accept_piece_def with_task_def Let_def note_context_def same_standing_def)
  ultimately show ?thesis by blast
qed

lemma inv_worker_same:
  fixes j :: "'j jobs"
  assumes "job_inv j" and "worker_key w = worker_key (worker j)"
    and "\<And>k c (t :: 'j task). worker_key w = Some k \<Longrightarrow>
      place_ok c (worker_place w) t = place_ok c (worker_place (worker j)) t"
    and "current j = (case w of W_running k sent \<Rightarrow> Some k | _ \<Rightarrow> None)"
  shows "job_inv (j\<lparr> worker := w \<rparr>)"
proof -
  have "place_ok c (place_of (j\<lparr> worker := w \<rparr>) i) t = place_ok c (place_of j i) t" for c i and t :: "'j task"
    using assms(2) assms(3) [of i c t] by (cases "worker_key w = Some i") (simp_all add: place_of_def)
  with assms(1,2,4) show ?thesis by (simp add: job_inv_def tasks_ok_def keys_ok_def)
qed

lemma accept_piece_keeps:
  assumes "job_inv j" and "worker j = W_running k sent"
  shows "job_inv (accept_piece k piece used total_ctx sent j)"
proof -
  obtain h b where eq: "accept_piece k piece used total_ctx sent j = j\<lparr> heap := h, worker := W_running k b \<rparr>"
    and h: "\<And>i. same_standing (heap j i) (h i)"
    using accept_piece_heap [OF assms(2)] by metis
  have "job_inv (j\<lparr> heap := h \<rparr>)" using assms(1) h by (rule inv_same_standing)
  moreover have "current j = Some k" using assms by (simp add: job_inv_def keys_ok_def)
  ultimately have "job_inv ((j\<lparr> heap := h \<rparr>)\<lparr> worker := W_running k b \<rparr>)"
    using assms(2) by (intro inv_worker_same) simp_all
  then show ?thesis by (simp add: eq)
qed

lemma end_turn_shape:
  "end_turn parse k out used total_ctx j = j\<lparr> current := None, worker := W_finishing k,
     heap := (heap j)(k := heap (end_turn parse k out used total_ctx j) k) \<rparr>"
  by (cases out) (auto simp: end_turn_def Let_def with_task_def note_context_def split: prod.split)

lemma end_turn_task:
  "is_finished (t_state (heap (end_turn parse k out used total_ctx j) k))"
  "t_notified (heap (end_turn parse k out used total_ctx j) k) = t_notified (heap j k)"
  "t_on_finished (heap (end_turn parse k out used total_ctx j) k) = t_on_finished (heap j k)"
  by (cases out; auto simp: end_turn_def Let_def with_task_def note_context_def set_error_state_def
      set_result_def is_finished_def split: prod.split)+

lemma end_turn_keeps:
  assumes "job_inv j" and "worker j = W_running k sent"
  shows "job_inv (end_turn parse k out used total_ctx j)"
proof -
  obtain u where eq: "end_turn parse k out used total_ctx j = j\<lparr> current := None,
       worker := W_finishing k, heap := (heap j)(k := u) \<rparr>" and u: "is_finished (t_state u)"
     "t_notified u = t_notified (heap j k)" "t_on_finished u = t_on_finished (heap j k)"
    using end_turn_shape [of parse k out used total_ctx j] end_turn_task [of parse k out used total_ctx j]
    by blast
  have keys: "keys_ok j" using assms by (simp add: job_inv_def)
  then have d: "k \<notin> set (queue j)" "k \<notin> set (cancelling j)" using assms(2) by (auto simp: keys_ok_def)
  show ?thesis unfolding eq
    by (rule inv_move [OF assms(1), where k = k])
      (use keys assms(2) d u in \<open>auto simp: keys_ok_def place_of_def place_ok_def\<close>)
qed

lemma worker_finish_keeps:
  assumes "job_inv j" and "worker j = W_finishing k"
  shows "job_inv (worker_finish k j)"
proof -
  have keys: "keys_ok j" using assms by (simp add: job_inv_def)
  then have d: "k \<notin> set (queue j)" "k \<notin> set (cancelling j)" using assms(2) by (auto simp: keys_ok_def)
  show ?thesis
    by (rule inv_move [OF assms(1), where k = k])
      (use keys assms(2) d in \<open>auto simp: worker_finish_def keys_ok_def place_of_def place_ok_def finish_standing\<close>)
qed

lemma other_fields_keep:
  assumes "job_inv j"
  shows "job_inv (j\<lparr> stopping := True \<rparr>)" "job_inv (j\<lparr> clock := c \<rparr>)" "job_inv (j\<lparr> pending_releases := r \<rparr>)"
    "job_inv (j\<lparr> pending_clones := p \<rparr>)"
  using assms by (auto simp: job_inv_def keys_ok_def tasks_ok_def place_of_def)

lemma worker_moves_keep:
  assumes "job_inv j"
  shows "worker j = W_wait \<Longrightarrow> job_inv (j\<lparr> worker := W_stopped None \<rparr>)"
    "worker j = W_fetched None \<Longrightarrow> job_inv (j\<lparr> worker := W_wait \<rparr>)"
    "worker j = W_fetched k \<Longrightarrow> job_inv (j\<lparr> worker := W_stopped k \<rparr>)"
proof -
  have cur: "current j = (case worker j of W_running k sent \<Rightarrow> Some k | _ \<Rightarrow> None)"
    using assms by (simp add: job_inv_def keys_ok_def)
  show "worker j = W_wait \<Longrightarrow> job_inv (j\<lparr> worker := W_stopped None \<rparr>)"
    "worker j = W_fetched None \<Longrightarrow> job_inv (j\<lparr> worker := W_wait \<rparr>)"
    "worker j = W_fetched k \<Longrightarrow> job_inv (j\<lparr> worker := W_stopped k \<rparr>)"
    using cur by (intro inv_worker_same [OF assms]; simp add: place_ok_def)+
qed

lemma engine_calls_keep: "job_inv j \<Longrightarrow> job_inv (j\<lparr> engine_calls := e \<rparr>)"
  by (auto simp: job_inv_def keys_ok_def tasks_ok_def place_of_def)

lemma apply_taken_keeps: "job_inv j \<Longrightarrow> job_inv (apply_taken j)"
  by (auto simp: apply_taken_def job_inv_def keys_ok_def tasks_ok_def place_of_def)

lemma apply_taken_fields [simp]:
  "worker (apply_taken j) = worker j" "heap (apply_taken j) = heap j" "queue (apply_taken j) = queue j"
  "cancelling (apply_taken j) = cancelling j" "enqueued (apply_taken j) = enqueued j"
  "fetched (apply_taken j) = fetched j" "current (apply_taken j) = current j" "clock (apply_taken j) = clock j"
  by (simp_all add: apply_taken_def)

lemma requests_keep:
  assumes "job_inv j"
  shows "job_inv (jobs_release_session on_worker sid j)" "job_inv (jobs_clone_session a b j)"
    "job_inv (shutdown_cancel j)" "job_inv (with_task k (\<lambda>t. t\<lparr> t_buffer := f t \<rparr>) j)"
    "job_inv (with_task k (note_context used total_ctx) j)"
proof -
  show "job_inv (shutdown_cancel j)" unfolding shutdown_cancel_def using assms
    by (intro inv_same_standing) auto
  show "job_inv (with_task k (\<lambda>t. t\<lparr> t_buffer := f t \<rparr>) j)"
    "job_inv (with_task k (note_context used total_ctx) j)"
    using assms by (intro inv_with_task; simp)+
qed (use assms in \<open>auto simp: jobs_release_session_def jobs_clone_session_def
       intro: engine_calls_keep other_fields_keep\<close>)

lemma job_step_keeps:
  assumes "job_step parse j j'" and "job_inv j"
  shows "job_inv j'"
  using assms(1)
proof cases
  case (step_enqueue k t)
  show ?thesis unfolding step_enqueue(1) using assms(2) step_enqueue(2,3) by (rule enqueue_keeps)
next
  case (step_cancelled k)
  show ?thesis unfolding step_cancelled(1) using assms(2) step_cancelled(2) by (rule cancel_complete_keeps)
next
  case step_fetch
  show ?thesis unfolding step_fetch(1) using assms(2) step_fetch(2) by (rule wait_next_keeps)
next
  case (step_start k)
  show ?thesis unfolding step_start(1) using assms(2) step_start(2)
    by (intro start_task_keeps apply_taken_keeps) simp_all
next
  case (step_piece k sent piece used total_ctx)
  show ?thesis unfolding step_piece(1) using assms(2) step_piece(2) by (rule accept_piece_keeps)
next
  case (step_end k sent out used total_ctx)
  show ?thesis unfolding step_end(1) using assms(2) step_end(2) by (rule end_turn_keeps)
next
  case (step_finish k)
  show ?thesis unfolding step_finish(1) using assms(2) step_finish(2) by (rule worker_finish_keeps)
next
  case step_leave
  show ?thesis unfolding step_leave(1) using assms(2) step_leave(2) by (rule worker_moves_keep)
next
  case (step_drop k)
  show ?thesis unfolding step_drop(1) using assms(2) step_drop(2) by (rule worker_moves_keep)
next
  case step_idle
  show ?thesis unfolding step_idle(1) using assms(2) step_idle(2)
    by (intro worker_moves_keep(2) apply_taken_keeps) simp_all
qed (simp_all only: cancel_lookup_keeps [OF assms(2)] gc_keeps(1) [OF assms(2)] requests_keep [OF assms(2)]
    other_fields_keep [OF assms(2)])

lemma initial_inv: "job_inv (initial_jobs think)"
  by (simp add: initial_jobs_def job_inv_def keys_ok_def tasks_ok_def)

lemma reachable_inv: "reachable parse j \<Longrightarrow> job_inv j"
  by (induction rule: reachable.induct) (auto intro: initial_inv job_step_keeps)

section \<open>What holds in every reachable state\<close>

lemma reachable_steps: "(job_step parse)\<^sup>*\<^sup>* j j' \<Longrightarrow> reachable parse j \<Longrightarrow> reachable parse j'"
  by (induction rule: rtranclp_induct) (auto intro: reach_step)

lemma reachable_task:
  "reachable parse j \<Longrightarrow> k \<in> set (enqueued j) \<Longrightarrow> place_ok (k \<in> set (callbacks j)) (place_of j k) (heap j k)"
  using reachable_inv by (auto simp: job_inv_def tasks_ok_def)

text \<open>A run of the demonstration: one task with a callback goes through the worker.\<close>

definition plain_parse :: "string \<Rightarrow> bool \<Rightarrow> string \<times> nat parsed_actions" where
  "plain_parse full think = (full, no_actions)"

definition demo_queued :: "nat jobs" where
  "demo_queued = enqueue 2 (new_task False) (enqueue 1 (new_task True) (initial_jobs False))"

definition demo_running :: "nat jobs" where
  "demo_running = start_task 1 (apply_taken (wait_next demo_queued))"

definition demo_done :: "nat jobs" where
  "demo_done = worker_finish 1 (end_turn plain_parse 1 (Out_text ''hi'') 3 8 demo_running)"

lemma demo_queued_reachable: "reachable plain_parse demo_queued"
proof -
  have "job_step plain_parse (initial_jobs False) (enqueue 1 (new_task True) (initial_jobs False))"
    by (rule step_enqueue) (simp_all add: initial_jobs_def new_task_def)
  moreover have "job_step plain_parse (enqueue 1 (new_task True) (initial_jobs False)) demo_queued"
    unfolding demo_queued_def
    by (rule step_enqueue) (simp_all add: enqueue_def unsafe_gc_def Let_def initial_jobs_def new_task_def)
  ultimately show ?thesis by (blast intro: reach_init reach_step)
qed

lemma demo_fetched: "worker (wait_next demo_queued) = W_fetched (Some 1)" "\<not> stopping (wait_next demo_queued)"
  "worker demo_queued = W_wait" "\<not> stopping demo_queued" "queue demo_queued = [1, 2]"
  by code_simp+

lemma demo_fetched_reachable: "reachable plain_parse (wait_next demo_queued)"
  by (rule reach_step [OF demo_queued_reachable step_fetch]) (simp_all add: demo_fetched)

lemma demo_running_reachable: "reachable plain_parse demo_running"
  unfolding demo_running_def
  by (rule reach_step [OF demo_fetched_reachable step_start]) (simp_all add: demo_fetched)

lemma demo_done_reachable: "reachable plain_parse demo_done"
proof -
  have "worker demo_running = W_running 1 False" by code_simp
  then have "reachable plain_parse (end_turn plain_parse 1 (Out_text ''hi'') 3 8 demo_running)"
    by (rule reach_step [OF demo_running_reachable step_end])
  moreover have "worker (end_turn plain_parse 1 (Out_text ''hi'') 3 8 demo_running) = W_finishing 1" by code_simp
  ultimately show ?thesis unfolding demo_done_def by (blast intro: reach_step step_finish)
qed

text \<open>
  C8. No task is lost and its callback runs once: at every moment of every interleaving a task that
  is no longer queued, not being cancelled and not held by the worker is in a terminal state, its
  callback has run exactly once if it came with one, and no callback has ever run twice.
\<close>

theorem tasks_finish_and_notify_once:
  assumes "reachable parse j" and "k \<in> set (enqueued j)"
  shows "t_notified (heap j k) \<le> (if k \<in> set (callbacks j) then 1 else 0) \<and>
    (k \<notin> set (queue j) \<and> k \<notin> set (cancelling j) \<and> worker_key (worker j) \<noteq> Some k \<longrightarrow>
       is_finished (t_state (heap j k)) \<and>
       t_notified (heap j k) = (if k \<in> set (callbacks j) then 1 else 0))"
  using reachable_task [OF assms]
  by (auto simp: place_of_def place_ok_def split: if_splits place.splits)

theorem tasks_finish_and_notify_once_witness:
  "is_finished (t_state (heap demo_done 1)) \<and> t_notified (heap demo_done 1) = 1 \<and> t_notified (heap demo_done 2) = 0"
proof -
  have c: "1 \<in> set (enqueued demo_done)" "1 \<in> set (callbacks demo_done)" "2 \<in> set (enqueued demo_done)"
    "2 \<notin> set (callbacks demo_done)" "1 \<notin> set (queue demo_done)" "1 \<notin> set (cancelling demo_done)"
    "worker_key (worker demo_done) = None"
    by code_simp+
  from tasks_finish_and_notify_once [OF demo_done_reachable c(1)]
    tasks_finish_and_notify_once [OF demo_done_reachable c(3)] c
  show ?thesis by simp
qed

text \<open>
  C10. Single flight: two running tasks are the same task, and it is the one the worker holds,
  whatever the HTTP threads do meanwhile.
\<close>

theorem one_task_runs_at_a_time:
  assumes "reachable parse j" and "k \<in> set (enqueued j)" and "k' \<in> set (enqueued j)"
    and "t_state (heap j k) = Running" and "t_state (heap j k') = Running"
  shows "k = k' \<and> worker_key (worker j) = Some k"
proof -
  have "worker_key (worker j) = Some i" if "i \<in> set (enqueued j)" "t_state (heap j i) = Running" for i
    using reachable_task [OF assms(1) that(1)] that(2)
    by (auto simp: place_of_def place_ok_def is_finished_def split: if_splits)
  from this [OF assms(2,4)] this [OF assms(3,5)] show ?thesis by simp
qed

theorem one_task_runs_at_a_time_witness:
  "worker_key (worker demo_running) = Some 1 \<and> t_state (heap demo_running 2) \<noteq> Running"
proof -
  have c: "1 \<in> set (enqueued demo_running)" "2 \<in> set (enqueued demo_running)"
    "t_state (heap demo_running 1) = Running"
    by code_simp+
  with one_task_runs_at_a_time [OF demo_running_reachable c(1,1,3,3)]
    one_task_runs_at_a_time [OF demo_running_reachable c(1,2,3)]
  show ?thesis by auto
qed

text \<open>
  Tasks are started in the order in which they were submitted: what the worker has fetched so
  far, followed by what is still queued, is the submission order with the cancelled tasks left out.
\<close>

theorem tasks_start_in_submission_order:
  assumes "reachable parse j"
  shows "subseq (fetched j @ queue j) (enqueued j)"
  using reachable_inv [OF assms] by (simp add: job_inv_def keys_ok_def)

theorem tasks_start_in_submission_order_witness: "subseq [1, 2] (enqueued demo_running)"
proof -
  have "fetched demo_running = [1]" "queue demo_running = [2]" by code_simp+
  with tasks_start_in_submission_order [OF demo_running_reachable] show ?thesis by simp
qed

section \<open>A terminal state is final\<close>

text \<open>What a client reads of a task once it has finished.\<close>

definition answer_of :: "'j task \<Rightarrow> job_state \<times> string \<times> string \<times> string \<times> string \<times> 'j parsed_tool_call list \<times> parsed_question option" where
  "answer_of t = (t_state t, t_result t, t_reasoning t, t_error t, t_error_code t, t_calls t, t_question t)"

lemma answer_of_updates [simp]:
  "answer_of (request_cancel t) = answer_of t" "answer_of (note_context a b t) = answer_of t"
  "answer_of (finish_task t) = answer_of t" "answer_of (t\<lparr> t_buffer := b' \<rparr>) = answer_of t"
  by (simp_all add: answer_of_def request_cancel_def note_context_def finish_task_def release_stream_def
      notify_finished_def take_on_finished_def)

lemma not_finished_at:
  "place_ok c p t \<Longrightarrow> p \<noteq> In_finishing \<Longrightarrow> p \<noteq> Settled \<Longrightarrow> \<not> is_finished (t_state t)"
  by (cases p) (auto simp: place_ok_def is_finished_def)

lemma step_keeps_answer:
  assumes "job_inv j" and "k \<in> set (enqueued j)" and "is_finished (t_state (heap j k))" and "job_step parse j j'"
  shows "answer_of (heap j' k) = answer_of (heap j k)"
proof -
  have ok: "place_ok (k \<in> set (callbacks j)) (place_of j k) (heap j k)" and keys: "keys_ok j"
    using assms(1,2) by (simp_all add: job_inv_def tasks_ok_def)
  note busy = not_finished_at [OF ok]
  show ?thesis using assms(4)
  proof cases
    case (step_enqueue k' t)
    with assms(2) show ?thesis by (auto simp: enqueue_def unsafe_gc_def Let_def)
  next
    case (step_cancel k')
    then show ?thesis by (simp add: cancel_lookup_def)
  next
    case (step_cancelled k')
    moreover have "place_of j k' = In_cancel"
      using step_cancelled(2) keys by (auto simp: place_of_def keys_ok_def)
    then have "k \<noteq> k'" using busy assms(3) by auto
    ultimately show ?thesis by (simp add: cancel_complete_def)
  next
    case step_stop_all
    then show ?thesis by (simp add: shutdown_cancel_def)
  next
    case step_fetch
    then show ?thesis by (simp add: wait_next_def split: prod.split)
  next
    case (step_start k')
    moreover have "k \<noteq> k'" using busy assms(3) step_start(2) keys
      by (auto simp: place_of_def keys_ok_def split: if_splits)
    ultimately show ?thesis by (simp add: start_task_def)
  next
    case (step_piece k' sent piece used total_ctx)
    then show ?thesis by (simp add: accept_piece_def Let_def)
  next
    case (step_end k' sent out used total_ctx)
    moreover have "k \<noteq> k'" using busy assms(3) step_end(2) keys
      by (auto simp: place_of_def keys_ok_def split: if_splits)
    moreover have "heap (end_turn parse k' out used total_ctx j) i = heap j i" if "i \<noteq> k'" for i
      using that by (subst end_turn_shape) simp
    ultimately show ?thesis by simp
  next
    case (step_finish k')
    then show ?thesis by (simp add: worker_finish_def)
  qed (auto simp: unsafe_gc_def jobs_release_session_def jobs_clone_session_def)
qed

lemma step_keeps_enqueued: "job_step parse j j' \<Longrightarrow> set (enqueued j) \<subseteq> set (enqueued j')"
  by (erule job_stepE) (auto simp: enqueue_def unsafe_gc_def Let_def cancel_lookup_def cancel_complete_def
    shutdown_cancel_def wait_next_def start_task_def apply_taken_def accept_piece_def worker_finish_def jobs_release_session_def
    jobs_clone_session_def with_task_def end_turn_def split: prod.split outcome.split)

text \<open>
  C11. A terminal state is final: once a task is done, failed or cancelled, no later step of any
  thread changes its state, its text, its reasoning, its tool calls, its question or its error.
\<close>

theorem finished_answers_never_change:
  assumes "reachable parse j" and "k \<in> set (enqueued j)" and "is_finished (t_state (heap j k))"
    and "(job_step parse)\<^sup>*\<^sup>* j j'"
  shows "answer_of (heap j' k) = answer_of (heap j k)"
  using assms(4)
proof (induction rule: rtranclp_induct)
  case (step a b)
  have a: "job_inv a" using reachable_inv reachable_steps [OF step(1) assms(1)] by blast
  have "set (enqueued j) \<subseteq> set (enqueued a)" using step(1)
    by (induction rule: rtranclp_induct) (use step_keeps_enqueued in blast)+
  with assms(2) have k: "k \<in> set (enqueued a)" by blast
  have "is_finished (t_state (heap a k))" using step(3) assms(3) by (simp add: answer_of_def)
  from step_keeps_answer [OF a k this step(2)] step(3) show ?case by simp
qed simp

theorem finished_answers_never_change_witness:
  "answer_of (heap (cancel_lookup 1 demo_done) 1) = answer_of (heap demo_done 1)"
proof (rule finished_answers_never_change [OF demo_done_reachable])
  show "1 \<in> set (enqueued demo_done)" by code_simp
  show "is_finished (t_state (heap demo_done 1))" by code_simp
  show "(job_step plain_parse)\<^sup>*\<^sup>* demo_done (cancel_lookup 1 demo_done)" by (blast intro: step_cancel)
qed

section \<open>The queue drains\<close>

definition work_left :: "'j jobs \<Rightarrow> nat" where
  "work_left j = 4 * length (queue j) +
     (case worker j of W_fetched k \<Rightarrow> 3 | W_running k sent \<Rightarrow> 2 | W_finishing k \<Rightarrow> 1 | _ \<Rightarrow> 0)"

definition same_job :: "'j jobs \<Rightarrow> 'j jobs \<Rightarrow> bool" where
  "same_job j j' \<longleftrightarrow> enqueued j' = enqueued j \<and> cancelling j' = cancelling j \<and> stopping j' = stopping j"

lemma never_stopped: "reachable parse j \<Longrightarrow> \<not> stopping j \<Longrightarrow> worker j \<noteq> W_stopped w"
proof (induction arbitrary: w rule: reachable.induct)
  case (reach_step j j')
  from reach_step(2) show ?case
    using reach_step(3,4)
    by cases (auto simp: enqueue_def unsafe_gc_def Let_def cancel_lookup_def cancel_complete_def
      shutdown_cancel_def wait_next_def start_task_def apply_taken_def accept_piece_def worker_finish_def jobs_release_session_def
      jobs_clone_session_def with_task_def end_turn_def split: prod.splits outcome.splits if_splits)
qed (simp add: initial_jobs_def)

lemma worker_advances:
  assumes "reachable parse j" and "\<not> stopping j" and "work_left j \<noteq> 0"
  shows "\<exists>j'. job_step parse j j' \<and> same_job j j' \<and> work_left j' < work_left j"
proof (cases "worker j")
  case W_wait
  then obtain k ks where q: "queue j = k # ks" using assms(3) by (cases "queue j") (auto simp: work_left_def)
  have "set (queue j) \<subseteq> set (registry j)" using reachable_inv [OF assms(1)] by (simp add: job_inv_def keys_ok_def)
  then have "same_job j (wait_next j)" "work_left (wait_next j) < work_left j"
    using q W_wait by (auto simp: wait_next_def same_job_def work_left_def)
  moreover have "job_step parse j (wait_next j)" using W_wait assms(2) q by (intro step_fetch) auto
  ultimately show ?thesis by blast
next
  case (W_fetched w)
  show ?thesis
  proof (cases w)
    case None
    with W_fetched assms(2) show ?thesis
      by (intro exI [where x = "(apply_taken j)\<lparr> worker := W_wait \<rparr>"])
        (auto simp: same_job_def work_left_def apply_taken_def intro!: step_idle [unfolded apply_taken_def])
  next
    case (Some k)
    have "same_job j (start_task k (apply_taken j))" "work_left (start_task k (apply_taken j)) < work_left j"
      using W_fetched Some by (auto simp: start_task_def same_job_def work_left_def apply_taken_def)
    with W_fetched Some assms(2) show ?thesis using step_start by blast
  qed
next
  case (W_running k sent)
  have "same_job j (end_turn parse k (Out_text []) 0 0 j)"
    "work_left (end_turn parse k (Out_text []) 0 0 j) < work_left j"
    using W_running by (subst end_turn_shape; simp add: same_job_def work_left_def)+
  with W_running show ?thesis using step_end by blast
next
  case (W_finishing k)
  then have "same_job j (worker_finish k j)" "work_left (worker_finish k j) < work_left j"
    by (simp_all add: worker_finish_def same_job_def work_left_def)
  with W_finishing show ?thesis using step_finish by blast
next
  case (W_stopped w)
  with never_stopped [OF assms(1,2), of w] show ?thesis by simp
qed



section \<open>What a shutdown leaves behind\<close>

lemma waiting_task:
  assumes "job_inv j" and "k \<in> set (queue j) \<union> set (cancelling j)"
  shows "t_state (heap j k) = Queued"
proof -
  have keys: "keys_ok j" using assms(1) by (simp add: job_inv_def)
  then have "place_of j k = In_queue \<or> place_of j k = In_cancel" and "k \<in> set (enqueued j)"
    using assms(2) by (auto simp: keys_ok_def place_of_def)
  with assms(1) show ?thesis by (auto simp: job_inv_def tasks_ok_def place_ok_def)
qed

lemma dropped_task:
  assumes "job_inv j" and "worker j = W_stopped (Some k)"
  shows "t_state (heap j k) = Queued \<and> t_notified (heap j k) = 0"
proof -
  have keys: "keys_ok j" using assms(1) by (simp add: job_inv_def)
  then have "place_of j k = In_dropped" and "k \<in> set (enqueued j)"
    using assms(2) by (auto simp: keys_ok_def place_of_def)
  with assms(1) show ?thesis by (auto simp: job_inv_def tasks_ok_def place_ok_def)
qed

lemma stopped_step:
  assumes "job_step parse j j'" and "worker j = W_stopped w"
  shows "worker j' = W_stopped w \<and>
    (\<forall>k \<in> set (queue j) \<union> set (cancelling j). k \<in> set (queue j') \<or> k \<in> set (cancelling j') \<or>
       k \<in> set (cancelling j) \<and> j' = cancel_complete k j)"
  using assms(1)
proof cases
  case (step_cancelled k)
  have "queue (cancel_complete k j) = queue j" "worker (cancel_complete k j) = worker j"
    "cancelling (cancel_complete k j) = remove1 k (cancelling j)"
    by (simp_all add: cancel_complete_def)
  with step_cancelled(1) assms(2) show ?thesis by (metis Un_iff in_set_remove1)
qed (use assms(2) in \<open>auto simp: enqueue_def unsafe_gc_def Let_def cancel_lookup_def shutdown_cancel_def
      jobs_release_session_def jobs_clone_session_def\<close>)

text \<open>
  C12. A shutdown strands work: the worker leaves its loop without finishing the task it had just
  fetched nor the tasks still queued. However long the other threads go on, the fetched task stays
  \<open>Queued\<close> and its callback is never called, and a queued task is never run: it stays \<open>Queued\<close>
  unless a client cancels it by its key. A handler that waits for such a task
  (\<open>wait_until_finished\<close>) never returns.
\<close>

theorem shutdown_strands_unfinished_tasks:
  assumes "reachable parse j" and "worker j = W_stopped w" and "(job_step parse)\<^sup>*\<^sup>* j j'"
  shows "worker j' = W_stopped w \<and>
    (\<forall>k. w = Some k \<longrightarrow> t_state (heap j' k) = Queued \<and> t_notified (heap j' k) = 0) \<and>
    (\<forall>k \<in> set (queue j). t_state (heap j' k) = Queued \<or> t_state (heap j' k) = Cancelled)"
proof -
  have w: "worker a = W_stopped w" if "(job_step parse)\<^sup>*\<^sup>* j a" for a
    using that assms(2) by (induction rule: rtranclp_induct) (auto dest: stopped_step)
  have r: "reachable parse a" if "(job_step parse)\<^sup>*\<^sup>* j a" for a
    using that assms(1) by (rule reachable_steps)
  have "t_state (heap j' k) = Queued \<and> t_notified (heap j' k) = 0" if "w = Some k" for k
    using reachable_inv [OF r [OF assms(3)]] w [OF assms(3)] that by (simp add: dropped_task)
  moreover have "t_state (heap j' k) = Queued \<or> t_state (heap j' k) = Cancelled" if q: "k \<in> set (queue j)" for k
  proof -
    have here: "t_state (heap a k) = Queued" if "reachable parse a" "k \<in> set (queue a) \<union> set (cancelling a)" for a
      using reachable_inv [OF that(1)] that(2) by (rule waiting_task)
    have "k \<in> set (queue j') \<union> set (cancelling j') \<or>
        k \<in> set (enqueued j') \<and> t_state (heap j' k) = Cancelled"
      using assms(3)
    proof (induction rule: rtranclp_induct)
      case (step a b)
      have inv: "job_inv a" using r [OF step(1)] by (rule reachable_inv)
      from step(3) show ?case
      proof
        assume k: "k \<in> set (queue a) \<union> set (cancelling a)"
        then have "k \<in> set (enqueued a)" using inv by (auto simp: job_inv_def keys_ok_def)
        then have "k \<in> set (enqueued b)" using step_keeps_enqueued [OF step(2)] by blast
        moreover have "t_state (heap (cancel_complete k a) k) = Cancelled"
          by (simp add: cancel_complete_def finish_standing set_cancelled_def)
        ultimately show ?thesis using k stopped_step [OF step(2) w [OF step(1)]] by auto
      next
        assume k: "k \<in> set (enqueued a) \<and> t_state (heap a k) = Cancelled"
        then have "answer_of (heap b k) = answer_of (heap a k)"
          using step_keeps_answer [OF inv _ _ step(2)] by (simp add: is_finished_def)
        with k show ?thesis using step_keeps_enqueued [OF step(2)] by (auto simp: answer_of_def)
      qed
    qed (use q in simp)
    with here [OF r [OF assms(3)]] show ?thesis by blast
  qed
  ultimately show ?thesis using w [OF assms(3)] by blast
qed

theorem shutdown_strands_unfinished_tasks_witness:
  "let j = (wait_next demo_queued)\<lparr> stopping := True, worker := W_stopped (Some 1) \<rparr>
   in t_state (heap (shutdown_cancel j) 1) = Queued \<and> t_state (heap (shutdown_cancel j) 2) = Queued"
proof -
  let ?s = "(wait_next demo_queued)\<lparr> stopping := True \<rparr>"
  let ?j = "?s\<lparr> worker := W_stopped (Some 1) \<rparr>"
  have s: "reachable plain_parse ?s" using demo_fetched_reachable by (rule reach_step) (rule step_stop)
  have "job_step plain_parse ?s ?j" by (rule step_drop) (simp_all add: demo_fetched)
  with s have j: "reachable plain_parse ?j" by (rule reach_step)
  have "job_step plain_parse ?j (shutdown_cancel ?j)" by (rule step_stop_all) simp
  then have "(job_step plain_parse)\<^sup>*\<^sup>* ?j (shutdown_cancel ?j)" by simp
  from shutdown_strands_unfinished_tasks [OF j _ this, of "Some 1"]
  have "t_state (heap (shutdown_cancel ?j) 1) = Queued" by simp
  moreover have "t_state (heap (shutdown_cancel ?j) 2) = Queued" by code_simp
  ultimately show ?thesis by (simp add: Let_def)
qed

section \<open>The prompt of a task\<close>

lemma fold_system_shape:
  "snd (fold_system system ms) = filter (\<lambda>m. role m \<noteq> role_system) ms"
  by (induction system ms rule: fold_system.induct) (auto split: prod.splits)

text \<open>
  Whatever mixture of roles a request has, the messages of the turn hold at most one system
  message, it stands first, and the other messages are those of the request in their order.
\<close>

theorem one_leading_system_message:
  "(case build_messages system ms of
      [] \<Rightarrow> True
    | m # rest \<Rightarrow> (\<forall>r \<in> set rest. role r \<noteq> role_system)) \<and>
   filter (\<lambda>m. role m \<noteq> role_system) (build_messages system ms) = filter (\<lambda>m. role m \<noteq> role_system) ms \<and>
   (system \<noteq> [] \<longrightarrow> role (hd (build_messages system ms)) = role_system)"
proof -
  have grow: "system \<noteq> [] \<Longrightarrow> fst (fold_system system ms) \<noteq> []" for system and ms :: "'a chat_message list"
    by (induction system ms rule: fold_system.induct) (auto split: prod.splits)
  obtain s rest where f: "fold_system system ms = (s, rest)" by fastforce
  then have rest: "rest = filter (\<lambda>m. role m \<noteq> role_system) ms" using fold_system_shape [of system ms] by simp
  define first :: "'a chat_message" where "first = \<lparr> role = role_system, msg_content = s,
    reasoning_content = [], tool_call_id = [], tool_name = [], tool_calls = [] \<rparr>"
  have all: "\<forall>r \<in> set rest. role r \<noteq> role_system" by (simp add: rest)
  have b: "build_messages system ms = (if s = [] then rest else first # rest)"
    by (simp add: build_messages_def f first_def)
  have "filter (\<lambda>m. role m \<noteq> role_system) rest = rest" by (simp add: rest)
  moreover have "role first = role_system" by (simp add: first_def)
  moreover have "system \<noteq> [] \<longrightarrow> s \<noteq> []" using grow [of system ms] f by simp
  ultimately show ?thesis using all unfolding b by (cases "s = []"; cases rest) (simp_all add: rest [symmetric])
qed

theorem one_leading_system_message_witness:
  "let u = \<lparr> role = ''user'', msg_content = ''q'', reasoning_content = [], tool_call_id = [],
               tool_name = [], tool_calls = [] \<rparr> :: nat chat_message
   in map msg_content (build_messages ''a'' [u, u\<lparr> role := role_system, msg_content := ''b'' \<rparr>]) =
        [''a'' @ [CHR 0x0A] @ ''b'', ''q''] \<and>
      role (hd (build_messages ''a'' [u, u\<lparr> role := role_system, msg_content := ''b'' \<rparr>])) = role_system"
proof -
  let ?u = "\<lparr> role = ''user'', msg_content = ''q'', reasoning_content = [], tool_call_id = [],
               tool_name = [], tool_calls = [] \<rparr> :: nat chat_message"
  have "map msg_content (build_messages ''a'' [?u, ?u\<lparr> role := role_system, msg_content := ''b'' \<rparr>]) =
        [''a'' @ [CHR 0x0A] @ ''b'', ''q'']" by code_simp
  with one_leading_system_message [of "''a''" "[?u, ?u\<lparr> role := role_system, msg_content := ''b'' \<rparr>]"]
  show ?thesis by (simp add: Let_def)
qed

end
