(* ===== verification/Text_Scan.thy ===== *)
theory Text_Scan
  imports Prelude
begin

text \<open>
  The helpers on \<open>std::string_view\<close> that the parsers of model output share
  (\<open>response_parse.cpp\<close>, \<open>model_adapter.cpp\<close>, \<open>responses.cpp\<close>): trimming, comparing and
  searching without regard to case, and cutting a text at the first occurrence of a marker. The
  sources keep an index into the text; the definitions keep the text from that index on.
\<close>

section \<open>Blanks\<close>

definition is_trim_char :: "char \<Rightarrow> bool" where
  "is_trim_char c \<longleftrightarrow> c = CHR '' '' \<or> c = CHR 0x09 \<or> c = CHR 0x0D \<or> c = CHR 0x0A"

definition trim_sv :: "string \<Rightarrow> string" where
  "trim_sv s = rev (dropWhile is_trim_char (rev (dropWhile is_trim_char s)))"

text \<open>\<open>std::isspace\<close> in the C locale.\<close>

definition is_space_char :: "char \<Rightarrow> bool" where
  "is_space_char c \<longleftrightarrow> c = CHR '' '' \<or> (9 \<le> code_of c \<and> code_of c \<le> 13)"

definition skip_space :: "string \<Rightarrow> string" where
  "skip_space s = dropWhile is_space_char s"

definition trimmed :: "string \<Rightarrow> bool" where
  "trimmed s \<longleftrightarrow> s = [] \<or> (\<not> is_trim_char (hd s) \<and> \<not> is_trim_char (last s))"

lemma last_dropWhile: "dropWhile P xs \<noteq> [] \<Longrightarrow> last (dropWhile P xs) = last xs"
  by (induction xs) auto

lemma trimmed_trim: "trimmed (trim_sv s)"
proof (cases "trim_sv s = []")
  case False
  define a where "a = dropWhile is_trim_char s"
  define t where "t = dropWhile is_trim_char (rev a)"
  have t: "trim_sv s = rev t" "t \<noteq> []" using False by (simp_all add: trim_sv_def a_def t_def)
  then have "a \<noteq> []" unfolding t_def by (metis dropWhile.simps(1) rev.simps(1))
  then have "\<not> is_trim_char (hd a)" unfolding a_def by (rule hd_dropWhile)
  moreover have "last t = hd a"
    using t(2) last_dropWhile [of is_trim_char "rev a"] \<open>a \<noteq> []\<close> by (simp add: t_def last_rev)
  moreover have "\<not> is_trim_char (hd t)" using t(2) unfolding t_def by (rule hd_dropWhile)
  ultimately show ?thesis using t by (simp add: trimmed_def hd_rev last_rev)
qed (simp add: trimmed_def)

lemma trim_id: "trimmed s \<Longrightarrow> trim_sv s = s"
proof (cases s)
  case (Cons c cs)
  assume t: "trimmed s"
  with Cons have "dropWhile is_trim_char s = s" by (simp add: trimmed_def)
  moreover obtain ys y where "s = ys @ [y]" using Cons by (metis list.distinct(1) rev_exhaust)
  with t have "dropWhile is_trim_char (rev s) = rev s" by (auto simp: trimmed_def)
  ultimately show ?thesis by (simp add: trim_sv_def)
qed (simp add: trim_sv_def)

lemma trim_set: "set (trim_sv s) \<subseteq> set s"
  by (auto simp: trim_sv_def dest!: set_dropWhileD)

section \<open>Comparing without case\<close>

definition ieq :: "string \<Rightarrow> string \<Rightarrow> bool" where
  "ieq a b \<longleftrightarrow> map to_lower a = map to_lower b"

definition starts_ieq :: "string \<Rightarrow> string \<Rightarrow> bool" where
  "starts_ieq s lit \<longleftrightarrow> lit \<noteq> [] \<and> prefix (map to_lower lit) (map to_lower s)"

definition find_ieq :: "string \<Rightarrow> string \<Rightarrow> nat option" where
  "find_ieq s lit = (if lit = [] then None else sfind (map to_lower lit) (map to_lower s))"

lemma find_ieq_starts: "find_ieq s lit = Some i \<Longrightarrow> starts_ieq (drop i s) lit \<and> i + length lit \<le> length s"
  by (auto simp: find_ieq_def starts_ieq_def drop_map dest!: sfind_SomeD split: if_splits)

section \<open>Cutting at a marker\<close>

definition cut_at :: "string \<Rightarrow> string \<Rightarrow> (string \<times> string) option" where
  "cut_at mark s = (case sfind mark s of None \<Rightarrow> None | Some i \<Rightarrow> Some (take i s, drop (i + length mark) s))"

lemma cut_at_Some: "cut_at mark s = Some (u, v) \<Longrightarrow> s = u @ mark @ v"
  using sfind_decomp by (fastforce simp: cut_at_def split: option.splits)

lemma cut_at_shorter: "cut_at mark s = Some (u, v) \<Longrightarrow> mark \<noteq> [] \<Longrightarrow> length v < length s \<and> length u < length s"
  by (cases mark) (auto dest: cut_at_Some)

lemma cut_at_before: "cut_at mark s = Some (u, v) \<Longrightarrow> mark \<noteq> [] \<Longrightarrow> sfind mark u = None"
proof -
  assume "cut_at mark s = Some (u, v)" and m: "mark \<noteq> []"
  then obtain i where i: "sfind mark s = Some i" "u = take i s" by (auto simp: cut_at_def split: option.splits)
  show "sfind mark u = None"
    unfolding sfind_None_iff
  proof (intro allI notI)
    fix a b assume u: "u = a @ mark @ b"
    have "i \<le> length s" using sfind_SomeD [OF i(1)] by simp
    then have "length a < i" using u i(2) m by (cases mark) (auto dest: arg_cong [of _ _ length])
    moreover have "s = a @ mark @ b @ drop i s" using u i(2) by (metis append.assoc append_take_drop_id)
    then have "prefix mark (drop (length a) s)" by (metis append_eq_conv_conj prefixI)
    ultimately show False using sfind_first [OF i(1)] by blast
  qed
qed

text \<open>A marker whose first character does not occur again in it is found where it was put.\<close>

lemma sfind_put:
  assumes "c \<notin> set p" and "sfind (c # p) u = None"
  shows "sfind (c # p) (u @ (c # p) @ v) = Some (length u)"
proof (rule sfind_SomeI)
  fix j assume j: "j < length u"
  show "\<not> prefix (c # p) (drop j (u @ (c # p) @ v))"
  proof
    let ?w = "drop j u"
    assume "prefix (c # p) (drop j (u @ (c # p) @ v))"
    then have pre: "prefix (c # p) (?w @ (c # p) @ v)" using j by simp
    show False
    proof (cases "length (c # p) \<le> length ?w")
      case True
      with pre have "prefix (c # p) ?w" by (metis prefix_def prefix_length_prefix append.assoc)
      then show False using sfind_NoneD [OF assms(2), of j] by simp
    next
      case False
      from pre obtain zs where eq: "?w @ (c # p) @ v = (c # p) @ zs" by (auto simp: prefix_def)
      have "(c # p) ! length ?w = ((c # p) @ zs) ! length ?w"
        using False by (simp only: nth_append not_le if_True)
      also have "\<dots> = c" by (simp only: eq [symmetric]) (simp only: nth_append_length append_Cons)
      finally have "(c # p) ! length ?w = c" .
      moreover have "0 < length ?w" using j by simp
      ultimately have "p ! (length ?w - 1) = c" by (simp add: nth_Cons')
      moreover have "length ?w - 1 < length p" using False \<open>0 < length ?w\<close> by simp
      ultimately show False using assms(1) nth_mem by metis
    qed
  qed
qed simp_all

lemma cut_at_put:
  "c \<notin> set p \<Longrightarrow> sfind (c # p) u = None \<Longrightarrow> cut_at (c # p) (u @ (c # p) @ v) = Some (u, v)"
  using sfind_put [of c p u v] by (simp add: cut_at_def)

lemma sfind_append: "sfind p s = Some i \<Longrightarrow> sfind p (s @ t) = Some i"
proof (rule sfind_SomeI)
  assume i: "sfind p s = Some i"
  show "prefix p (drop i (s @ t))" using sfind_SomeD [OF i] by (simp add: prefix_append)
  show "i \<le> length (s @ t)" using sfind_SomeD [OF i] by simp
  fix j assume j: "j < i"
  show "\<not> prefix p (drop j (s @ t))"
  proof
    assume "prefix p (drop j (s @ t))"
    moreover have "length p \<le> length (drop j s)" using sfind_SomeD [OF i] j by auto
    moreover have "drop j (s @ t) = drop j s @ t" using sfind_SomeD [OF i] j by simp
    ultimately have "prefix p (drop j s)" by (metis prefix_length_prefix prefixI)
    with sfind_first [OF i j] show False ..
  qed
qed

lemma sfind_shift:
  assumes "\<And>j. prefix m (drop j (u @ w)) \<Longrightarrow> length u \<le> j"
  shows "sfind m (u @ w) = map_option (\<lambda>i. length u + i) (sfind m w)"
proof (cases "sfind m w")
  case None
  have "sfind m (u @ w) = None"
    unfolding sfind_None_iff
  proof (intro allI notI)
    fix a b assume eq: "u @ w = a @ m @ b"
    then have "prefix m (drop (length a) (u @ w))" by simp
    from assms [OF this] have "w = drop (length u) a @ m @ b"
      using arg_cong [OF eq, of "drop (length u)"] by simp
    with None show False by (auto simp: sfind_None_iff)
  qed
  with None show ?thesis by simp
next
  case (Some i)
  have "sfind m (u @ w) = Some (length u + i)"
  proof (rule sfind_SomeI)
    show "prefix m (drop (length u + i) (u @ w))" "length u + i \<le> length (u @ w)"
      using sfind_SomeD [OF Some] by auto
    show "\<not> prefix m (drop j (u @ w))" if "j < length u + i" for j
    proof
      assume pm: "prefix m (drop j (u @ w))"
      from assms [OF this] obtain k where k: "j = length u + k" using le_Suc_ex by blast
      with pm have "prefix m (drop k w)" by simp
      with sfind_first [OF Some, of k] k that show False by simp
    qed
  qed
  with Some show ?thesis by simp
qed

lemma takeWhile_before: "c \<notin> set xs \<Longrightarrow> takeWhile (\<lambda>x. x \<noteq> c) (xs @ c # ys) = xs"
  by (induction xs) auto

lemma sfind_char_None: "sfind [c] s = None \<longleftrightarrow> c \<notin> set s"
  unfolding sfind_None_iff by (metis append_Cons append_Nil in_set_conv_decomp)

lemma sfind_no_head: "c \<notin> set s \<Longrightarrow> sfind (c # p) s = None"
  by (auto simp: sfind_None_iff)

end
