(* ===== verification/Response_Turn.thy ===== *)
theory Response_Turn
  imports Models Json_Api Text_Scan
begin

text \<open>
  How a request to the Responses API becomes a turn: \<open>responses_from_json\<close> of
  \<open>responses.cpp\<close> with the tools, namespaces, tool calls, tool results and reasoning it reads, and
  \<open>ChatTool::from_json\<close> of \<open>models.cpp\<close>. JSON is a parameter; a request that is refused is an
  \<open>Inl\<close> with the exception.
\<close>

section \<open>Texts\<close>

definition is_alnum_char :: "char \<Rightarrow> bool" where
  "is_alnum_char c \<longleftrightarrow> is_digit_char c \<or> is_upper_char c \<or> is_lower_char c"

definition string_field :: "('j, 'z) json_api_scheme \<Rightarrow> 'j \<Rightarrow> string \<Rightarrow> string" where
  "string_field js item key =
     (case j_get js key item of
        None \<Rightarrow> []
      | Some v \<Rightarrow> (case j_string_of js v of None \<Rightarrow> [] | Some s \<Rightarrow> s))"

definition part_text :: "('j, 'z) json_api_scheme \<Rightarrow> string \<Rightarrow> 'j \<Rightarrow> request_error + string" where
  "part_text js txt part =
     (case j_string_of js part of
        Some s \<Rightarrow> Inr (txt @ s)
      | None \<Rightarrow>
          if j_members js part = None then Inr txt
          else then_do (j_value js (j_string_of js) ''type'' [] part) (\<lambda>type.
            if type = ''input_image'' \<or> type = ''input_audio'' \<or> type = ''image_url'' \<or> type = ''input_file''
            then Inl (Bad_request ''image, audio, and file input are not supported'')
            else
              (let found = (if j_get js ''text'' part \<noteq> None then j_get js ''text'' part
                            else j_get js ''refusal'' part)
               in case found of
                    None \<Rightarrow> Inr txt
                  | Some v \<Rightarrow>
                      (case j_string_of js v of
                         None \<Rightarrow> Inr txt
                       | Some s \<Rightarrow> Inr ((if txt = [] then [] else txt @ [CHR 0x0A]) @ s)))))"

definition text_from_parts :: "('j, 'z) json_api_scheme \<Rightarrow> 'j \<Rightarrow> request_error + string" where
  "text_from_parts js content =
     (case j_string_of js content of
        Some s \<Rightarrow> Inr s
      | None \<Rightarrow>
          if j_is_null js content then Inr []
          else case j_elements js content of
                 None \<Rightarrow> Inl (Bad_request ''content must be a string or an array'')
               | Some parts \<Rightarrow> fold_err (part_text js) [] parts)"

definition item_text :: "('j, 'z) json_api_scheme \<Rightarrow> 'j \<Rightarrow> request_error + string" where
  "item_text js item =
     (case j_get js ''content'' item of
        None \<Rightarrow> Inr []
      | Some c \<Rightarrow> if j_is_null js c then Inr [] else text_from_parts js c)"

text \<open>Text that is meant to be read, as opposed to a long run of base64.\<close>

definition is_base64_char :: "char \<Rightarrow> bool" where
  "is_base64_char c \<longleftrightarrow> is_alnum_char c \<or> c \<in> set ''+/=-_''"

definition readable_thinking :: "string \<Rightarrow> bool" where
  "readable_thinking txt \<longleftrightarrow>
     txt \<noteq> [] \<and>
     list_all (\<lambda>c. is_trim_char c \<or> \<not> (code_of c < 0x20 \<or> code_of c = 0x7F)) txt \<and>
     (list_ex is_trim_char txt \<or> \<not> list_all is_base64_char txt \<or> length txt < 64)"

definition reasoning_part :: "('j, 'z) json_api_scheme \<Rightarrow> string \<Rightarrow> 'j \<Rightarrow> string" where
  "reasoning_part js txt part =
     (case j_get js ''text'' part of
        None \<Rightarrow> txt
      | Some v \<Rightarrow>
          (case j_string_of js v of
             None \<Rightarrow> txt
           | Some s \<Rightarrow> (if txt = [] then [] else txt @ [CHR 0x0A]) @ s))"

definition take_reasoning :: "('j, 'z) json_api_scheme \<Rightarrow> 'j \<Rightarrow> string \<Rightarrow> string \<Rightarrow> string" where
  "take_reasoning js item key txt =
     (case j_get js key item of
        None \<Rightarrow> txt
      | Some v \<Rightarrow> (case j_elements js v of None \<Rightarrow> txt | Some parts \<Rightarrow> foldl (reasoning_part js) txt parts))"

definition reasoning_text :: "('j, 'z) json_api_scheme \<Rightarrow> 'j \<Rightarrow> string" where
  "reasoning_text js item =
     (let txt = take_reasoning js item ''content'' [];
          txt = (if txt = [] then take_reasoning js item ''summary'' txt else txt)
      in if txt \<noteq> [] then txt
         else case j_get js ''encrypted_content'' item of
                None \<Rightarrow> []
              | Some v \<Rightarrow>
                  (case j_string_of js v of
                     None \<Rightarrow> []
                   | Some encrypted \<Rightarrow> if readable_thinking encrypted then encrypted else []))"

section \<open>Tools\<close>

text \<open>\<open>ChatTool::from_json\<close>.\<close>

definition chat_tool_from_json :: "('j, 'z) json_api_scheme \<Rightarrow> 'j \<Rightarrow> request_error + chat_tool" where
  "chat_tool_from_json js j =
     (let fn = (case j_get js ''function'' j of
                  Some f \<Rightarrow> (if j_members js f \<noteq> None then f else j)
                | None \<Rightarrow> j)
      in then_do (j_value js (j_string_of js) ''name'' [] fn) (\<lambda>name.
         then_do (j_value js (j_string_of js) ''description'' [] fn) (\<lambda>description.
         if name = [] then Inl (Bad_request ''tool name is required'')
         else
           (case j_get js ''parameters'' fn of
              None \<Rightarrow> Inr \<lparr> tool_spec_name = name, tool_description = description, tool_parameters = [] \<rparr>
            | Some params \<Rightarrow>
                if j_is_null js params
                then Inr \<lparr> tool_spec_name = name, tool_description = description, tool_parameters = [] \<rparr>
                else
                  (case j_parse js (case j_string_of js params of Some s \<Rightarrow> s | None \<Rightarrow> j_dump js params) of
                     Inl err \<Rightarrow> Inl Json_exception
                   | Inr parsed \<Rightarrow>
                       if j_members js parsed = None
                       then Inl (Bad_request ''tool parameters must be a JSON object'')
                       else Inr \<lparr> tool_spec_name = name, tool_description = description,
                                  tool_parameters = j_dump js parsed \<rparr>)))))"

record 'j responses_turn =
  turn_model :: string
  turn_instructions :: string
  turn_messages :: "'j chat_message list"
  turn_tools :: "chat_tool list"
  turn_namespaces :: "string list"
  turn_max_tokens :: int
  turn_temperature :: rat
  turn_stream :: bool
  turn_session_id :: string

definition new_turn :: "'j responses_turn" where
  "new_turn = \<lparr> turn_model = [], turn_instructions = [], turn_messages = [], turn_tools = [],
     turn_namespaces = [], turn_max_tokens = -1, turn_temperature = -1, turn_stream = False,
     turn_session_id = [] \<rparr>"

definition remember_namespace :: "string \<Rightarrow> 'j responses_turn \<Rightarrow> 'j responses_turn" where
  "remember_namespace ns turn =
     (if ns \<in> set (turn_namespaces turn) then turn
      else turn\<lparr> turn_namespaces := turn_namespaces turn @ [ns] \<rparr>)"

definition k_quoted_dot :: string where
  "k_quoted_dot = [CHR 0x27, CHR ''.'', CHR 0x27]"

definition has_parameters :: "('j, 'z) json_api_scheme \<Rightarrow> 'j \<Rightarrow> bool" where
  "has_parameters js tool \<longleftrightarrow>
     (let given = (\<lambda>v. case j_get js ''parameters'' v of None \<Rightarrow> False | Some p \<Rightarrow> \<not> j_is_null js p)
      in given tool \<or>
         (case j_get js ''function'' tool of None \<Rightarrow> False | Some fn \<Rightarrow> j_members js fn \<noteq> None \<and> given fn))"

definition query_parameters :: "('j, 'z) json_api_scheme \<Rightarrow> 'j" where
  "query_parameters js =
     j_object js [(''type'', j_string js ''object''),
                  (''properties'', j_object js [(''query'', j_object js [(''type'', j_string js ''string'')])]),
                  (''required'', j_array js [j_string js ''query''])]"

definition complete_search_tool :: "('j, 'z) json_api_scheme \<Rightarrow> 'j \<Rightarrow> 'j" where
  "complete_search_tool js tool =
     (let tool = (if string_field js tool ''name'' = [] \<and>
                     \<not> (case j_get js ''function'' tool of
                          None \<Rightarrow> False
                        | Some fn \<Rightarrow> j_members js fn \<noteq> None \<and> string_field js fn ''name'' \<noteq> [])
                  then j_set js ''name'' (j_string js ''tool_search'') tool else tool)
      in if has_parameters js tool then tool else j_set js ''parameters'' (query_parameters js) tool)"

text \<open>A tool that is not a namespace.\<close>

definition append_single_tool ::
  "('j, 'z) json_api_scheme \<Rightarrow> string \<Rightarrow> string \<Rightarrow> 'j responses_turn \<Rightarrow> 'j \<Rightarrow> request_error + 'j responses_turn" where
  "append_single_tool js kind ns turn tool =
     (if kind \<noteq> ''function'' \<and> kind \<noteq> ''custom'' \<and> kind \<noteq> ''tool_search'' then Inr turn
      else
        then_do (chat_tool_from_json js (if kind = ''tool_search'' then complete_search_tool js tool else tool)) (\<lambda>parsed.
          if ns = [] then Inr (turn\<lparr> turn_tools := turn_tools turn @ [parsed] \<rparr>)
          else if CHR ''.'' \<in> set (tool_spec_name parsed)
          then Inl (Bad_request (''namespace member name must not contain '' @ k_quoted_dot))
          else Inr (turn\<lparr> turn_tools := turn_tools turn @
                           [parsed\<lparr> tool_spec_name := ns @ ''.'' @ tool_spec_name parsed \<rparr>] \<rparr>)))"

text \<open>A namespace inside a namespace is refused, so the recursion is at most one level deep.\<close>

function append_model_tool ::
  "('j, 'z) json_api_scheme \<Rightarrow> string \<Rightarrow> 'j responses_turn \<Rightarrow> 'j \<Rightarrow> request_error + 'j responses_turn" where
  "append_model_tool js ns turn tool =
     (let type = string_field js tool ''type'';
          kind = (if type = [] then ''function'' else type)
      in if kind = ''namespace'' then
           (let nested = string_field js tool ''name'' in
            if nested = [] then Inl (Bad_request ''namespace tool requires a name'')
            else if CHR ''.'' \<in> set nested then Inl (Bad_request (''namespace name must not contain '' @ k_quoted_dot))
            else if ns \<noteq> [] then Inl (Bad_request ''nested namespace tools are not supported'')
            else
              (case j_get js ''tools'' tool of
                 None \<Rightarrow> Inl (Bad_request ''namespace tool requires tools'')
               | Some v \<Rightarrow>
                   (case j_elements js v of
                      None \<Rightarrow> Inl (Bad_request ''namespace tool requires tools'')
                    | Some members \<Rightarrow>
                        fold_err (\<lambda>turn member.
                          if j_members js member = None then Inl (Bad_request ''each tool must be an object'')
                          else append_model_tool js nested turn member) (remember_namespace nested turn) members)))
         else append_single_tool js kind ns turn tool)"
  by pat_completeness auto
termination
  by (relation "measure (\<lambda>(js, ns, turn, tool). if ns = [] then 1 else 0)") auto

declare append_model_tool.simps [simp del]

definition qualify_tool_name :: "('j, 'z) json_api_scheme \<Rightarrow> 'j \<Rightarrow> string \<Rightarrow> request_error + string" where
  "qualify_tool_name js item name =
     (if name = [] then Inr name
      else
        (let ns = string_field js item ''namespace'' in
         if ns = [] then Inr name
         else if CHR ''.'' \<in> set ns then Inl (Bad_request (''namespace name must not contain '' @ k_quoted_dot))
         else if prefix (ns @ ''.'') name then Inr name
         else Inr (ns @ ''.'' @ name)))"

section \<open>Messages\<close>

definition with_break :: "string \<Rightarrow> string \<Rightarrow> string" where
  "with_break old new = (if new = [] then old else (if old = [] then [] else old @ [CHR 0x0A]) @ new)"

definition merge_assistant :: "'j chat_message list \<Rightarrow> 'j chat_message \<Rightarrow> 'j chat_message list" where
  "merge_assistant ms incoming =
     (if ms \<noteq> [] \<and> role (last ms) = role_assistant then
        (let prev = last ms in
         butlast ms @
           [prev\<lparr> msg_content := with_break (msg_content prev) (msg_content incoming),
                  reasoning_content := with_break (reasoning_content prev) (reasoning_content incoming),
                  tool_calls := tool_calls prev @ tool_calls incoming \<rparr>])
      else ms @ [incoming])"

definition plain_message :: "string \<Rightarrow> string \<Rightarrow> 'j chat_message" where
  "plain_message r content = \<lparr> role = r, msg_content = content, reasoning_content = [], tool_call_id = [],
     tool_name = [], tool_calls = [] \<rparr>"

definition item_arguments :: "('j, 'z) json_api_scheme \<Rightarrow> 'j \<Rightarrow> bool \<Rightarrow> 'j" where
  "item_arguments js item custom =
     (case j_get js (if custom then ''input'' else ''arguments'') item of
        None \<Rightarrow> j_object js []
      | Some args \<Rightarrow>
          if j_is_null js args then j_object js []
          else
            (case j_string_of js args of
               None \<Rightarrow> args
             | Some txt \<Rightarrow>
                 if txt = [] then j_object js []
                 else (case j_parse js txt of Inl err \<Rightarrow> j_string js txt | Inr v \<Rightarrow> v)))"

definition tool_call_from_item :: "('j, 'z) json_api_scheme \<Rightarrow> 'j \<Rightarrow> bool \<Rightarrow> request_error + 'j parsed_tool_call" where
  "tool_call_from_item js item custom =
     then_do (j_value js (j_string_of js) ''name'' [] item) (\<lambda>name.
       if name = [] then Inl (Bad_request ''function_call requires name'')
       else then_do (j_value js (j_string_of js) ''call_id'' [] item) (\<lambda>id.
         Inr \<lparr> tc_id = id, tc_name = name, tc_arguments = item_arguments js item custom \<rparr>))"

definition tool_output :: "('j, 'z) json_api_scheme \<Rightarrow> string \<Rightarrow> 'j \<Rightarrow> request_error + 'j chat_message" where
  "tool_output js fallback_name item =
     (case j_get js ''output'' item of
        None \<Rightarrow> Inl (Bad_request ''function_call_output requires output'')
      | Some v \<Rightarrow>
          then_do (j_value js (j_string_of js) ''call_id'' [] item) (\<lambda>id.
          then_do (text_from_parts js v) (\<lambda>content.
            Inr ((plain_message role_tool content)
                   \<lparr> tool_call_id := id,
                     tool_name := (if string_field js item ''name'' = [] then fallback_name
                                   else string_field js item ''name'') \<rparr>))))"

definition cache_session_id :: "string \<Rightarrow> string" where
  "cache_session_id key =
     (let out = map (\<lambda>c. if is_alnum_char c \<or> c \<in> set ''._-'' then c else CHR ''_'') (take 120 key)
      in if out = [] then ''codex'' else out)"

section \<open>A request\<close>

definition call_item :: "('j, 'z) json_api_scheme \<Rightarrow> string \<Rightarrow> 'j \<Rightarrow> request_error + 'j chat_message" where
  "call_item js type item =
     (let spec = (if type = ''tool_search_call'' \<and> string_field js item ''name'' = []
                  then j_set js ''name'' (j_string js ''tool_search'') item else item)
      in then_do (tool_call_from_item js spec (type = ''custom_tool_call'')) (\<lambda>call.
         then_do (qualify_tool_name js spec (tc_name call)) (\<lambda>name.
           Inr ((plain_message role_assistant [])\<lparr> tool_calls := [call\<lparr> tc_name := name \<rparr>] \<rparr>))))"

definition output_item :: "('j, 'z) json_api_scheme \<Rightarrow> string \<Rightarrow> 'j \<Rightarrow> request_error + 'j chat_message" where
  "output_item js type item =
     then_do (tool_output js (if type = ''tool_search_output'' then ''tool_search'' else []) item) (\<lambda>m.
     then_do (qualify_tool_name js item (tool_name m)) (\<lambda>name.
       Inr (m\<lparr> tool_name := name \<rparr>)))"

definition message_item ::
  "('j, 'z) json_api_scheme \<Rightarrow> 'j chat_message list \<Rightarrow> 'j \<Rightarrow> request_error + 'j chat_message list" where
  "message_item js ms item =
     (case j_get js ''role'' item of
        None \<Rightarrow> Inr ms
      | Some v \<Rightarrow>
          (case j_string_of js v of
             None \<Rightarrow> Inr ms
           | Some r \<Rightarrow>
               (let r = (if r = ''developer'' then role_system else r) in
                then_do (item_text js item) (\<lambda>txt.
                  Inr (if r = role_assistant then merge_assistant ms (plain_message r txt)
                       else ms @ [plain_message r txt])))))"

definition reasoning_item ::
  "('j, 'z) json_api_scheme \<Rightarrow> 'j chat_message list \<Rightarrow> 'j \<Rightarrow> 'j chat_message list" where
  "reasoning_item js ms item =
     (let txt = reasoning_text js item in
      if txt = [] then ms
      else merge_assistant ms ((plain_message role_assistant [])\<lparr> reasoning_content := txt \<rparr>))"

definition item_of_type ::
  "('j, 'z) json_api_scheme \<Rightarrow> 'j chat_message list \<Rightarrow> 'j \<Rightarrow> string \<Rightarrow> request_error + 'j chat_message list" where
  "item_of_type js ms item type =
     (if type = ''function_call'' \<or> type = ''custom_tool_call'' \<or> type = ''tool_search_call''
      then then_do (call_item js type item) (\<lambda>m. Inr (merge_assistant ms m))
      else if type = ''function_call_output'' \<or> type = ''custom_tool_call_output'' \<or> type = ''tool_search_output''
      then then_do (output_item js type item) (\<lambda>m. Inr (ms @ [m]))
      else if type = ''reasoning'' then Inr (reasoning_item js ms item)
      else if type = [] \<or> type = ''message'' then message_item js ms item
      else Inr ms)"

definition input_item ::
  "('j, 'z) json_api_scheme \<Rightarrow> 'j chat_message list \<Rightarrow> 'j \<Rightarrow> request_error + 'j chat_message list" where
  "input_item js ms item =
     (if j_members js item = None then Inl (Bad_request ''each input item must be an object'')
      else then_do (j_value js (j_string_of js) ''type'' [] item) (item_of_type js ms item))"

text \<open>\<open>get<int>\<close> of a wider integer keeps its lowest 32 bits.\<close>

definition int32_of :: "int \<Rightarrow> int" where
  "int32_of n = sint (word_of_int n :: 32 word)"

definition request_head :: "('j, 'z) json_api_scheme \<Rightarrow> 'j \<Rightarrow> request_error + 'j responses_turn" where
  "request_head js body =
     then_do (j_value js (j_string_of js) ''model'' [] body) (\<lambda>model.
     then_do (j_value js (j_string_of js) ''instructions'' [] body) (\<lambda>instructions.
     then_do (j_value js (j_bool_of js) ''stream'' False body) (\<lambda>stream.
       Inr (new_turn\<lparr> turn_model := model, turn_instructions := instructions, turn_stream := stream,
         turn_max_tokens := (case j_get js ''max_output_tokens'' body of
             None \<Rightarrow> -1
           | Some v \<Rightarrow> (case j_int_of js v of None \<Rightarrow> -1 | Some n \<Rightarrow> int32_of n)),
         turn_temperature := (case j_get js ''temperature'' body of
             None \<Rightarrow> -1
           | Some v \<Rightarrow> (case j_number_of js v of None \<Rightarrow> -1 | Some t \<Rightarrow> t)),
         turn_session_id := (case j_get js ''prompt_cache_key'' body of
             None \<Rightarrow> ''codex''
           | Some v \<Rightarrow> (case j_string_of js v of None \<Rightarrow> ''codex'' | Some key \<Rightarrow> cache_session_id key)) \<rparr>))))"

definition request_tools ::
  "('j, 'z) json_api_scheme \<Rightarrow> 'j \<Rightarrow> 'j responses_turn \<Rightarrow> request_error + 'j responses_turn" where
  "request_tools js body turn =
     (case j_get js ''tools'' body of
        None \<Rightarrow> Inr turn
      | Some v \<Rightarrow>
          (case j_elements js v of
             None \<Rightarrow> Inl (Bad_request ''tools must be an array'')
           | Some tools \<Rightarrow>
               fold_err (\<lambda>turn tool.
                 if j_members js tool = None then Inl (Bad_request ''each tool must be an object'')
                 else append_model_tool js [] turn tool) turn tools))"

definition request_input ::
  "('j, 'z) json_api_scheme \<Rightarrow> 'j \<Rightarrow> 'j responses_turn \<Rightarrow> request_error + 'j responses_turn" where
  "request_input js input turn =
     (case j_string_of js input of
        Some s \<Rightarrow> Inr (turn\<lparr> turn_messages := turn_messages turn @ [plain_message role_user s] \<rparr>)
      | None \<Rightarrow>
          (case j_elements js input of
             None \<Rightarrow> Inl (Bad_request ''input must be a string or an array'')
           | Some items \<Rightarrow>
               then_do (fold_err (input_item js) (turn_messages turn) items) (\<lambda>ms.
                 Inr (turn\<lparr> turn_messages := ms \<rparr>))))"

definition responses_from_json :: "('j, 'z) json_api_scheme \<Rightarrow> 'j \<Rightarrow> request_error + 'j responses_turn" where
  "responses_from_json js body =
     (if j_members js body = None then Inl (Bad_request ''request body must be a JSON object'')
      else case j_get js ''input'' body of
             None \<Rightarrow> Inl (Bad_request ''input is required'')
           | Some input \<Rightarrow>
               then_do (request_head js body) (\<lambda>turn.
               then_do (request_tools js body turn) (\<lambda>turn.
                 request_input js input turn)))"

section \<open>What a turn looks like\<close>

text \<open>
  What holds of every accepted request: assistant messages never stand next to each other, calls have
  names, namespaces are distinct non-empty names without a dot, and the session id can name a file.
\<close>

definition no_adjacent_assistants :: "'j chat_message list \<Rightarrow> bool" where
  "no_adjacent_assistants ms \<longleftrightarrow>
     successively (\<lambda>a b. \<not> (role a = role_assistant \<and> role b = role_assistant)) ms"

definition named_tool_calls :: "'j chat_message list \<Rightarrow> bool" where
  "named_tool_calls ms \<longleftrightarrow> (\<forall>m \<in> set ms. \<forall>c \<in> set (tool_calls m). tc_name c \<noteq> [])"

definition good_namespaces :: "string list \<Rightarrow> bool" where
  "good_namespaces nss \<longleftrightarrow> distinct nss \<and> (\<forall>ns \<in> set nss. ns \<noteq> [] \<and> CHR ''.'' \<notin> set ns)"

lemma merge_keeps:
  assumes "no_adjacent_assistants ms" and "named_tool_calls ms" and "role m = role_assistant"
    and "\<forall>c \<in> set (tool_calls m). tc_name c \<noteq> []"
  shows "no_adjacent_assistants (merge_assistant ms m) \<and> named_tool_calls (merge_assistant ms m)"
proof (cases "ms \<noteq> [] \<and> role (last ms) = role_assistant")
  case True
  then obtain us u where ms: "ms = us @ [u]" by (metis rev_exhaust)
  with assms True show ?thesis
    by (auto simp: merge_assistant_def no_adjacent_assistants_def named_tool_calls_def successively_append_iff)
next
  case False
  with assms show ?thesis
    by (auto simp: merge_assistant_def no_adjacent_assistants_def named_tool_calls_def successively_append_iff)
qed

lemma append_keeps:
  assumes "no_adjacent_assistants ms" and "named_tool_calls ms" and "role m \<noteq> role_assistant" and "tool_calls m = []"
  shows "no_adjacent_assistants (ms @ [m]) \<and> named_tool_calls (ms @ [m])"
  using assms by (auto simp: no_adjacent_assistants_def named_tool_calls_def successively_append_iff)

lemma qualify_nonempty: "qualify_tool_name js item name = Inr n \<Longrightarrow> name \<noteq> [] \<Longrightarrow> n \<noteq> []"
  by (auto simp: qualify_tool_name_def Let_def split: if_splits)

lemma call_item_shape:
  assumes "call_item js type item = Inr m"
  shows "role m = role_assistant \<and> (\<forall>c \<in> set (tool_calls m). tc_name c \<noteq> [])"
proof -
  from assms obtain spec call name where call: "tool_call_from_item js spec (type = ''custom_tool_call'') = Inr call"
    and name: "qualify_tool_name js spec (tc_name call) = Inr name"
    and m: "m = (plain_message role_assistant [])\<lparr> tool_calls := [call\<lparr> tc_name := name \<rparr>] \<rparr>"
    by (auto simp: call_item_def Let_def then_do_Inr_iff)
  have "tc_name call \<noteq> []"
    using call by (auto simp: tool_call_from_item_def then_do_Inr_iff split: if_splits)
  with qualify_nonempty [OF name] m show ?thesis by (simp add: plain_message_def)
qed

lemma output_item_shape: "output_item js type item = Inr m \<Longrightarrow> role m = role_tool \<and> tool_calls m = []"
  by (auto simp: output_item_def tool_output_def then_do_Inr_iff plain_message_def split: option.splits)

lemma roles_differ [simp]: "role_tool \<noteq> role_assistant" "role_user \<noteq> role_assistant" "role_system \<noteq> role_assistant"
  by (simp_all add: role_tool_def role_user_def role_system_def role_assistant_def)

lemma plain_message_keeps:
  fixes r t :: string
  assumes "no_adjacent_assistants ms" and "named_tool_calls ms"
  defines "ms' \<equiv> (if r = role_assistant then merge_assistant ms (plain_message r t) else ms @ [plain_message r t])"
  shows "no_adjacent_assistants ms' \<and> named_tool_calls ms'"
proof (cases "r = role_assistant")
  case True
  then show ?thesis using merge_keeps [OF assms(1,2)] by (simp add: ms'_def plain_message_def)
next
  case False
  then show ?thesis using append_keeps [OF assms(1,2)] by (simp add: ms'_def plain_message_def)
qed

lemma message_item_keeps:
  assumes "message_item js ms item = Inr ms'" and "no_adjacent_assistants ms" and "named_tool_calls ms"
  shows "no_adjacent_assistants ms' \<and> named_tool_calls ms'"
proof (cases "ms' = ms")
  case False
  with assms(1) obtain r t where
    "ms' = (if r = role_assistant then merge_assistant ms (plain_message r t) else ms @ [plain_message r t])"
    by (simp add: message_item_def Let_def then_do_Inr_iff split: option.splits) blast
  then show ?thesis using plain_message_keeps [OF assms(2,3)] by simp
qed (use assms in simp)

lemma reasoning_item_keeps:
  "no_adjacent_assistants ms \<Longrightarrow> named_tool_calls ms \<Longrightarrow>
   no_adjacent_assistants (reasoning_item js ms item) \<and> named_tool_calls (reasoning_item js ms item)"
  by (simp add: reasoning_item_def Let_def merge_keeps plain_message_def)

lemma item_of_type_keeps:
  assumes "item_of_type js ms item type = Inr ms'" and "no_adjacent_assistants ms" and "named_tool_calls ms"
  shows "no_adjacent_assistants ms' \<and> named_tool_calls ms'"
proof -
  have call: ?thesis if "then_do (call_item js type item) (\<lambda>m. Inr (merge_assistant ms m)) = Inr ms'"
  proof -
    from that obtain m where "call_item js type item = Inr m" "ms' = merge_assistant ms m"
      by (auto simp: then_do_Inr_iff)
    with call_item_shape [of js type item m] merge_keeps [OF assms(2,3), of m] show ?thesis by simp
  qed
  have out: ?thesis if "then_do (output_item js type item) (\<lambda>m. Inr (ms @ [m])) = Inr ms'"
    using that output_item_shape append_keeps [OF assms(2,3)] by (fastforce simp: then_do_Inr_iff)
  show ?thesis
    using assms call out unfolding item_of_type_def
    by (simp only: split: if_splits) (auto simp: reasoning_item_keeps message_item_keeps)
qed

lemma input_item_keeps:
  "input_item js ms item = Inr ms' \<Longrightarrow> no_adjacent_assistants ms \<and> named_tool_calls ms \<Longrightarrow>
   no_adjacent_assistants ms' \<and> named_tool_calls ms'"
  by (auto simp: input_item_def then_do_Inr_iff item_of_type_keeps split: if_splits)

lemma input_items_keep:
  "fold_err (input_item js) ms items = Inr ms' \<Longrightarrow> no_adjacent_assistants ms \<and> named_tool_calls ms \<Longrightarrow>
   no_adjacent_assistants ms' \<and> named_tool_calls ms'"
  by (rule fold_err_inv [where P = "\<lambda>ms. no_adjacent_assistants ms \<and> named_tool_calls ms"])
    (auto dest: input_item_keeps)

definition good_tool :: "('j, 'z) json_api_scheme \<Rightarrow> chat_tool \<Rightarrow> bool" where
  "good_tool js t \<longleftrightarrow> tool_spec_name t \<noteq> [] \<and>
     (tool_parameters t = [] \<or> (\<exists>v. tool_parameters t = j_dump js v \<and> j_members js v \<noteq> None))"

definition good_tools :: "('j, 'z) json_api_scheme \<Rightarrow> 'j responses_turn \<Rightarrow> bool" where
  "good_tools js turn \<longleftrightarrow> good_namespaces (turn_namespaces turn) \<and> (\<forall>t \<in> set (turn_tools turn). good_tool js t)"

text \<open>Reading tools changes nothing else of the turn.\<close>

definition beside_tools :: "'j responses_turn \<Rightarrow> 'j chat_message list \<times> int \<times> string" where
  "beside_tools turn = (turn_messages turn, turn_max_tokens turn, turn_session_id turn)"

lemma chat_tool_good: "chat_tool_from_json js j = Inr t \<Longrightarrow> good_tool js t"
  by (auto simp: chat_tool_from_json_def Let_def then_do_Inr_iff good_tool_def
      split: if_splits option.splits sum.splits)

lemma add_tool_keeps:
  "good_tools js turn \<Longrightarrow> good_tool js t \<Longrightarrow>
   good_tools js (turn\<lparr> turn_tools := turn_tools turn @ [t] \<rparr>) \<and>
   beside_tools (turn\<lparr> turn_tools := turn_tools turn @ [t] \<rparr>) = beside_tools turn"
  by (auto simp: good_tools_def beside_tools_def)

lemma single_tool_keeps:
  assumes "append_single_tool js kind ns turn tool = Inr turn'" and "good_tools js turn"
  shows "good_tools js turn' \<and> beside_tools turn' = beside_tools turn"
proof (cases "kind \<noteq> ''function'' \<and> kind \<noteq> ''custom'' \<and> kind \<noteq> ''tool_search''")
  case True
  with assms show ?thesis by (simp add: append_single_tool_def)
next
  case False
  let ?v = "if kind = ''tool_search'' then complete_search_tool js tool else tool"
  from assms(1) False obtain t where t: "chat_tool_from_json js ?v = Inr t"
    by (cases "chat_tool_from_json js ?v") (simp_all add: append_single_tool_def)
  note good = chat_tool_good [OF t]
  show ?thesis
  proof (cases "ns = []")
    case True
    with assms(1) False t add_tool_keeps [OF assms(2) good] show ?thesis by (simp add: append_single_tool_def)
  next
    case ns: False
    have "good_tool js (t\<lparr> tool_spec_name := ns @ ''.'' @ tool_spec_name t \<rparr>)"
      using good by (simp add: good_tool_def)
    from add_tool_keeps [OF assms(2) this] assms(1) False t ns show ?thesis
      by (simp add: append_single_tool_def split: if_splits)
  qed
qed

lemma remember_namespace_keeps:
  "good_tools js turn \<Longrightarrow> ns \<noteq> [] \<Longrightarrow> CHR ''.'' \<notin> set ns \<Longrightarrow>
   good_tools js (remember_namespace ns turn) \<and> beside_tools (remember_namespace ns turn) = beside_tools turn"
  by (auto simp: remember_namespace_def good_tools_def good_namespaces_def beside_tools_def)

lemma model_tool_keeps:
  "append_model_tool js ns turn tool = Inr turn' \<Longrightarrow> good_tools js turn \<Longrightarrow>
   good_tools js turn' \<and> beside_tools turn' = beside_tools turn"
proof (induction js ns turn tool arbitrary: turn' rule: append_model_tool.induct)
  case (1 js ns turn tool)
  let ?kind = "if string_field js tool ''type'' = [] then ''function'' else string_field js tool ''type''"
  let ?nested = "string_field js tool ''name''"
  show ?case
  proof (cases "?kind = ''namespace''")
    case False
    with "1.prems"(1) have "append_single_tool js ?kind ns turn tool = Inr turn'"
      by (simp add: append_model_tool.simps [of js ns] Let_def split: if_splits)
    from single_tool_keeps [OF this "1.prems"(2)] show ?thesis .
  next
    case True
    with "1.prems"(1) obtain v members where n: "?nested \<noteq> []" "CHR ''.'' \<notin> set ?nested" "ns = []"
      and v: "j_get js ''tools'' tool = Some v" "j_elements js v = Some members"
      and fold: "fold_err (\<lambda>turn member.
            if j_members js member = None then Inl (Bad_request ''each tool must be an object'')
            else append_model_tool js ?nested turn member) (remember_namespace ?nested turn) members = Inr turn'"
      by (auto simp: append_model_tool.simps [of js ns] Let_def split: if_splits option.splits)
    let ?P = "\<lambda>t. good_tools js t \<and> beside_tools t = beside_tools turn"
    show ?thesis
    proof (rule fold_err_inv [OF fold, where P = ?P])
      show "?P (remember_namespace ?nested turn)"
        using remember_namespace_keeps [OF "1.prems"(2) n(1,2)] .
      fix t x t'
      assume x: "x \<in> set members" and t: "?P t"
        and st: "(if j_members js x = None then Inl (Bad_request ''each tool must be an object'')
            else append_model_tool js ?nested t x) = Inr t'"
      then have m: "j_members js x \<noteq> None" "append_model_tool js ?nested t x = Inr t'"
        by (simp_all split: if_splits)
      from "1.IH" [OF refl refl True refl n(1,2) _ v x m(1) m(2)] n(3) t show "?P t'" by simp
    qed
  qed
qed

lemma int32_bounds: "- (2 ^ 31) \<le> int32_of n \<and> int32_of n < 2 ^ 31"
  using sint_ge [of "word_of_int n :: 32 word"] sint_lt [of "word_of_int n :: 32 word"] by (simp add: int32_of_def)

definition id_char_set :: "char \<Rightarrow> bool" where
  "id_char_set c \<longleftrightarrow> is_alnum_char c \<or> c \<in> set ''._-''"

lemma cache_session_id_shape:
  "cache_session_id key \<noteq> [] \<and> length (cache_session_id key) \<le> 120 \<and> list_all id_char_set (cache_session_id key)"
  by (auto simp: cache_session_id_def Let_def id_char_set_def list_all_iff is_alnum_char_def is_lower_char_def)

lemma request_head_cases:
  assumes "request_head js body = Inr turn"
  obtains m i s n t k where
    "turn = new_turn\<lparr> turn_model := m, turn_instructions := i, turn_stream := s, turn_max_tokens := n,
       turn_temperature := t, turn_session_id := k \<rparr>"
    "n = -1 \<or> (\<exists>z. n = int32_of z)" "k = ''codex'' \<or> (\<exists>key. k = cache_session_id key)"
proof -
  let ?n = "case j_get js ''max_output_tokens'' body of None \<Rightarrow> -1
    | Some v \<Rightarrow> (case j_int_of js v of None \<Rightarrow> -1 | Some n \<Rightarrow> int32_of n)"
  let ?k = "case j_get js ''prompt_cache_key'' body of None \<Rightarrow> ''codex''
    | Some v \<Rightarrow> (case j_string_of js v of None \<Rightarrow> ''codex'' | Some key \<Rightarrow> cache_session_id key)"
  have "?n = -1 \<or> (\<exists>z. ?n = int32_of z)" by (cases "j_get js ''max_output_tokens'' body") (auto split: option.split)
  moreover have "?k = ''codex'' \<or> (\<exists>key. ?k = cache_session_id key)"
    by (cases "j_get js ''prompt_cache_key'' body") (auto split: option.split)
  ultimately show thesis
    using assms unfolding request_head_def then_do_Inr_iff by (elim exE conjE) (simp only: sum.inject, rule that, rule sym)
qed

lemma request_head_shape:
  assumes "request_head js body = Inr turn"
  shows "good_tools js turn \<and> turn_messages turn = [] \<and> - (2 ^ 31) \<le> turn_max_tokens turn \<and>
    turn_max_tokens turn < 2 ^ 31 \<and> turn_session_id turn \<noteq> [] \<and> length (turn_session_id turn) \<le> 120 \<and>
    list_all id_char_set (turn_session_id turn)"
  using assms
proof (rule request_head_cases)
  fix m i s n t k
  assume turn: "turn = new_turn\<lparr> turn_model := m, turn_instructions := i, turn_stream := s, turn_max_tokens := n,
       turn_temperature := t, turn_session_id := k \<rparr>"
    and n: "n = -1 \<or> (\<exists>z. n = int32_of z)" and k: "k = ''codex'' \<or> (\<exists>key. k = cache_session_id key)"
  have "- (2 ^ 31) \<le> n \<and> n < 2 ^ 31" using n int32_bounds by auto
  moreover have "list_all id_char_set ''codex''" by code_simp
  then have "k \<noteq> [] \<and> length k \<le> 120 \<and> list_all id_char_set k" using k cache_session_id_shape by auto
  ultimately show ?thesis by (simp add: turn new_turn_def good_tools_def good_namespaces_def)
qed

text \<open>
  C21. An accepted request is a well-formed turn: assistant messages never stand next to each other, every
  tool call has a name, tools have names and parameters that are JSON objects, namespaces are distinct
  names without a dot, the token limit is a 32-bit number, and the session id has between 1 and 120
  characters that a file name may hold.
\<close>

theorem accepted_request_is_well_formed:
  assumes "responses_from_json js body = Inr turn"
  shows "no_adjacent_assistants (turn_messages turn) \<and> named_tool_calls (turn_messages turn) \<and> good_tools js turn \<and>
    - (2 ^ 31) \<le> turn_max_tokens turn \<and> turn_max_tokens turn < 2 ^ 31 \<and> turn_session_id turn \<noteq> [] \<and>
    length (turn_session_id turn) \<le> 120 \<and> list_all id_char_set (turn_session_id turn)"
proof -
  from assms obtain input h t where h: "request_head js body = Inr h" and t: "request_tools js body h = Inr t"
    and turn: "request_input js input t = Inr turn"
    by (auto simp: responses_from_json_def then_do_Inr_iff split: if_splits option.splits)
  note head = request_head_shape [OF h]
  have tools: "good_tools js t \<and> beside_tools t = beside_tools h"
  proof (cases "t = h")
    case False
    let ?f = "\<lambda>turn tool. if j_members js tool = None then Inl (Bad_request ''each tool must be an object'')
                 else append_model_tool js [] turn tool"
    from False t obtain v tools where "fold_err ?f h tools = Inr t"
      by (auto simp: request_tools_def split: option.splits)
    then show ?thesis
      by (rule fold_err_inv [where P = "\<lambda>t. good_tools js t \<and> beside_tools t = beside_tools h"])
        (use head in \<open>auto dest: model_tool_keeps split: if_splits\<close>)
  qed (use head in simp)
  from turn consider s where "turn = t\<lparr> turn_messages := turn_messages t @ [plain_message role_user s] \<rparr>"
    | items ms where "fold_err (input_item js) (turn_messages t) items = Inr ms" "turn = t\<lparr> turn_messages := ms \<rparr>"
    by (auto simp: request_input_def then_do_Inr_iff split: option.splits)
  then show ?thesis
  proof cases
    case (1 s)
    with head tools show ?thesis
      by (simp add: beside_tools_def good_tools_def no_adjacent_assistants_def named_tool_calls_def plain_message_def)
  next
    case (2 items ms)
    have "turn_messages t = []" using head tools by (simp add: beside_tools_def)
    with input_items_keep [OF 2(1)] have "no_adjacent_assistants ms \<and> named_tool_calls ms"
      by (simp add: no_adjacent_assistants_def named_tool_calls_def)
    with head tools 2(2) show ?thesis by (simp add: beside_tools_def good_tools_def)
  qed
qed

definition demo_request :: json_tree where
  "demo_request = J_object
     [(''input'', J_array
        [J_object [(''role'', J_string ''user''), (''content'', J_string ''hi'')],
         J_object [(''type'', J_string ''reasoning''),
                   (''summary'', J_array [J_object [(''text'', J_string ''hm'')]])],
         J_object [(''type'', J_string ''function_call''), (''name'', J_string ''read''), (''namespace'', J_string ''fs'')]]),
      (''tools'', J_array
        [J_object [(''type'', J_string ''namespace''), (''name'', J_string ''fs''),
                   (''tools'', J_array [J_object [(''name'', J_string ''read'')]])]]),
      (''prompt_cache_key'', J_string ''a/b'')]"

definition demo_turn :: "json_tree responses_turn" where
  "demo_turn = new_turn\<lparr>
     turn_messages := [plain_message role_user ''hi'',
       (plain_message role_assistant [])\<lparr> reasoning_content := ''hm'',
          tool_calls := [\<lparr> tc_id = [], tc_name = ''fs.read'', tc_arguments = J_object [] \<rparr>] \<rparr>],
     turn_tools := [\<lparr> tool_spec_name = ''fs.read'', tool_description = [], tool_parameters = [] \<rparr>],
     turn_namespaces := [''fs''], turn_session_id := ''a_b'' \<rparr>"

lemma demo_request_accepted: "responses_from_json tree_json demo_request = Inr demo_turn"
  by code_simp

theorem accepted_request_is_well_formed_witness:
  "no_adjacent_assistants (turn_messages demo_turn) \<and> good_tools tree_json demo_turn \<and>
   length (turn_messages demo_turn) = 2 \<and> list_all id_char_set (turn_session_id demo_turn)"
  using accepted_request_is_well_formed [OF demo_request_accepted] by (simp add: demo_turn_def)

end
