(* ===== verification/Devstral_Call.thy ===== *)
theory Devstral_Call
  imports Text_Scan
begin

text \<open>
  \<open>src/common/devstral_call.hpp\<close>: where one tool call of the Devstral syntax ends. The index the
  code takes is replaced by the text from there on, so a result counts from the start of that text.
\<close>

section \<open>The end of a JSON value\<close>

definition k_devstral_tool_calls :: string where
  "k_devstral_tool_calls = ''[TOOL_CALLS]''"

definition k_devstral_tool_args :: string where
  "k_devstral_tool_args = ''[ARGS]''"

record scan_state =
  braces :: nat
  brackets :: nat
  in_string :: bool
  escape :: bool

text \<open>One character: \<open>None\<close> gives up, the flag says that the value is complete.\<close>

definition value_step :: "scan_state \<Rightarrow> char \<Rightarrow> (bool \<times> scan_state) option" where
  "value_step st ch =
     (if in_string st
      then Some (False, if escape st then st\<lparr> escape := False \<rparr>
                        else if ch = CHR 0x5C then st\<lparr> escape := True \<rparr>
                        else if ch = CHR 0x22 then st\<lparr> in_string := False \<rparr> else st)
      else if ch = CHR 0x22 then Some (False, st\<lparr> in_string := True \<rparr>)
      else if ch = CHR ''}'' \<and> braces st = 0 \<or> ch = CHR '']'' \<and> brackets st = 0 then None
      else let st = (if ch = CHR ''{'' then st\<lparr> braces := Suc (braces st) \<rparr>
                     else if ch = CHR ''}'' then st\<lparr> braces := braces st - 1 \<rparr>
                     else if ch = CHR ''['' then st\<lparr> brackets := Suc (brackets st) \<rparr>
                     else if ch = CHR '']'' then st\<lparr> brackets := brackets st - 1 \<rparr> else st)
           in Some (braces st = 0 \<and> brackets st = 0, st))"

fun value_scan :: "scan_state \<Rightarrow> nat \<Rightarrow> string \<Rightarrow> nat option" where
  "value_scan st i [] = None"
| "value_scan st i (ch # cs) =
     (case value_step st ch of
        None \<Rightarrow> None
      | Some (complete, st) \<Rightarrow> if complete then Some (Suc i) else value_scan st (Suc i) cs)"

definition scan_start :: scan_state where
  "scan_start = \<lparr> braces = 0, brackets = 0, in_string = False, escape = False \<rparr>"

definition json_value_end :: "string \<Rightarrow> nat option" where
  "json_value_end s =
     (let v = skip_space s
      in if v = [] \<or> (hd v \<noteq> CHR ''{'' \<and> hd v \<noteq> CHR ''['') then None
         else value_scan scan_start (length s - length v) v)"

definition devstral_call_end :: "string \<Rightarrow> nat option" where
  "devstral_call_end s =
     (if \<not> prefix k_devstral_tool_calls s then None
      else let cursor = skip_space (drop (length k_devstral_tool_calls) s);
               at = length s - length cursor
           in if cursor = [] then None
              else if hd cursor = CHR ''{'' \<or> hd cursor = CHR ''[''
              then map_option (\<lambda>e. at + e) (json_value_end cursor)
              else case sfind k_devstral_tool_args cursor of
                     None \<Rightarrow> None
                   | Some a \<Rightarrow>
                       (let payload = drop (a + length k_devstral_tool_args) cursor
                        in map_option (\<lambda>e. at + (a + length k_devstral_tool_args) + e) (json_value_end payload)))"

section \<open>Text that arrives later does not move the end\<close>

lemma value_scan_bounds: "value_scan st i s = Some e \<Longrightarrow> i < e \<and> e \<le> i + length s"
  by (induction st i s rule: value_scan.induct) (fastforce split: option.splits prod.splits if_splits)+

lemma value_scan_append: "value_scan st i s = Some e \<Longrightarrow> value_scan st i (s @ t) = Some e"
  by (induction st i s rule: value_scan.induct) (auto split: option.splits prod.splits if_splits)

lemma skip_space_append: "skip_space s \<noteq> [] \<Longrightarrow> skip_space (s @ t) = skip_space s @ t"
  unfolding skip_space_def by (induction s) auto

lemma skip_space_le: "length (skip_space s) \<le> length s"
  unfolding skip_space_def by (rule length_dropWhile_le)

lemma json_value_end_spec:
  assumes "json_value_end s = Some e"
  shows "json_value_end (s @ t) = Some e" "e \<le> length s" "0 < e"
proof -
  let ?v = "skip_space s"
  from assms have v: "?v \<noteq> []" "hd ?v = CHR ''{'' \<or> hd ?v = CHR ''[''"
    and scan: "value_scan scan_start (length s - length ?v) ?v = Some e"
    by (auto simp: json_value_end_def Let_def split: if_splits)
  have "length (s @ t) - length (?v @ t) = length s - length ?v" by simp
  with v value_scan_append [OF scan, of t] show "json_value_end (s @ t) = Some e"
    by (simp add: json_value_end_def Let_def skip_space_append)
  from value_scan_bounds [OF scan] skip_space_le [of s] show "e \<le> length s" "0 < e" by auto
qed

lemma devstral_call_end_spec:
  assumes "devstral_call_end s = Some e"
  shows "devstral_call_end (s @ t) = Some e \<and> e \<le> length s \<and> length k_devstral_tool_calls < e"
proof -
  let ?n = "length k_devstral_tool_calls"
  let ?c = "skip_space (drop ?n s)"
  let ?at = "length s - length ?c"
  from assms have p: "prefix k_devstral_tool_calls s" and c: "?c \<noteq> []"
    by (auto simp: devstral_call_end_def Let_def split: if_splits)
  have len: "?n \<le> length s" using p by (rule prefix_length_le)
  have le: "length ?c \<le> length s - ?n" using skip_space_le [of "drop ?n s"] by simp
  have app: "skip_space (drop ?n (s @ t)) = ?c @ t" using skip_space_append [OF c] len by simp
  have at: "length (s @ t) - length (?c @ t) = ?at" by simp
  have pt: "prefix k_devstral_tool_calls (s @ t)" using p by simp
  show ?thesis
  proof (cases "hd ?c = CHR ''{'' \<or> hd ?c = CHR ''[''")
    case True
    with assms p c obtain e' where e': "json_value_end ?c = Some e'" "e = ?at + e'"
      by (auto simp: devstral_call_end_def Let_def split: if_splits)
    have "devstral_call_end (s @ t) = Some e"
      using json_value_end_spec(1) [OF e'(1), of t] c True pt e'(2)
      by (simp add: devstral_call_end_def Let_def app at del: drop_append length_append)
    with e' json_value_end_spec(2,3) [OF e'(1)] le len show ?thesis by linarith
  next
    case False
    with assms p c obtain a e' where a: "sfind k_devstral_tool_args ?c = Some a"
      "json_value_end (drop (a + length k_devstral_tool_args) ?c) = Some e'"
      "e = ?at + (a + length k_devstral_tool_args) + e'"
      by (auto simp: devstral_call_end_def Let_def split: if_splits option.splits)
    have room: "a + length k_devstral_tool_args \<le> length ?c" using sfind_SomeD [OF a(1)] by simp
    then have "drop (a + length k_devstral_tool_args) (?c @ t) = drop (a + length k_devstral_tool_args) ?c @ t"
      by simp
    then have "devstral_call_end (s @ t) = Some e"
      using json_value_end_spec(1) [OF a(2), of t] sfind_append [OF a(1), of t] c False pt a(3)
      by (simp add: devstral_call_end_def Let_def app at del: drop_append length_append)
    with a json_value_end_spec(2,3) [OF a(2)] le len room show ?thesis by simp linarith
  qed
qed

text \<open>
  Where a streamed Devstral call ends is decided by the call alone: once the text holds a whole
  call, no text that arrives later moves its end, and no shorter part of the text holds a whole
  call. The end lies inside the text and past the marker that opens the call.
\<close>

theorem devstral_call_end_is_stable:
  assumes "devstral_call_end s = Some e"
  shows "devstral_call_end (s @ t) = Some e \<and> (\<forall>n < e. devstral_call_end (take n s) = None) \<and>
    length k_devstral_tool_calls < e \<and> e \<le> length s"
proof -
  have "devstral_call_end (take n s) = None" if "n < e" for n
  proof (cases "devstral_call_end (take n s)")
    case (Some e')
    from devstral_call_end_spec [OF Some, of "drop n s"] assms that show ?thesis by simp
  qed
  with devstral_call_end_spec [OF assms] show ?thesis by blast
qed

theorem devstral_call_end_is_stable_witness:
  "let call = ''[TOOL_CALLS]f[ARGS]{'' @ [CHR 0x22] @ ''}'' @ [CHR 0x22] @ ''}''
   in devstral_call_end call = Some 24 \<and> devstral_call_end (call @ ''}[TOOL_CALLS]g'') = Some 24 \<and>
      devstral_call_end (take 23 call) = None"
proof -
  let ?call = "''[TOOL_CALLS]f[ARGS]{'' @ [CHR 0x22] @ ''}'' @ [CHR 0x22] @ ''}''"
  have e: "devstral_call_end ?call = Some 24" by code_simp
  have n: "(23::nat) < 24" by simp
  have "devstral_call_end (?call @ ''}[TOOL_CALLS]g'') = Some 24 \<and> devstral_call_end (take 23 ?call) = None"
    using devstral_call_end_is_stable [OF e, of "''}[TOOL_CALLS]g''"] n by blast
  with e show ?thesis unfolding Let_def by (intro conjI) simp_all
qed

end
