(* ===== verification/Model_Adapter.thy ===== *)
theory Model_Adapter
  imports Devstral_Call Models Json_Api "HOL-Library.AList"
begin

text \<open>
  \<open>src/server/agent/model_adapter.cpp\<close>: how each model family writes its tool calls, the example
  call of its system prompt, the parameters of a tool's schema, and the coercion of parsed
  arguments to the types the schema asks for. JSON is a parameter (\<open>Json_Api\<close>); an object under
  construction is its list of members.
\<close>

section \<open>Helpers\<close>

definition drop_suffix_len :: "nat \<Rightarrow> string \<Rightarrow> string" where
  "drop_suffix_len n s = take (length s - n) s"

definition ends_with :: "string \<Rightarrow> string \<Rightarrow> bool" where
  "ends_with s e \<longleftrightarrow> suffix e s"

abbreviation cr :: char where "cr \<equiv> CHR 0x0D"

definition unwrap_parameter_value :: "string \<Rightarrow> string" where
  "unwrap_parameter_value val =
     (let val = (if prefix [cr, nl] val then drop 2 val
                   else if prefix [nl] val then drop 1 val else val)
      in if ends_with val [cr, nl] then drop_suffix_len 2 val
         else if ends_with val [nl]
         then (let val = drop_suffix_len 1 val
               in if ends_with val [cr] then drop_suffix_len 1 val else val)
         else val)"

definition strip_json_fence :: "string \<Rightarrow> string" where
  "strip_json_fence s =
     (let s = trim_sv s
      in if prefix ''```'' s
         then (let s = (case sfind [nl] s of None \<Rightarrow> s | Some i \<Rightarrow> drop (Suc i) s);
                   s = (if ends_with s ''```'' then drop_suffix_len 3 s else s)
               in trim_sv s)
         else s)"

text \<open>\<open>Inl\<close> where the parser throws.\<close>

definition parse_argument_object :: "('j, 'z) json_api_scheme \<Rightarrow> string \<Rightarrow> string + 'j" where
  "parse_argument_object js payload =
     (case j_parse js (strip_json_fence payload) of
        Inl what \<Rightarrow> Inl what
      | Inr parsed \<Rightarrow>
          (case (case j_string_of js parsed of None \<Rightarrow> Inr parsed | Some s \<Rightarrow> j_parse js s) of
             Inl what \<Rightarrow> Inl what
           | Inr v \<Rightarrow> Inr (if j_members js v = None then j_object js [] else v)))"

section \<open>Schemas\<close>

record tool_parameter =
  p_name :: string
  p_type :: string
  p_description :: string
  p_required :: bool

definition schema_type :: "('j, 'z) json_api_scheme \<Rightarrow> 'j \<Rightarrow> string" where
  "schema_type js spec =
     (let t = (case j_get js ''type'' spec of
                 None \<Rightarrow> []
               | Some ty \<Rightarrow>
                   (case j_string_of js ty of
                      Some s \<Rightarrow> s
                    | None \<Rightarrow>
                        (case j_elements js ty of
                           None \<Rightarrow> []
                         | Some parts \<Rightarrow>
                             (case filter (\<lambda>s. s \<noteq> ''null'') (List.map_filter (j_string_of js) parts) of
                                [] \<Rightarrow> [] | s # _ \<Rightarrow> s))))
      in if t = [] then ''string'' else t)"

definition tool_parameter_of :: "('j, 'z) json_api_scheme \<Rightarrow> 'j \<Rightarrow> string \<times> 'j \<Rightarrow> tool_parameter" where
  "tool_parameter_of js required kv =
     (let (key, spec) = kv
      in \<lparr> p_name = key,
           p_type = (if j_members js spec = None then [] else schema_type js spec),
           p_description = (if j_members js spec = None then []
                            else case j_get js ''description'' spec of
                                   None \<Rightarrow> []
                                 | Some d \<Rightarrow> (case j_string_of js d of None \<Rightarrow> [] | Some s \<Rightarrow> s)),
           p_required = (case j_elements js required of
                           None \<Rightarrow> False
                         | Some items \<Rightarrow> \<exists>item \<in> set items. j_string_of js item = Some key) \<rparr>)"

definition tool_parameters_of :: "('j, 'z) json_api_scheme \<Rightarrow> chat_tool \<Rightarrow> tool_parameter list" where
  "tool_parameters_of js tool =
     (if tool_parameters tool = [] then []
      else case j_parse js (tool_parameters tool) of
             Inl _ \<Rightarrow> []
           | Inr schema \<Rightarrow>
               (case j_get js ''properties'' schema of
                  None \<Rightarrow> []
                | Some properties \<Rightarrow>
                    (case j_members js properties of
                       None \<Rightarrow> []
                     | Some members \<Rightarrow>
                         (let required = (case j_get js ''required'' schema of
                                            None \<Rightarrow> j_array js [] | Some r \<Rightarrow> r)
                          in map (tool_parameter_of js required) members))))"

definition parameter_placeholder :: "tool_parameter \<Rightarrow> string" where
  "parameter_placeholder p =
     (if p_type p = ''integer'' \<or> p_type p = ''number'' then ''0''
      else if p_type p = ''boolean'' then ''false''
      else if p_description p \<noteq> [] then p_description p
      else p_name p)"

definition example_arguments :: "('j, 'z) json_api_scheme \<Rightarrow> chat_tool \<Rightarrow> 'j" where
  "example_arguments js tool =
     j_object js (foldl (\<lambda>args p. AList.update (p_name p)
       (if p_type p = ''integer'' then j_int js 0
        else if p_type p = ''number'' then j_zero js
        else if p_type p = ''boolean'' then j_bool js False
        else j_string js (parameter_placeholder p)) args) [] (tool_parameters_of js tool))"

section \<open>The Qwen and Bonsai syntax\<close>

text \<open>Every syntax drops a call without a name and leaves the id to the caller.\<close>

definition named_call :: "string \<Rightarrow> 'j \<Rightarrow> 'j parsed_tool_call list" where
  "named_call cname arguments =
     (if cname = [] then [] else [\<lparr> tc_id = [], tc_name = cname, tc_arguments = arguments \<rparr>])"

definition k_function :: string where "k_function = ''<function=''"
definition k_function_end :: string where "k_function_end = ''</function>''"
definition k_parameter :: string where "k_parameter = ''<parameter=''"
definition k_parameter_end :: string where "k_parameter_end = ''</parameter>''"

function parameter_values :: "('j, 'z) json_api_scheme \<Rightarrow> string \<Rightarrow> (string \<times> 'j) list \<Rightarrow> (string \<times> 'j) list" where
  "parameter_values js body args =
     (case cut_at k_parameter body of
        None \<Rightarrow> args
      | Some (_, after) \<Rightarrow>
          (case cut_at ''>'' after of
             None \<Rightarrow> args
           | Some (pname, rest) \<Rightarrow>
               (case cut_at k_parameter_end rest of
                  None \<Rightarrow> args
                | Some (val, body) \<Rightarrow>
                    parameter_values js body
                      (if trim_sv pname = [] then args
                       else AList.update (trim_sv pname) (j_string js (unwrap_parameter_value val)) args))))"
  by pat_completeness auto
termination
proof (relation "measure (\<lambda>(js, body, args). length body)", simp, clarsimp)
  fix body u after pname rest val body' :: string
  assume "cut_at k_parameter body = Some (u, after)" "cut_at ''>'' after = Some (pname, rest)"
    "cut_at k_parameter_end rest = Some (val, body')"
  then show "length body' < length body"
    by (auto dest!: cut_at_shorter simp: k_parameter_def k_parameter_end_def)
qed

declare parameter_values.simps [simp del]

text \<open>The first call of a text, if it has one, and the text after it.\<close>

definition function_call_at :: "('j, 'z) json_api_scheme \<Rightarrow> string \<Rightarrow> ('j parsed_tool_call list \<times> string) option" where
  "function_call_at js s =
     (case cut_at k_function s of
        None \<Rightarrow> None
      | Some (_, after) \<Rightarrow>
          (case cut_at ''>'' after of
             None \<Rightarrow> None
           | Some (fname, rest) \<Rightarrow>
               (case cut_at k_function_end rest of
                  None \<Rightarrow> None
                | Some (body, s) \<Rightarrow>
                    (let args = parameter_values js body [];
                         arguments = (if args \<noteq> [] then j_object js args
                                      else case j_parse js (trim_sv body) of
                                             Inl _ \<Rightarrow> j_object js []
                                           | Inr v \<Rightarrow> if j_members js v = None then j_object js [] else v)
                     in Some (named_call (trim_sv fname) arguments, s)))))"

lemma function_call_shorter: "function_call_at js s = Some (new, s') \<Longrightarrow> length s' < length s"
  by (auto simp: function_call_at_def k_function_def k_function_end_def Let_def split: option.splits
      dest!: cut_at_shorter)

function append_function_parameter_calls :: "('j, 'z) json_api_scheme \<Rightarrow> string \<Rightarrow> 'j parsed_tool_call list \<Rightarrow>
    'j parsed_tool_call list" where
  "append_function_parameter_calls js s out =
     (case function_call_at js s of
        None \<Rightarrow> out
      | Some (new, s) \<Rightarrow> append_function_parameter_calls js s (out @ new))"
  by pat_completeness auto
termination
  by (relation "measure (\<lambda>(js, s, out). length s)") (auto dest: function_call_shorter)

declare append_function_parameter_calls.simps [simp del]

definition function_parameter_example :: "('j, 'z) json_api_scheme \<Rightarrow> chat_tool list \<Rightarrow> string" where
  "function_parameter_example js tools =
     (case tools of
        [] \<Rightarrow> []
      | tool # _ \<Rightarrow>
          ''Call a tool in this format:'' @ [nl] @ ''<tool_call>'' @ [nl] @ k_function @ tool_spec_name tool @ ''>'' @ [nl] @
          concat (map (\<lambda>p. k_parameter @ p_name p @ ''>'' @ [nl] @ parameter_placeholder p @ [nl] @
                           k_parameter_end @ [nl]) (tool_parameters_of js tool)) @
          k_function_end @ [nl] @ ''</tool_call>'' @ [nl, nl] @
          ''Put each argument in its own <parameter=name> block. The text inside the block is the value, not a JSON object.'' @ [nl, nl])"

section \<open>The DeepSeek syntax\<close>

text \<open>The markers hold U+FF5C and U+2581 in UTF-8.\<close>

definition ds_tag :: "string list \<Rightarrow> string" where
  "ds_tag words = ''<'' @ [CHR 0xEF, CHR 0xBD, CHR 0x9C] @
     concat (map (\<lambda>w. (if w = hd words then [] else [CHR 0xE2, CHR 0x96, CHR 0x81]) @ w) words) @
     [CHR 0xEF, CHR 0xBD, CHR 0x9C] @ ''>''"

definition ds_begin :: string where "ds_begin = ds_tag [''tool'', ''call'', ''begin'']"
definition ds_sep :: string where "ds_sep = ds_tag [''tool'', ''sep'']"
definition ds_end :: string where "ds_end = ds_tag [''tool'', ''call'', ''end'']"
definition ds_calls_begin :: string where "ds_calls_begin = ds_tag [''tool'', ''calls'', ''begin'']"
definition ds_calls_end :: string where "ds_calls_end = ds_tag [''tool'', ''calls'', ''end'']"

definition deepseek_call :: "('j, 'z) json_api_scheme \<Rightarrow> string \<Rightarrow> 'j parsed_tool_call list" where
  "deepseek_call js body =
     (case cut_at ds_sep body of
        None \<Rightarrow> []
      | Some (before, right) \<Rightarrow>
          (let left = trim_sv before;
               (cname, args) = (if left = ''function''
                                then case cut_at [nl] right of
                                       None \<Rightarrow> (trim_sv right, [])
                                     | Some (line, rest) \<Rightarrow> (trim_sv line, rest)
                                else (left, right))
           in named_call cname (case parse_argument_object js args of
                                  Inl _ \<Rightarrow> j_object js [] | Inr v \<Rightarrow> v)))"

definition deepseek_call_at :: "('j, 'z) json_api_scheme \<Rightarrow> string \<Rightarrow> ('j parsed_tool_call list \<times> string) option" where
  "deepseek_call_at js s =
     (case cut_at ds_begin s of
        None \<Rightarrow> None
      | Some (_, after) \<Rightarrow>
          (case cut_at ds_end after of
             None \<Rightarrow> None
           | Some (body, s) \<Rightarrow> Some (deepseek_call js body, s)))"

lemma deepseek_call_shorter: "deepseek_call_at js s = Some (new, s') \<Longrightarrow> length s' < length s"
  by (auto simp: deepseek_call_at_def ds_begin_def ds_end_def ds_tag_def split: option.splits
      dest!: cut_at_shorter)

function append_deepseek_calls :: "('j, 'z) json_api_scheme \<Rightarrow> string \<Rightarrow> 'j parsed_tool_call list \<Rightarrow>
    'j parsed_tool_call list" where
  "append_deepseek_calls js s out =
     (case deepseek_call_at js s of
        None \<Rightarrow> out
      | Some (new, s) \<Rightarrow> append_deepseek_calls js s (out @ new))"
  by pat_completeness auto
termination
  by (relation "measure (\<lambda>(js, s, out). length s)") (auto dest: deepseek_call_shorter)

declare append_deepseek_calls.simps [simp del]

section \<open>The Devstral syntax\<close>

definition object_of :: "('j, 'z) json_api_scheme \<Rightarrow> 'j option \<Rightarrow> 'j" where
  "object_of js v = (case v of None \<Rightarrow> j_object js []
                     | Some a \<Rightarrow> if j_members js a = None then j_object js [] else a)"

definition devstral_item :: "('j, 'z) json_api_scheme \<Rightarrow> 'j \<Rightarrow> 'j parsed_tool_call list" where
  "devstral_item js item =
     (case j_get js ''name'' item of
        None \<Rightarrow> []
      | Some n \<Rightarrow>
          (case j_string_of js n of
             None \<Rightarrow> []
           | Some cname \<Rightarrow>
               named_call cname (object_of js
                 (case j_get js ''arguments'' item of
                    None \<Rightarrow> None
                  | Some a \<Rightarrow>
                      (case j_string_of js a of
                         None \<Rightarrow> Some a
                       | Some s \<Rightarrow>
                           (case j_parse js s of
                              Inl _ \<Rightarrow> Some a
                            | Inr inner \<Rightarrow> if j_members js inner = None then Some a else Some inner))))))"

definition k_call_id :: string where "k_call_id = ''[CALL_ID]''"

definition devstral_call :: "('j, 'z) json_api_scheme \<Rightarrow> string \<Rightarrow> 'j parsed_tool_call list" where
  "devstral_call js call =
     (let cursor = skip_space call
      in if cursor \<noteq> [] \<and> (hd cursor = CHR ''{'' \<or> hd cursor = CHR ''['')
         then (case j_parse js cursor of
                 Inl _ \<Rightarrow> []
               | Inr parsed \<Rightarrow>
                   (case j_elements js parsed of
                      None \<Rightarrow> []
                    | Some items \<Rightarrow> concat (map (devstral_item js) items)))
         else case cut_at k_devstral_tool_args call of
                None \<Rightarrow> []
              | Some (before, payload) \<Rightarrow>
                  (let head = trim_sv before;
                       head = (case cut_at k_call_id head of None \<Rightarrow> head | Some (h, _) \<Rightarrow> trim_sv h)
                   in named_call head (case parse_argument_object js payload of
                                         Inl _ \<Rightarrow> j_object js [] | Inr v \<Rightarrow> v)))"

definition devstral_call_at :: "('j, 'z) json_api_scheme \<Rightarrow> string \<Rightarrow> ('j parsed_tool_call list \<times> string) option" where
  "devstral_call_at js s =
     (case sfind k_devstral_tool_calls s of
        None \<Rightarrow> None
      | Some start \<Rightarrow>
          (case devstral_call_end (drop start s) of
             None \<Rightarrow> None
           | Some e \<Rightarrow> Some (devstral_call js (drop (length k_devstral_tool_calls) (take e (drop start s))),
                              drop e (drop start s))))"

lemma devstral_call_shorter: "devstral_call_at js s = Some (new, s') \<Longrightarrow> length s' < length s"
proof -
  assume "devstral_call_at js s = Some (new, s')"
  then obtain start e where e: "devstral_call_end (drop start s) = Some e" "s' = drop e (drop start s)"
    by (auto simp: devstral_call_at_def split: option.splits)
  then have "0 < e \<and> e \<le> length s - start" "0 < length s"
    using devstral_call_end_spec [of "drop start s" e "[]"] by auto
  with e(2) show ?thesis by simp
qed

function append_devstral_calls :: "('j, 'z) json_api_scheme \<Rightarrow> string \<Rightarrow> 'j parsed_tool_call list \<Rightarrow>
    'j parsed_tool_call list" where
  "append_devstral_calls js s out =
     (case devstral_call_at js s of
        None \<Rightarrow> out
      | Some (new, s) \<Rightarrow> append_devstral_calls js s (out @ new))"
  by pat_completeness auto
termination
  by (relation "measure (\<lambda>(js, s, out). length s)") (auto dest: devstral_call_shorter)

declare append_devstral_calls.simps [simp del]

section \<open>The adapters\<close>

record 'j model_adapter =
  adapter_name :: string
  example_call :: "chat_tool list \<Rightarrow> string"
  parse_tool_calls :: "string \<Rightarrow> 'j parsed_tool_call list \<Rightarrow> 'j parsed_tool_call list"
  prompt_opens_think :: bool

definition qwen_adapter :: "('j, 'z) json_api_scheme \<Rightarrow> 'j model_adapter" where
  "qwen_adapter js = \<lparr> adapter_name = ''qwen'', example_call = function_parameter_example js,
     parse_tool_calls = append_function_parameter_calls js, prompt_opens_think = True \<rparr>"

definition bonsai_adapter :: "('j, 'z) json_api_scheme \<Rightarrow> 'j model_adapter" where
  "bonsai_adapter js = \<lparr> adapter_name = ''bonsai'', example_call = function_parameter_example js,
     parse_tool_calls = append_function_parameter_calls js, prompt_opens_think = True \<rparr>"

definition deepseek_example :: "('j, 'z) json_api_scheme \<Rightarrow> chat_tool list \<Rightarrow> string" where
  "deepseek_example js tools =
     (case tools of
        [] \<Rightarrow> []
      | tool # _ \<Rightarrow>
          ''Call a tool in this format:'' @ [nl] @ ds_calls_begin @ ds_begin @ ''function'' @ ds_sep @
          tool_spec_name tool @ [nl] @ ''```json'' @ [nl] @ j_dump_indented js (example_arguments js tool) 2 @ [nl] @
          ''```'' @ [nl] @ ds_end @ ds_calls_end @ [nl, nl] @ ''The text after '' @ ds_sep @
          '' is the function name. The fenced block is a JSON object of arguments.'' @ [nl, nl])"

definition deepseek_adapter :: "('j, 'z) json_api_scheme \<Rightarrow> 'j model_adapter" where
  "deepseek_adapter js = \<lparr> adapter_name = ''deepseek'', example_call = deepseek_example js,
     parse_tool_calls = append_deepseek_calls js, prompt_opens_think = True \<rparr>"

definition devstral_example :: "('j, 'z) json_api_scheme \<Rightarrow> chat_tool list \<Rightarrow> string" where
  "devstral_example js tools =
     (case tools of
        [] \<Rightarrow> []
      | tool # _ \<Rightarrow>
          ''Call a tool in this format:'' @ [nl] @ k_devstral_tool_calls @ tool_spec_name tool @
          k_devstral_tool_args @ j_dump js (example_arguments js tool) @ [nl, nl] @
          ''The name after [TOOL_CALLS] is the tool. The object after [ARGS] is the arguments. '' @
          ''Repeat [TOOL_CALLS] for another tool in the same turn.'' @ [nl, nl])"

definition devstral_adapter :: "('j, 'z) json_api_scheme \<Rightarrow> 'j model_adapter" where
  "devstral_adapter js = \<lparr> adapter_name = ''devstral'', example_call = devstral_example js,
     parse_tool_calls = append_devstral_calls js, prompt_opens_think = False \<rparr>"

definition path_filename :: "string \<Rightarrow> string" where
  "path_filename path = rev (takeWhile (\<lambda>c. c \<noteq> CHR ''/'' \<and> c \<noteq> CHR 0x5C) (rev path))"

definition pick_adapter :: "('j, 'z) json_api_scheme \<Rightarrow> string \<Rightarrow> 'j model_adapter option" where
  "pick_adapter js hint =
     (let name = lower_string (path_filename hint)
      in if sfind ''deepseek'' name \<noteq> None then Some (deepseek_adapter js)
         else if sfind ''devstral'' name \<noteq> None then Some (devstral_adapter js)
         else if sfind ''bonsai'' name \<noteq> None \<or> sfind ''ternary'' name \<noteq> None then Some (bonsai_adapter js)
         else if sfind ''qwen'' name \<noteq> None then Some (qwen_adapter js)
         else None)"

definition make_model_adapter :: "('j, 'z) json_api_scheme \<Rightarrow> string \<Rightarrow> string \<Rightarrow> 'j model_adapter" where
  "make_model_adapter js model_path template_path =
     (case pick_adapter js template_path of
        Some a \<Rightarrow> a
      | None \<Rightarrow> (case pick_adapter js model_path of Some a \<Rightarrow> a | None \<Rightarrow> qwen_adapter js))"

section \<open>Coercion\<close>

definition find_tool :: "chat_tool list \<Rightarrow> string \<Rightarrow> chat_tool option" where
  "find_tool tools name = List.find (\<lambda>t. tool_spec_name t = name) tools"

definition coerce_value :: "('j, 'z) json_api_scheme \<Rightarrow> string \<Rightarrow> 'j \<Rightarrow> 'j" where
  "coerce_value js type v =
     (if type = [] \<or> type = ''string''
      then (if j_string_of js v \<noteq> None then v
            else if j_is_null js v then j_string js []
            else j_string js (j_dump js v))
      else case j_string_of js v of
             None \<Rightarrow> v
           | Some s \<Rightarrow>
               (case j_parse js s of
                  Inl _ \<Rightarrow> v
                | Inr parsed \<Rightarrow>
                    if (type = ''integer'' \<or> type = ''number'') \<and> j_is_number js parsed then parsed
                    else if type = ''boolean'' \<and> j_bool_of js parsed \<noteq> None then parsed
                    else if type = ''array'' \<and> j_elements js parsed \<noteq> None then parsed
                    else if type = ''object'' \<and> j_members js parsed \<noteq> None then parsed
                    else v))"

definition coerce_members :: "('j, 'z) json_api_scheme \<Rightarrow> tool_parameter list \<Rightarrow> (string \<times> 'j) list \<Rightarrow>
    (string \<times> 'j) list" where
  "coerce_members js params args =
     foldl (\<lambda>args p. case map_of args (p_name p) of
                       None \<Rightarrow> args
                     | Some v \<Rightarrow> AList.update (p_name p) (coerce_value js (p_type p) v) args) args params"

definition coerce_call :: "('j, 'z) json_api_scheme \<Rightarrow> chat_tool list \<Rightarrow> 'j parsed_tool_call \<Rightarrow>
    'j parsed_tool_call" where
  "coerce_call js tools call =
     (let arguments = (case j_string_of js (tc_arguments call) of
                         None \<Rightarrow> tc_arguments call
                       | Some s \<Rightarrow> (case j_parse js s of
                                     Inl _ \<Rightarrow> tc_arguments call
                                   | Inr v \<Rightarrow> if j_members js v = None then tc_arguments call else v))
      in call\<lparr> tc_arguments :=
           (case j_members js arguments of
              None \<Rightarrow> j_object js []
            | Some args \<Rightarrow>
                (case find_tool tools (tc_name call) of
                   None \<Rightarrow> arguments
                 | Some spec \<Rightarrow> j_object js (coerce_members js (tool_parameters_of js spec) args))) \<rparr>)"

definition coerce_tool_arguments :: "('j, 'z) json_api_scheme \<Rightarrow> chat_tool list \<Rightarrow> 'j parsed_tool_call list \<Rightarrow>
    'j parsed_tool_call list" where
  "coerce_tool_arguments js tools calls = map (coerce_call js tools) calls"

section \<open>What every adapter promises\<close>

text \<open>
  The shared assistant parser relies on this of an adapter: it appends to the calls already found,
  and every call it adds has a name and no id yet.
\<close>

definition nameless_id :: "'j parsed_tool_call \<Rightarrow> bool" where
  "nameless_id c \<longleftrightarrow> tc_name c \<noteq> [] \<and> tc_id c = []"

locale tool_call_syntax =
  fixes parse :: "string \<Rightarrow> 'j parsed_tool_call list \<Rightarrow> 'j parsed_tool_call list"
  assumes parse_appends: "\<exists>new. parse s out = out @ new \<and> (\<forall>c \<in> set new. nameless_id c)"
begin

lemma parse_keeps: "set out \<subseteq> set (parse s out)"
  using parse_appends [of s out] by auto

lemma parse_names:
  assumes "\<forall>c \<in> set out. tc_name c \<noteq> []"
  shows "\<forall>c \<in> set (parse s out). tc_name c \<noteq> []"
  using parse_appends [of s out] assms by (auto simp: nameless_id_def)

lemma parse_length: "length out \<le> length (parse s out)"
  using parse_appends [of s out] by auto

end

text \<open>A syntax read by a loop over the text, one call (or none, or several) at a time.\<close>

locale call_scanner =
  fixes next_call :: "string \<Rightarrow> ('j parsed_tool_call list \<times> string) option"
    and scan :: "string \<Rightarrow> 'j parsed_tool_call list \<Rightarrow> 'j parsed_tool_call list"
  assumes scan_eq: "scan s out = (case next_call s of None \<Rightarrow> out | Some (new, s') \<Rightarrow> scan s' (out @ new))"
    and next_shorter: "next_call s = Some (new, s') \<Longrightarrow> length s' < length s"
    and next_named: "next_call s = Some (new, s') \<Longrightarrow> c \<in> set new \<Longrightarrow> nameless_id c"
begin

lemma scan_appends: "\<exists>new. scan s out = out @ new \<and> (\<forall>c \<in> set new. nameless_id c)"
proof (induction "length s" arbitrary: s out rule: less_induct)
  case less
  show ?case
  proof (cases "next_call s")
    case None
    then show ?thesis using scan_eq [of s out] by simp
  next
    case (Some r)
    obtain new s' where r: "r = (new, s')" by fastforce
    from less [OF next_shorter [OF Some [unfolded r]], of "out @ new"] obtain more where
      "scan s' (out @ new) = (out @ new) @ more" "\<forall>c \<in> set more. nameless_id c" by blast
    with Some r next_named [OF Some [unfolded r]] scan_eq [of s out] show ?thesis
      by (intro exI [where x = "new @ more"]) auto
  qed
qed

end

sublocale call_scanner \<subseteq> tool_call_syntax scan
  by unfold_locales (rule scan_appends)

lemma named_call_named: "c \<in> set (named_call cname a) \<Longrightarrow> nameless_id c"
  by (auto simp: named_call_def nameless_id_def split: if_splits)

lemma function_call_named: "function_call_at js s = Some (new, s') \<Longrightarrow> c \<in> set new \<Longrightarrow> nameless_id c"
  by (auto simp: function_call_at_def Let_def split: option.splits) (rule named_call_named, assumption)

lemma deepseek_named: "c \<in> set (deepseek_call js body) \<Longrightarrow> nameless_id c"
  by (auto simp: deepseek_call_def Let_def split: option.splits prod.splits) (erule named_call_named)+

lemma devstral_item_named: "c \<in> set (devstral_item js item) \<Longrightarrow> nameless_id c"
  unfolding devstral_item_def by (auto split: option.splits) (erule named_call_named)+

lemma devstral_call_named:
  assumes "c \<in> set (devstral_call js call)"
  shows "nameless_id c"
proof (cases "skip_space call \<noteq> [] \<and> (hd (skip_space call) = CHR ''{'' \<or> hd (skip_space call) = CHR ''['')")
  case True
  with assms show ?thesis
    by (auto simp: devstral_call_def Let_def dest: devstral_item_named split: sum.splits option.splits)
next
  case False
  show ?thesis
  proof (cases "cut_at k_devstral_tool_args call")
    case None
    with assms False show ?thesis by (auto simp: devstral_call_def Let_def)
  next
    case (Some r)
    obtain before payload where "r = (before, payload)" by fastforce
    with Some False have "\<exists>n a. devstral_call js call = named_call n a"
      by (auto simp: devstral_call_def Let_def)
    with assms show ?thesis by (auto dest: named_call_named)
  qed
qed

lemma devstral_step_named: "devstral_call_at js s = Some (new, s') \<Longrightarrow> c \<in> set new \<Longrightarrow> nameless_id c"
  by (auto simp: devstral_call_at_def split: option.splits dest: devstral_call_named)

interpretation qwen_calls: call_scanner "function_call_at js" "append_function_parameter_calls js" for js
proof unfold_locales
  show "append_function_parameter_calls js s out = (case function_call_at js s of None \<Rightarrow> out
      | Some (new, s') \<Rightarrow> append_function_parameter_calls js s' (out @ new))" for s out
    by (subst append_function_parameter_calls.simps) simp
qed (rule function_call_shorter function_call_named; assumption)+

interpretation deepseek_calls: call_scanner "deepseek_call_at js" "append_deepseek_calls js" for js
proof unfold_locales
  show "append_deepseek_calls js s out = (case deepseek_call_at js s of None \<Rightarrow> out
      | Some (new, s') \<Rightarrow> append_deepseek_calls js s' (out @ new))" for s out
    by (subst append_deepseek_calls.simps) simp
qed (auto simp: deepseek_call_at_def split: option.splits dest: deepseek_named intro: deepseek_call_shorter)

interpretation devstral_calls: call_scanner "devstral_call_at js" "append_devstral_calls js" for js
proof unfold_locales
  show "append_devstral_calls js s out = (case devstral_call_at js s of None \<Rightarrow> out
      | Some (new, s') \<Rightarrow> append_devstral_calls js s' (out @ new))" for s out
    by (subst append_devstral_calls.simps) simp
qed (rule devstral_call_shorter devstral_step_named; assumption)+

lemma every_adapter_is_a_syntax: "tool_call_syntax (parse_tool_calls (make_model_adapter js model_path template_path))"
  using qwen_calls.tool_call_syntax_axioms [of js] deepseek_calls.tool_call_syntax_axioms [of js]
    devstral_calls.tool_call_syntax_axioms [of js]
  by (auto simp: make_model_adapter_def pick_adapter_def Let_def qwen_adapter_def bonsai_adapter_def
      deepseek_adapter_def devstral_adapter_def split: option.splits)

section \<open>A call in the syntax the prompt shows is parsed back\<close>

text \<open>The syntax of the example in the system prompt.\<close>

definition render_parameter :: "string \<times> string \<Rightarrow> string" where
  "render_parameter kv = k_parameter @ fst kv @ ''>'' @ [nl] @ snd kv @ [nl] @ k_parameter_end @ [nl]"

definition render_call :: "string \<Rightarrow> (string \<times> string) list \<Rightarrow> string" where
  "render_call name params =
     k_function @ name @ ''>'' @ [nl] @ concat (map render_parameter params) @ k_function_end"

definition plain_name :: "string \<Rightarrow> bool" where
  "plain_name k \<longleftrightarrow> k \<noteq> [] \<and> trimmed k \<and> CHR ''>'' \<notin> set k"

definition plain_value :: "string \<Rightarrow> bool" where
  "plain_value v \<longleftrightarrow> sfind k_parameter_end ([nl] @ v @ [nl]) = None \<and> (v \<noteq> [] \<longrightarrow> last v \<noteq> cr)"

lemma unwrap_wrapped: "(v \<noteq> [] \<longrightarrow> last v \<noteq> cr) \<Longrightarrow> unwrap_parameter_value ([nl] @ v @ [nl]) = v"
  by (cases v rule: rev_cases)
    (auto simp: unwrap_parameter_value_def ends_with_def drop_suffix_len_def Let_def suffix_def)

lemma markers:
  "k_function = CHR ''<'' # ''function=''" "k_function_end = CHR ''<'' # ''/function>''"
  "k_parameter = CHR ''<'' # ''parameter=''" "k_parameter_end = CHR ''<'' # ''/parameter>''"
  by (simp_all add: k_function_def k_function_end_def k_parameter_def k_parameter_end_def)

lemma cut_marker:
  "sfind k_function u = None \<Longrightarrow> cut_at k_function (u @ k_function @ v) = Some (u, v)"
  "sfind k_function_end u = None \<Longrightarrow> cut_at k_function_end (u @ k_function_end @ v) = Some (u, v)"
  "sfind k_parameter u = None \<Longrightarrow> cut_at k_parameter (u @ k_parameter @ v) = Some (u, v)"
  "sfind k_parameter_end u = None \<Longrightarrow> cut_at k_parameter_end (u @ k_parameter_end @ v) = Some (u, v)"
  unfolding markers by (rule cut_at_put; simp)+

lemma cut_gt: "CHR ''>'' \<notin> set u \<Longrightarrow> cut_at ''>'' (u @ ''>'' @ v) = Some (u, v)"
  by (rule cut_at_put) (simp_all add: sfind_char_None)

lemma parameter_values_put:
  assumes "CHR ''<'' \<notin> set u" and "plain_name k" and "plain_value v"
  shows "parameter_values js (u @ render_parameter (k, v) @ rest) args =
    parameter_values js ([nl] @ rest) (AList.update k (j_string js v) args)"
proof -
  have "cut_at k_parameter (u @ render_parameter (k, v) @ rest) =
      Some (u, k @ ''>'' @ ([nl] @ v @ [nl]) @ k_parameter_end @ [nl] @ rest)"
    using cut_marker(3) [OF sfind_no_head [OF assms(1), of "''parameter=''", folded markers(3)],
        of "k @ ''>'' @ ([nl] @ v @ [nl]) @ k_parameter_end @ [nl] @ rest"]
    by (simp add: render_parameter_def)
  moreover have "cut_at ''>'' (k @ ''>'' @ ([nl] @ v @ [nl]) @ k_parameter_end @ [nl] @ rest) =
      Some (k, ([nl] @ v @ [nl]) @ k_parameter_end @ [nl] @ rest)"
    using assms(2) by (intro cut_gt) (simp add: plain_name_def)
  moreover have "cut_at k_parameter_end (([nl] @ v @ [nl]) @ k_parameter_end @ [nl] @ rest) =
      Some ([nl] @ v @ [nl], [nl] @ rest)"
    using assms(3) by (intro cut_marker(4)) (simp add: plain_value_def)
  moreover have "trim_sv k = k" "k \<noteq> []" using assms(2) by (simp_all add: plain_name_def trim_id)
  ultimately show ?thesis
    using unwrap_wrapped [of v] assms(3)
    by (simp add: parameter_values.simps [of js "u @ render_parameter (k, v) @ rest"] plain_value_def)
qed

lemma parameter_values_none: "CHR ''<'' \<notin> set u \<Longrightarrow> parameter_values js u args = args"
  using sfind_no_head [of "CHR ''<''" u "''parameter=''"]
  by (simp add: parameter_values.simps [of js u] cut_at_def markers)

lemma parameter_values_all:
  assumes "\<forall>kv \<in> set params. plain_name (fst kv) \<and> plain_value (snd kv)"
  shows "parameter_values js ([nl] @ concat (map render_parameter params)) args =
    foldl (\<lambda>args kv. AList.update (fst kv) (j_string js (snd kv)) args) args params"
  using assms
proof (induction params arbitrary: args)
  case Nil
  then show ?case by (simp add: parameter_values_none)
next
  case (Cons kv params)
  have "parameter_values js ([nl] @ render_parameter (fst kv, snd kv) @ concat (map render_parameter params)) args =
      parameter_values js ([nl] @ concat (map render_parameter params))
        (AList.update (fst kv) (j_string js (snd kv)) args)"
    using Cons.prems by (intro parameter_values_put) simp_all
  with Cons show ?case by simp
qed

lemma update_new: "k \<notin> fst ` set xs \<Longrightarrow> AList.update k v xs = xs @ [(k, v)]"
  by (induction xs) auto

lemma update_all_new:
  "distinct (map fst args @ map fst params) \<Longrightarrow>
     foldl (\<lambda>args kv. AList.update (fst kv) (f (snd kv)) args) args params =
       args @ map (\<lambda>kv. (fst kv, f (snd kv))) params"
proof (induction params arbitrary: args)
  case (Cons kv params)
  then have "AList.update (fst kv) (f (snd kv)) args = args @ [(fst kv, f (snd kv))]"
    by (intro update_new) auto
  with Cons show ?case by simp
qed simp

lemma function_call_at_put:
  assumes "sfind k_function u = None" and "plain_name name" and "params \<noteq> []" and "distinct (map fst params)"
    and "\<forall>kv \<in> set params. plain_name (fst kv) \<and> plain_value (snd kv)"
    and "sfind k_function_end (concat (map render_parameter params)) = None"
  shows "function_call_at js (u @ render_call name params @ w) =
    Some (named_call name (j_object js (map (\<lambda>kv. (fst kv, j_string js (snd kv))) params)), w)"
proof -
  let ?body = "[nl] @ concat (map render_parameter params)"
  have "cut_at k_function (u @ render_call name params @ w) =
      Some (u, name @ ''>'' @ ?body @ k_function_end @ w)"
    using cut_marker(1) [OF assms(1), of "name @ ''>'' @ ?body @ k_function_end @ w"] by (simp add: render_call_def)
  moreover have "cut_at ''>'' (name @ ''>'' @ ?body @ k_function_end @ w) = Some (name, ?body @ k_function_end @ w)"
    using assms(2) by (intro cut_gt) (simp add: plain_name_def)
  moreover have "sfind k_function_end ?body = None"
    using assms(6) by (simp add: markers)
  then have "cut_at k_function_end (?body @ k_function_end @ w) = Some (?body, w)" by (rule cut_marker(2))
  moreover have "parameter_values js ?body [] = map (\<lambda>kv. (fst kv, j_string js (snd kv))) params"
    using parameter_values_all [OF assms(5), of js "[]"] update_all_new [of "[]" params "j_string js"] assms(4) by simp
  moreover have "trim_sv name = name" using assms(2) by (simp add: plain_name_def trim_id)
  ultimately show ?thesis using assms(3) by (simp add: function_call_at_def Let_def)
qed

text \<open>
  C17. A tool call written in the syntax that the system prompt shows to Qwen and Bonsai models is
  read back exactly: whatever stands before it, its name, its parameters, their order and every
  character of their values, newlines and spaces included, are found, and reading goes on behind
  it. The values must not contain the closing tags of the syntax nor end in a carriage return.
\<close>

theorem written_call_is_read_back:
  assumes "sfind k_function u = None" and "plain_name name" and "params \<noteq> []" and "distinct (map fst params)"
    and "\<forall>kv \<in> set params. plain_name (fst kv) \<and> plain_value (snd kv)"
    and "sfind k_function_end (concat (map render_parameter params)) = None"
  shows "append_function_parameter_calls js (u @ render_call name params @ w) out =
    append_function_parameter_calls js w
      (out @ [\<lparr> tc_id = [], tc_name = name,
                tc_arguments = j_object js (map (\<lambda>kv. (fst kv, j_string js (snd kv))) params) \<rparr>])"
  using function_call_at_put [OF assms, of js w] assms(2)
  by (simp add: append_function_parameter_calls.simps [of js "u @ _"] named_call_def plain_name_def)

theorem written_call_is_read_back_witness:
  "append_function_parameter_calls tree_json
     (''ok '' @ render_call ''run'' [(''cmd'', '' ls -l''), (''dir'', ''a > b'')]) [] =
   [\<lparr> tc_id = [], tc_name = ''run'',
      tc_arguments = J_object [(''cmd'', J_string '' ls -l''), (''dir'', J_string ''a > b'')] \<rparr>]"
proof -
  let ?ps = "[(''cmd'', '' ls -l''), (''dir'', ''a > b'')]"
  have c: "sfind k_function ''ok '' = None" "plain_name ''run''" "?ps \<noteq> []" "distinct (map fst ?ps)"
    "\<forall>kv \<in> set ?ps. plain_name (fst kv) \<and> plain_value (snd kv)"
    "sfind k_function_end (concat (map render_parameter ?ps)) = None"
    by code_simp+
  have "append_function_parameter_calls tree_json [] out = out" for out :: "json_tree parsed_tool_call list"
    by (simp add: append_function_parameter_calls.simps [of _ "[]"] function_call_at_def cut_at_def k_function_def)
  with written_call_is_read_back [OF c, of tree_json "[]" "[]"] show ?thesis by (simp add: tree_json_def)
qed

section \<open>An object after the Devstral marker is dropped\<close>

text \<open>
  C36. \<open>devstral_call.hpp\<close> promises an older form in which the marker is followed by a JSON array or
  object. A single object is recognised as a whole call, but never becomes a tool call.
\<close>

theorem devstral_object_call_is_dropped:
  assumes "json_value_end obj = Some (length obj)" and "hd obj = CHR ''{''" and "j_parse js obj = Inr v"
    and "j_elements js v = None"
  shows "devstral_call_end (k_devstral_tool_calls @ obj) = Some (length (k_devstral_tool_calls @ obj)) \<and>
    append_devstral_calls js (k_devstral_tool_calls @ obj) out = out"
proof -
  have ne: "obj \<noteq> []" using json_value_end_spec(3) [OF assms(1)] by auto
  then have sp: "skip_space obj = obj" using assms(2) by (cases obj) (auto simp: skip_space_def is_space_char_def)
  have fnd: "sfind k_devstral_tool_calls (k_devstral_tool_calls @ obj) = Some 0"
    by (rule sfind_SomeI) simp_all
  have e: "devstral_call_end (k_devstral_tool_calls @ obj) = Some (length (k_devstral_tool_calls @ obj))"
    using ne assms(1,2) by (simp add: devstral_call_end_def Let_def sp)
  have "devstral_call js obj = []" using ne assms(2-4) by (simp add: devstral_call_def Let_def sp)
  then have "devstral_call_at js (k_devstral_tool_calls @ obj) = Some ([], [])"
    using fnd e by (simp add: devstral_call_at_def)
  moreover have "append_devstral_calls js [] out = out"
    by (simp add: append_devstral_calls.simps [of js "[]"] devstral_call_at_def k_devstral_tool_calls_def)
  ultimately show ?thesis using e by (simp add: append_devstral_calls.simps [of js "k_devstral_tool_calls @ obj"])
qed

theorem devstral_object_call_is_dropped_witness:
  "append_devstral_calls tree_json (k_devstral_tool_calls @ ''{}'') [] = ([] :: json_tree parsed_tool_call list)"
proof -
  have "json_value_end ''{}'' = Some (length ''{}'')" by code_simp
  then show ?thesis
    using devstral_object_call_is_dropped [of "''{}''" tree_json "J_object []" "[]"] by (simp add: tree_json_def)
qed

section \<open>Arguments take the types of the schema\<close>

lemma update_keys: "map_of xs k = Some w \<Longrightarrow> map fst (AList.update k v xs) = map fst xs"
  by (induction xs) auto

lemma coerce_members_keys: "map fst (coerce_members js params args) = map fst args"
  unfolding coerce_members_def
  by (induction params arbitrary: args) (auto simp: update_keys split: option.splits)

lemma coerce_members_map:
  "distinct (map p_name params) \<Longrightarrow> map_of (coerce_members js params args) k =
     map_option (\<lambda>v. case List.find (\<lambda>p. p_name p = k) params of
                        None \<Rightarrow> v | Some p \<Rightarrow> coerce_value js (p_type p) v) (map_of args k)"
proof (induction params arbitrary: args)
  case (Cons p params)
  let ?step = "case map_of args (p_name p) of None \<Rightarrow> args
    | Some v \<Rightarrow> AList.update (p_name p) (coerce_value js (p_type p) v) args"
  have "map_of ?step k = (if k = p_name p then map_option (coerce_value js (p_type p)) (map_of args k)
      else map_of args k)"
    by (auto simp: update_conv split: option.splits)
  moreover have "k = p_name p \<longrightarrow> List.find (\<lambda>q. p_name q = k) params = None"
    using Cons.prems by (auto simp: find_None_iff image_iff)
  ultimately show ?case
    using Cons.IH [of ?step] Cons.prems by (auto simp: coerce_members_def option.map_comp comp_def)
qed (simp add: coerce_members_def option.map_ident)

text \<open>
  Coercion gives the arguments of a call the types its tool's schema asks for: the result is an
  object with the same members, a member the schema does not name keeps its value, any other one is
  coerced to its type, and a member of textual type is a string afterwards, whatever it was.
\<close>

theorem coerced_arguments_follow_the_schema:
  assumes "json_contract js" and "j_members js (tc_arguments call) = Some args" and "distinct (map fst args)"
    and "find_tool tools (tc_name call) = Some spec" and "distinct (map p_name (tool_parameters_of js spec))"
    and "coerced = hd (coerce_tool_arguments js tools [call])"
  shows "tc_name coerced = tc_name call \<and> tc_id coerced = tc_id call \<and>
    j_get js k (tc_arguments coerced) = map_option (\<lambda>v.
      case List.find (\<lambda>p. p_name p = k) (tool_parameters_of js spec) of
        None \<Rightarrow> v | Some p \<Rightarrow> coerce_value js (p_type p) v) (map_of args k) \<and>
    (\<forall>p v. List.find (\<lambda>p. p_name p = k) (tool_parameters_of js spec) = Some p \<and>
       (p_type p = [] \<or> p_type p = ''string'') \<and> j_get js k (tc_arguments coerced) = Some v \<longrightarrow>
       j_string_of js v \<noteq> None)"
proof -
  let ?ps = "tool_parameters_of js spec"
  have c: "coerced = call\<lparr> tc_arguments := j_object js (coerce_members js ?ps args) \<rparr>"
    using assms(2,4,6) j_members_no_string [OF assms(1,2)]
    by (simp add: coerce_tool_arguments_def coerce_call_def Let_def)
  have d: "distinct (map fst (coerce_members js ?ps args))" using assms(3) by (simp add: coerce_members_keys)
  have get: "j_get js k (tc_arguments coerced) = map_option (\<lambda>v.
      case List.find (\<lambda>p. p_name p = k) ?ps of None \<Rightarrow> v | Some p \<Rightarrow> coerce_value js (p_type p) v) (map_of args k)"
    using j_get_object [OF assms(1) d, of k] coerce_members_map [OF assms(5), of js args k] by (simp add: c)
  moreover have "j_string_of js (coerce_value js ty v) \<noteq> None" if "ty = [] \<or> ty = ''string''" for ty v
    using that j_string_read [OF assms(1)] by (auto simp: coerce_value_def)
  ultimately show ?thesis by (auto simp: c)
qed

theorem coerced_arguments_follow_the_schema_witness:
  "let tool = \<lparr> tool_spec_name = ''t'', tool_description = [], tool_parameters = [] \<rparr>;
       call = \<lparr> tc_id = ''1'', tc_name = ''t'', tc_arguments = J_object [(''a'', J_int 3)] \<rparr>
   in j_get tree_json ''a'' (tc_arguments (hd (coerce_tool_arguments tree_json [tool] [call]))) = Some (J_int 3)"
proof -
  let ?tool = "\<lparr> tool_spec_name = ''t'', tool_description = [], tool_parameters = [] \<rparr>"
  let ?call = "\<lparr> tc_id = ''1'', tc_name = ''t'', tc_arguments = J_object [(''a'', J_int 3)] \<rparr>"
  have p: "tool_parameters_of tree_json ?tool = []" by (simp add: tool_parameters_of_def)
  have m: "j_members tree_json (tc_arguments ?call) = Some [(''a'', J_int 3)]" by (simp add: tree_json_def)
  have f: "find_tool [?tool] (tc_name ?call) = Some ?tool" by (simp add: find_tool_def)
  from coerced_arguments_follow_the_schema [OF tree_json_contract m _ f _ refl, of "''a''"] p
  show ?thesis by (simp add: Let_def)
qed

end
