(* ===== verification/Response_Parse.thy ===== *)
theory Response_Parse
  imports Model_Adapter Decimal
begin

text \<open>
  \<open>src/server/agent/response_parse.cpp\<close>: what the server reads out of a finished completion. The
  thinking channel is split off, the tagged blocks (tool calls, questions, answers) are collected,
  and the visible text is what remains. The tool-call syntax is that of a model adapter.
\<close>

section \<open>Tags\<close>

text \<open>
  The text before the first tag, what stands between its angle brackets, and the text behind it;
  \<open>None\<close> without an opening bracket or without a closing one behind it.
\<close>

definition split_tag :: "string \<Rightarrow> (string \<times> string \<times> string) option" where
  "split_tag s =
     (case sfind ''<'' s of
        None \<Rightarrow> None
      | Some lt \<Rightarrow>
          (case sfind ''>'' (drop lt s) of
             None \<Rightarrow> None
           | Some g \<Rightarrow> Some (take lt s, take (g - 1) (drop (Suc lt) s), drop (Suc (lt + g)) s)))"

lemma split_tag_shorter: "split_tag s = Some (before, raw, after) \<Longrightarrow> length after < length s"
  by (auto simp: split_tag_def split: option.splits dest!: sfind_SomeD)

lemma split_tag_put:
  assumes "CHR ''<'' \<notin> set u" and "CHR ''>'' \<notin> set raw"
  shows "split_tag (u @ ''<'' @ raw @ ''>'' @ v) = Some (u, raw, v)"
proof -
  have "sfind ''<'' (u @ ''<'' @ (raw @ ''>'' @ v)) = Some (length u)"
    using assms(1) by (intro sfind_put) (simp_all add: sfind_char_None)
  moreover have "sfind ''>'' ((''<'' @ raw) @ ''>'' @ v) = Some (length (''<'' @ raw))"
    using assms(2) by (intro sfind_put) (auto simp: sfind_char_None)
  ultimately show ?thesis by (simp add: split_tag_def)
qed

lemma split_tag_none: "CHR ''<'' \<notin> set s \<Longrightarrow> split_tag s = None"
  using sfind_char_None [of "CHR ''<''" s] by (simp add: split_tag_def)

definition drop_slash :: "string \<Rightarrow> string" where
  "drop_slash raw = (if raw \<noteq> [] \<and> last raw = CHR ''/'' then butlast raw else raw)"

text \<open>The name of a tag: no trailing slash, no attributes.\<close>

definition tag_name :: "string \<Rightarrow> string" where
  "tag_name raw = takeWhile (\<lambda>c. c \<noteq> CHR '' '' \<and> c \<noteq> CHR 0x09) (trim_sv (drop_slash raw))"

definition closes :: "string \<Rightarrow> bool" where
  "closes raw \<longleftrightarrow> raw \<noteq> [] \<and> hd raw = CHR ''/''"

text \<open>
  The body of a block whose opening tag ends where the text begins: up to the closing tag of the
  same depth, or all of the text without one. \<open>seen\<close> is what has been read of the body.
\<close>

function tag_body :: "string \<Rightarrow> nat \<Rightarrow> string \<Rightarrow> string \<Rightarrow> string \<times> string \<times> bool" where
  "tag_body open_name depth seen s =
     (case split_tag s of
        None \<Rightarrow> (seen @ s, [], False)
      | Some (before, raw, after) \<Rightarrow>
          (let past = seen @ before @ ''<'' @ raw @ ''>''
           in if closes raw
              then if ieq (trim_sv (tl raw)) open_name
                   then if depth = 1 then (seen @ before, after, True)
                        else tag_body open_name (depth - 1) past after
                   else tag_body open_name depth past after
              else tag_body open_name (if ieq (tag_name raw) open_name then depth + 1 else depth) past after))"
  by pat_completeness auto
termination
  by (relation "measure (\<lambda>(open_name, depth, seen, s). length s)") (auto dest: split_tag_shorter)

declare tag_body.simps [simp del]

definition extract_tag_body :: "string \<Rightarrow> string \<Rightarrow> string \<times> string \<times> bool" where
  "extract_tag_body open_name s = tag_body open_name 1 [] s"

lemma tag_body_shorter: "length (fst (snd (tag_body open_name depth seen s))) \<le> length s"
proof (induction open_name depth seen s rule: tag_body.induct)
  case (1 open_name depth seen s)
  show ?case
  proof (cases "split_tag s")
    case None
    then show ?thesis by (simp add: tag_body.simps [of _ _ _ s])
  next
    case (Some r)
    obtain before raw after where r: "r = (before, raw, after)" by (metis prod_cases3)
    have len: "length after < length s" using Some r by (simp add: split_tag_shorter)
    have "length (fst (snd (tag_body open_name depth seen s))) \<le> length after"
      using 1 [OF Some [unfolded r] refl refl refl] Some r
      by (simp add: tag_body.simps [of _ _ _ s] Let_def)
    with len show ?thesis by simp
  qed
qed

lemma extract_shorter:
  "split_tag s = Some (before, raw, after) \<Longrightarrow> length (fst (snd (extract_tag_body n after))) < length s"
  using split_tag_shorter [of s before raw after] tag_body_shorter [of n 1 "[]" after]
  by (simp add: extract_tag_body_def)

section \<open>Tool calls in JSON\<close>

definition string_member :: "('j, 'z) json_api_scheme \<Rightarrow> string \<Rightarrow> 'j \<Rightarrow> string option" where
  "string_member js key j = (case j_get js key j of None \<Rightarrow> None | Some v \<Rightarrow> j_string_of js v)"

definition extract_single_tool :: "('j, 'z) json_api_scheme \<Rightarrow> 'j \<Rightarrow> 'j parsed_tool_call list" where
  "extract_single_tool js j =
     (case j_members js j of
        None \<Rightarrow> []
      | Some members \<Rightarrow>
          (case (case string_member js ''name'' j of Some n \<Rightarrow> Some n | None \<Rightarrow> string_member js ''tool'' j) of
             None \<Rightarrow> []
           | Some cname \<Rightarrow>
               (let arguments = (case j_get js ''arguments'' j of
                                   Some a \<Rightarrow> a
                                 | None \<Rightarrow>
                                     (case j_get js ''args'' j of
                                        Some a \<Rightarrow> a
                                      | None \<Rightarrow>
                                          (case j_get js ''parameters'' j of
                                             Some a \<Rightarrow> a
                                           | None \<Rightarrow> j_object js
                                               (filter (\<lambda>(k, v). k \<noteq> ''name'' \<and> k \<noteq> ''tool'' \<and> k \<noteq> ''id'') members))));
                    arguments = (case j_string_of js arguments of
                                   None \<Rightarrow> arguments
                                 | Some s \<Rightarrow> (case j_parse js s of
                                               Inl _ \<Rightarrow> arguments
                                             | Inr v \<Rightarrow> if j_members js v = None then arguments else v));
                    arguments = (if j_members js arguments = None then j_object js [] else arguments);
                    id' = (case string_member js ''id'' j of None \<Rightarrow> [] | Some i \<Rightarrow> i)
                in map (\<lambda>c. c\<lparr> tc_id := id' \<rparr>) (named_call cname arguments))))"

definition parse_tool_json_segment :: "('j, 'z) json_api_scheme \<Rightarrow> string \<Rightarrow> 'j parsed_tool_call list \<Rightarrow>
    'j parsed_tool_call list" where
  "parse_tool_json_segment js segment out =
     (if trim_sv segment = [] then out
      else case j_parse js (strip_json_fence segment) of
             Inl _ \<Rightarrow> out
           | Inr j \<Rightarrow> (case j_elements js j of
                         Some items \<Rightarrow> out @ concat (map (extract_single_tool js) items)
                       | None \<Rightarrow> out @ extract_single_tool js j))"

section \<open>The visible text\<close>

definition special_name :: "string \<Rightarrow> bool" where
  "special_name n \<longleftrightarrow> (\<exists>s \<in> set [''think'', ''thinking'', ''thought'', ''reasoning'', ''tool_call'', ''tool_calls'',
     ''question'', ''answer'', ''tool_response'']. ieq n s)"

function strip_blocks :: "string \<Rightarrow> string \<Rightarrow> string" where
  "strip_blocks out s =
     (case split_tag s of
        None \<Rightarrow> out @ s
      | Some (before, raw, after) \<Rightarrow>
          (let n = tag_name (if closes raw then tl raw else raw)
           in if \<not> special_name n then strip_blocks (out @ before @ ''<'' @ raw @ ''>'') after
              else if closes raw \<or> (raw \<noteq> [] \<and> last raw = CHR ''/'') then strip_blocks (out @ before) after
              else strip_blocks (out @ before) (fst (snd (extract_tag_body n after)))))"
  by pat_completeness auto
termination
  by (relation "measure (\<lambda>(out, s). length s)") (auto simp: split_tag_shorter extract_shorter)

declare strip_blocks.simps [simp del]

definition strip_special_blocks :: "string \<Rightarrow> string" where
  "strip_special_blocks s = trim_sv (strip_blocks [] s)"

section \<open>The thinking channel\<close>

definition k_think_names :: "string list" where
  "k_think_names = [''think'', ''thinking'', ''thought'', ''reasoning'']"

text \<open>The name of the opening tag at the start of the text, and the index behind it.\<close>

fun match_think_names :: "string list \<Rightarrow> string \<Rightarrow> (string \<times> nat) option" where
  "match_think_names [] s = None"
| "match_think_names (n # ns) s =
     (if \<not> starts_ieq (drop 1 s) n then match_think_names ns s
      else let after = drop (1 + length n) s
           in if after = [] then None
              else if hd after \<noteq> CHR ''>'' \<and> hd after \<noteq> CHR '' '' \<and> hd after \<noteq> CHR 0x09 \<and> hd after \<noteq> CHR ''/''
              then match_think_names ns s
              else case sfind ''>'' after of
                     None \<Rightarrow> None
                   | Some g \<Rightarrow> Some (n, 1 + length n + g + 1))"

definition match_open_think :: "string \<Rightarrow> (string \<times> nat) option" where
  "match_open_think s = (if s = [] \<or> hd s \<noteq> CHR ''<'' then None else match_think_names k_think_names s)"

lemma match_think_positive: "match_think_names ns s = Some (n, e) \<Longrightarrow> 2 \<le> e \<and> s \<noteq> []"
  by (induction ns s rule: match_think_names.induct)
    (auto simp: Let_def starts_ieq_def split: if_splits option.splits)

definition join_reasoning :: "string \<Rightarrow> string \<Rightarrow> string" where
  "join_reasoning r t = (if r = [] then [] else r @ [nl]) @ t"

record thinking_split =
  ts_reasoning :: string
  ts_visible :: string
  ts_closed :: bool

function split_loop :: "string \<Rightarrow> string \<Rightarrow> string \<Rightarrow> thinking_split" where
  "split_loop reasoning visible s =
     (case s of
        [] \<Rightarrow> \<lparr> ts_reasoning = reasoning, ts_visible = visible, ts_closed = True \<rparr>
      | c # cs \<Rightarrow>
          (case match_open_think s of
             None \<Rightarrow> split_loop reasoning (visible @ [c]) cs
           | Some (name, open_end) \<Rightarrow>
               if 2 \<le> open_end \<and> s ! (open_end - 2) = CHR ''/'' then split_loop reasoning visible (drop open_end s)
               else let closer = ''</'' @ name @ ''>'';
                        rest = drop open_end s
                    in case find_ieq rest closer of
                         None \<Rightarrow> \<lparr> ts_reasoning = join_reasoning reasoning rest, ts_visible = visible,
                                  ts_closed = False \<rparr>
                       | Some e \<Rightarrow> split_loop (join_reasoning reasoning (take e rest)) visible
                                      (drop (e + length closer) rest)))"
  by pat_completeness auto
termination
  by (relation "measure (\<lambda>(reasoning, visible, s). length s)")
    (auto simp: match_open_think_def dest!: match_think_positive split: if_splits)

declare split_loop.simps [simp del]

definition k_think_close :: string where
  "k_think_close = ''</think>''"

definition split_thinking_channel :: "string \<Rightarrow> bool \<Rightarrow> thinking_split" where
  "split_thinking_channel s prompt_opened_think =
     (if prompt_opened_think
      then case find_ieq s k_think_close of
             None \<Rightarrow> \<lparr> ts_reasoning = s, ts_visible = [], ts_closed = False \<rparr>
           | Some e \<Rightarrow> split_loop (take e s) [] (drop (e + length k_think_close) s)
      else split_loop [] [] s)"

section \<open>Actions\<close>

definition add_question :: "string \<Rightarrow> parsed_question option \<Rightarrow> parsed_question option" where
  "add_question body q =
     (let q = (case q of None \<Rightarrow> \<lparr> q_text = [], q_answers = [] \<rparr> | Some q \<Rightarrow> q);
          t = trim_sv body
      in Some (if t = [] then q
               else q\<lparr> q_text := (if q_text q = [] then [] else q_text q @ [nl]) @ t \<rparr>))"

definition add_answer :: "string \<Rightarrow> parsed_question option \<Rightarrow> parsed_question option" where
  "add_answer body q =
     (let q = (case q of None \<Rightarrow> \<lparr> q_text = [], q_answers = [] \<rparr> | Some q \<Rightarrow> q);
          t = trim_sv body
      in Some (if t = [] then q else q\<lparr> q_answers := q_answers q @ [t] \<rparr>))"

definition add_calls :: "('j, 'z) json_api_scheme \<Rightarrow> 'j model_adapter \<Rightarrow> string \<Rightarrow> 'j parsed_tool_call list \<Rightarrow>
    'j parsed_tool_call list" where
  "add_calls js adapter body calls =
     (let found = parse_tool_calls adapter body calls
      in if length found = length calls then parse_tool_json_segment js body found else found)"

function collect_actions :: "('j, 'z) json_api_scheme \<Rightarrow> 'j model_adapter \<Rightarrow> string \<Rightarrow>
    'j parsed_tool_call list \<Rightarrow> parsed_question option \<Rightarrow> 'j parsed_tool_call list \<times> parsed_question option" where
  "collect_actions js adapter s calls q =
     (case split_tag s of
        None \<Rightarrow> (calls, q)
      | Some (_, raw, after) \<Rightarrow>
          (let n = tag_name raw; block = extract_tag_body n after; body = fst block; rest = fst (snd block)
           in if closes raw \<or> (raw \<noteq> [] \<and> last raw = CHR ''/'') then collect_actions js adapter after calls q
              else if ieq n ''tool_call'' \<or> ieq n ''tool_calls''
              then collect_actions js adapter rest (add_calls js adapter body calls) q
              else if ieq n ''question'' then collect_actions js adapter rest calls (add_question body q)
              else if ieq n ''answer'' then collect_actions js adapter rest calls (add_answer body q)
              else collect_actions js adapter after calls q))"
  by pat_completeness auto
termination
  by (relation "measure (\<lambda>(js, adapter, s, calls, q). length s)") (auto simp: split_tag_shorter extract_shorter)

declare collect_actions.simps [simp del]

text \<open>\<open>std::to_string\<close> of a non-negative number.\<close>

definition assign_ids :: "'j parsed_tool_call list \<Rightarrow> 'j parsed_tool_call list" where
  "assign_ids calls = map (\<lambda>(i, c). if tc_id c = [] then c\<lparr> tc_id := decimal (i + 1) \<rparr> else c) (enumerate 0 calls)"

definition parse_assistant_actions :: "('j, 'z) json_api_scheme \<Rightarrow> 'j model_adapter \<Rightarrow> string \<Rightarrow>
    'j parsed_actions" where
  "parse_assistant_actions js adapter s =
     (if s = [] then no_actions
      else let (calls, q) = collect_actions js adapter s [] None;
               calls = (if calls = []
                        then (let found = parse_tool_calls adapter s []; trimmed_text = trim_sv s
                              in if found = [] \<and> trimmed_text \<noteq> [] \<and>
                                    (hd trimmed_text = CHR ''{'' \<or> hd trimmed_text = CHR ''['')
                                 then parse_tool_json_segment js trimmed_text found else found)
                        else calls);
               q = (case q of None \<Rightarrow> None
                    | Some x \<Rightarrow> if q_text x = [] \<and> q_answers x = [] then None else Some x)
           in \<lparr> pa_tool_calls = assign_ids calls, pa_question = q, pa_reasoning = [],
                pa_visible_text = strip_special_blocks s \<rparr>)"

text \<open>
  How the job runner reads a finished completion: nothing is looked for in a completion whose
  thinking was never closed.
\<close>

definition read_completion :: "('j, 'z) json_api_scheme \<Rightarrow> 'j model_adapter \<Rightarrow> chat_tool list \<Rightarrow> string \<Rightarrow> bool \<Rightarrow>
    string \<times> 'j parsed_actions" where
  "read_completion js adapter tools full opened_think =
     (let split = split_thinking_channel full opened_think;
          actions = (if ts_closed split
                     then (let a = parse_assistant_actions js adapter (ts_visible split)
                           in a\<lparr> pa_tool_calls := coerce_tool_arguments js tools (pa_tool_calls a) \<rparr>)
                     else no_actions)
      in (ts_visible split, actions\<lparr> pa_reasoning := ts_reasoning split \<rparr>))"

section \<open>The system prompt\<close>

definition agent_intro :: string where
  "agent_intro = ''You are a coding agent. Solve the user'' @ [CHR 0x27] @ ''s task one step at a time.'' @
     [nl] @
     [nl] @
     ''A turn is a few lines of reasoning and the tool calls for the next piece, then stop. '' @
     ''Do not plan, draft, or paste the rest of the solution in reasoning. '' @
     ''Reasoning must not contain source code. '' @
     ''When creating or changing a program, inspect what is already there, change one piece, '' @
     ''and wait for the tool result before the next piece. '' @
     ''Do not write the whole program in one turn. On later turns, do not restate the plan.'' @
     [nl] @
     [nl] @
     ''You cannot run commands yourself. When you need the client to run something, '' @
     ''emit one or more tool calls. The client executes them and returns results.'' @
     [nl] @
     [nl]"

definition no_tools_note :: string where
  "no_tools_note = ''The client did not provide any tools. Answer from the conversation alone.'' @
     [nl] @
     [nl]"

definition question_rules :: string where
  "question_rules = ''When several approaches are reasonable and you need the user to choose, ask with:'' @
     [nl] @
     ''<question>'' @
     [nl] @
     ''Your question text'' @
     [nl] @
     ''</question>'' @
     [nl] @
     ''<answer>Option A</answer>'' @
     [nl] @
     ''<answer>Option B</answer>'' @
     [nl] @
     ''(Include 2+ <answer> options when choices are clear; omit <answer> for free-form.)'' @
     [nl] @
     [nl] @
     ''Do not invent tool results. Wait for the next user/tool message.'' @
     [nl] @
     ''When finished, reply with a clear final answer and no tool_call/question tags.'' @
     [nl]"

definition no_question_rules :: string where
  "no_question_rules = ''Do not invent tool results. Wait for the next user/tool message.'' @
     [nl] @
     ''Do not use <question> or <answer> tags. Prefer a best-effort approach or '' @
     ''state assumptions instead of asking the user to choose.'' @
     [nl] @
     ''When finished, reply with a clear final answer and no tool_call tags.'' @
     [nl]"

definition compress_note :: string where
  "compress_note = ''Older tool results are replaced with one line naming the tool and its target '' @
     ''when the next user message arrives, for example `read_file src/cli/tui.cpp, lines 1-80 of 420`. '' @
     ''They stay in full while tool calls are still in progress. Read the file or repeat the search '' @
     ''if you need that text again after it was replaced. A sub_agent result stays in full.'' @
     [nl]"

definition one_step_rule :: string where
  "one_step_rule = ''One step per turn. Do not draft the whole solution in reasoning.'' @
     [nl]"

definition default_agent_system_prompt :: "'j model_adapter \<Rightarrow> chat_tool list \<Rightarrow> string \<Rightarrow> bool \<Rightarrow> bool \<Rightarrow> string" where
  "default_agent_system_prompt adapter tools extra allow_questions compress_tools =
     agent_intro @ (if tools = [] then no_tools_note else example_call adapter tools) @
     (if allow_questions then question_rules else no_question_rules) @
     (if compress_tools then compress_note else []) @
     (if extra = [] then [] else [nl] @ extra @ [nl]) @ one_step_rule"

section \<open>Every action is complete\<close>

text \<open>Calls have a name, answers and questions are not empty.\<close>

definition named_calls :: "'j parsed_tool_call list \<Rightarrow> bool" where
  "named_calls calls \<longleftrightarrow> (\<forall>c \<in> set calls. tc_name c \<noteq> [])"

definition answers_ok :: "parsed_question option \<Rightarrow> bool" where
  "answers_ok q \<longleftrightarrow> (\<forall>x. q = Some x \<longrightarrow> (\<forall>a \<in> set (q_answers x). a \<noteq> [] \<and> trimmed a))"

lemma single_tool_named: "named_calls (extract_single_tool js j)"
proof (cases "j_members js j")
  case None
  then show ?thesis by (simp add: extract_single_tool_def named_calls_def)
next
  case (Some members)
  have "named_calls (map (\<lambda>c. c\<lparr> tc_id := i \<rparr>) (named_call n a))" for i n and a :: 'a
    using named_call_named [of _ n a] by (auto simp: named_calls_def nameless_id_def)
  moreover have "\<exists>i n a. extract_single_tool js j = [] \<or>
      extract_single_tool js j = map (\<lambda>c. c\<lparr> tc_id := i \<rparr>) (named_call n a)"
    unfolding extract_single_tool_def Some Let_def by (simp split: option.split) blast
  ultimately show ?thesis by (auto simp: named_calls_def)
qed

lemma segment_named: "named_calls out \<Longrightarrow> named_calls (parse_tool_json_segment js segment out)"
  using single_tool_named [of js]
  by (auto simp: parse_tool_json_segment_def named_calls_def split: sum.splits option.splits)

lemma question_steps_ok:
  "answers_ok q \<Longrightarrow> answers_ok (add_question body q)" "answers_ok q \<Longrightarrow> answers_ok (add_answer body q)"
  by (auto simp: answers_ok_def add_question_def add_answer_def Let_def trimmed_trim split: option.splits)

context tool_call_syntax begin

lemma add_calls_named:
  assumes "parse_tool_calls adapter = parse" and "named_calls calls"
  shows "named_calls (add_calls js adapter body calls)"
proof -
  have "named_calls (parse_tool_calls adapter body calls)"
    using parse_names [of calls body] assms by (simp add: named_calls_def)
  then show ?thesis by (simp add: add_calls_def Let_def segment_named)
qed

lemma collect_actions_ok:
  "parse_tool_calls adapter = parse \<Longrightarrow> named_calls calls \<Longrightarrow> answers_ok q \<Longrightarrow>
     collect_actions js adapter s calls q = (calls', q') \<Longrightarrow> named_calls calls' \<and> answers_ok q'"
proof (induction "length s" arbitrary: s calls q rule: less_induct)
  case less
  show ?case
  proof (cases "split_tag s")
    case None
    with less.prems show ?thesis by (simp add: collect_actions.simps [of js adapter s])
  next
    case (Some r)
    obtain before raw after where r: "r = (before, raw, after)" by (metis prod_cases3)
    note short = split_tag_shorter [OF Some [unfolded r]] extract_shorter [OF Some [unfolded r], of "tag_name raw"]
    note ok = less.prems(2,3) add_calls_named [OF less.prems(1,2)] question_steps_ok [OF less.prems(3)]
    show ?thesis
      using less.prems(4) less.hyps [OF short(1) less.prems(1)] less.hyps [OF short(2) less.prems(1)] ok Some r
      by (simp add: collect_actions.simps [of js adapter s] Let_def split: if_splits) blast+
  qed
qed

lemma actions_ok:
  assumes "parse_tool_calls adapter = parse"
  shows "named_calls (pa_tool_calls (parse_assistant_actions js adapter s))"
    "answers_ok (pa_question (parse_assistant_actions js adapter s))"
proof -
  obtain calls q where run: "collect_actions js adapter s [] None = (calls, q)" by fastforce
  have ok: "named_calls calls" "answers_ok q"
    using collect_actions_ok [OF assms _ _ run] by (simp_all add: named_calls_def answers_ok_def)
  have found: "named_calls (parse_tool_calls adapter s [])"
    using parse_names [of "[]" s] assms by (simp add: named_calls_def)
  have ids: "named_calls (assign_ids cs)" if "named_calls cs" for cs :: "'j parsed_tool_call list"
    using that by (auto simp: named_calls_def assign_ids_def in_set_enumerate_eq split: if_splits)
  show "answers_ok (pa_question (parse_assistant_actions js adapter s))"
    using ok(2) by (auto simp: parse_assistant_actions_def run no_actions_def answers_ok_def Let_def split: option.splits)
  show "named_calls (pa_tool_calls (parse_assistant_actions js adapter s))"
    using ok(1) found segment_named [OF found, of js "trim_sv s"]
    by (auto simp: parse_assistant_actions_def run no_actions_def Let_def intro!: ids)
      (simp_all add: named_calls_def)
qed

end

lemma actions_have_ids: "\<forall>c \<in> set (pa_tool_calls (parse_assistant_actions js adapter s)). tc_id c \<noteq> []"
proof -
  let ?a = "parse_assistant_actions js adapter s"
  have "pa_tool_calls ?a = [] \<or> (\<exists>calls. pa_tool_calls ?a = assign_ids calls)"
    by (cases "s = []") (auto simp: parse_assistant_actions_def no_actions_def Let_def split: prod.splits)
  then show ?thesis by (auto simp: assign_ids_def decimal_not_empty in_set_enumerate_eq split: if_splits)
qed

text \<open>
  Whatever a model writes and whichever family it belongs to, the actions handed to the client
  are complete: every tool call has a name and an id, a question has a text or answers to choose
  from, and no answer is empty or padded with blanks.
\<close>

theorem parsed_actions_are_complete:
  "let a = parse_assistant_actions js (make_model_adapter js model_path template_path) s
   in (\<forall>c \<in> set (pa_tool_calls a). tc_name c \<noteq> [] \<and> tc_id c \<noteq> []) \<and>
      (\<forall>q. pa_question a = Some q \<longrightarrow> (q_text q \<noteq> [] \<or> q_answers q \<noteq> []) \<and>
         (\<forall>x \<in> set (q_answers q). x \<noteq> [] \<and> trimmed x))"
proof -
  let ?adapter = "make_model_adapter js model_path template_path"
  let ?a = "parse_assistant_actions js ?adapter s"
  note ok = tool_call_syntax.actions_ok [OF every_adapter_is_a_syntax [of js model_path template_path] refl, of js s]
  have "\<forall>c \<in> set (pa_tool_calls ?a). tc_id c \<noteq> []" by (rule actions_have_ids)
  moreover have "\<forall>q. pa_question ?a = Some q \<longrightarrow> q_text q \<noteq> [] \<or> q_answers q \<noteq> []"
    by (auto simp: parse_assistant_actions_def no_actions_def Let_def split: prod.splits option.splits if_splits)
  ultimately show ?thesis using ok by (simp add: Let_def named_calls_def answers_ok_def)
qed

section \<open>A question is read back\<close>

definition tag_block :: "string \<Rightarrow> string \<Rightarrow> string" where
  "tag_block name body = ''<'' @ name @ ''>'' @ body @ ''</'' @ name @ ''>''"

definition question_text :: "string \<Rightarrow> string list \<Rightarrow> string" where
  "question_text q answers = tag_block ''question'' ([nl] @ q @ [nl]) @ [nl] @
     concat (map (\<lambda>a. tag_block ''answer'' a @ [nl]) answers)"

definition plain_text :: "string \<Rightarrow> bool" where
  "plain_text t \<longleftrightarrow> CHR ''<'' \<notin> set t"

lemma tag_names: "tag_name ''question'' = ''question''" "tag_name ''answer'' = ''answer''"
  "trim_sv ''question'' = ''question''" "trim_sv ''answer'' = ''answer''" "ieq ''question'' ''question''"
  "ieq ''answer'' ''answer''" "\<not> ieq ''question'' ''tool_call''" "\<not> ieq ''question'' ''tool_calls''"
  "\<not> ieq ''answer'' ''tool_call''" "\<not> ieq ''answer'' ''tool_calls''" "\<not> ieq ''answer'' ''question''"
  "special_name ''question''" "special_name ''answer''"
  by code_simp+

lemma extract_block:
  assumes "n = ''question'' \<or> n = ''answer''" and "plain_text body"
  shows "extract_tag_body n (body @ ''</'' @ n @ ''>'' @ v) = (body, v, True)"
proof -
  have "split_tag (body @ ''<'' @ (CHR ''/'' # n) @ ''>'' @ v) = Some (body, CHR ''/'' # n, v)"
    using assms by (intro split_tag_put) (auto simp: plain_text_def)
  then show ?thesis using assms(1) tag_names
    by (auto simp: extract_tag_body_def tag_body.simps [of _ _ "[]"] closes_def Let_def)
qed

lemmas extract_blocks = extract_block [of "''question''", simplified] extract_block [of "''answer''", simplified]

lemma split_block:
  assumes "n = ''question'' \<or> n = ''answer''" and "plain_text u"
  shows "split_tag (u @ tag_block n body @ v) = Some (u, n, body @ ''</'' @ n @ ''>'' @ v)"
  using split_tag_put [of u n "body @ ''</'' @ n @ ''>'' @ v"] assms by (auto simp: tag_block_def plain_text_def)

lemma collect_question:
  "plain_text u \<Longrightarrow> plain_text body \<Longrightarrow> collect_actions js adapter (u @ tag_block ''question'' body @ v) calls q =
     collect_actions js adapter v calls (add_question body q)"
  "plain_text u \<Longrightarrow> plain_text body \<Longrightarrow> collect_actions js adapter (u @ tag_block ''answer'' body @ v) calls q =
     collect_actions js adapter v calls (add_answer body q)"
  by (simp_all add: collect_actions.simps [of js adapter "u @ _"] split_block extract_blocks tag_names closes_def Let_def)

lemma strip_block:
  "n = ''question'' \<or> n = ''answer'' \<Longrightarrow> plain_text u \<Longrightarrow> plain_text body \<Longrightarrow>
     strip_blocks out (u @ tag_block n body @ v) = strip_blocks (out @ u) v"
  using tag_names by (auto simp: strip_blocks.simps [of out "u @ _"] split_block extract_blocks closes_def Let_def)

lemma answers_read:
  "\<forall>a \<in> set answers. plain_text a \<and> trimmed a \<and> a \<noteq> [] \<Longrightarrow> plain_text u \<Longrightarrow> plain_text v \<Longrightarrow>
     collect_actions js adapter (u @ concat (map (\<lambda>a. tag_block ''answer'' a @ [nl]) answers) @ v) calls (Some q) =
       (calls, Some (q\<lparr> q_answers := q_answers q @ answers \<rparr>))"
proof (induction answers arbitrary: u q)
  case Nil
  then show ?case by (simp add: collect_actions.simps [of js adapter "u @ v"] split_tag_none plain_text_def)
next
  case (Cons a answers)
  have "add_answer a (Some q) = Some (q\<lparr> q_answers := q_answers q @ [a] \<rparr>)"
    using Cons.prems(1) by (simp add: add_answer_def Let_def trim_id)
  with Cons.IH [of "[nl]" "q\<lparr> q_answers := q_answers q @ [a] \<rparr>"] Cons.prems show ?case
    by (simp add: collect_question plain_text_def)
qed

lemma answers_stripped:
  "\<forall>a \<in> set answers. plain_text a \<Longrightarrow> plain_text u \<Longrightarrow> plain_text v \<Longrightarrow>
     strip_blocks out (u @ concat (map (\<lambda>a. tag_block ''answer'' a @ [nl]) answers) @ v) =
       out @ u @ replicate (length answers) nl @ v"
proof (induction answers arbitrary: u out)
  case Nil
  then show ?case by (simp add: strip_blocks.simps [of out "u @ v"] split_tag_none plain_text_def)
next
  case (Cons a answers)
  with Cons.IH [of "[nl]" "out @ u"] show ?case by (simp add: strip_block plain_text_def)
qed

lemma trim_wrapped: "trimmed q \<Longrightarrow> q \<noteq> [] \<Longrightarrow> trim_sv ([nl] @ q @ [nl]) = q"
proof -
  assume t: "trimmed q" "q \<noteq> []"
  then obtain c cs where c: "q = c # cs" "\<not> is_trim_char c" by (cases q) (auto simp: trimmed_def)
  have "dropWhile is_trim_char ([nl] @ q @ [nl]) = q @ [nl]" using c by (simp add: is_trim_char_def)
  moreover have "dropWhile is_trim_char (rev (q @ [nl])) = dropWhile is_trim_char (rev q)"
    by (simp add: is_trim_char_def)
  moreover have "dropWhile is_trim_char (rev q) = rev q"
    using t by (metis dropWhile_eq_self_iff hd_rev trimmed_def)
  ultimately show ?thesis by (simp add: trim_sv_def)
qed

text \<open>
  C16. A question asked in the protocol of the system prompt is read back exactly, its text and all
  its answers in order, for every adapter and whatever text stands around it; and none of it, but
  the text around it, is shown to the user.
\<close>

theorem question_is_read_back:
  assumes "plain_text before" and "plain_text after" and "plain_text q" and "trimmed q" and "q \<noteq> []"
    and "\<forall>a \<in> set answers. plain_text a \<and> trimmed a \<and> a \<noteq> []"
  shows "pa_question (parse_assistant_actions js adapter (before @ question_text q answers @ after)) =
      Some \<lparr> q_text = q, q_answers = answers \<rparr> \<and>
    pa_visible_text (parse_assistant_actions js adapter (before @ question_text q answers @ after)) =
      trim_sv (before @ replicate (Suc (length answers)) nl @ after)"
proof -
  let ?tail = "concat (map (\<lambda>a. tag_block ''answer'' a @ [nl]) answers) @ after"
  let ?s = "before @ tag_block ''question'' ([nl] @ q @ [nl]) @ [nl] @ ?tail"
  have body: "plain_text ([nl] @ q @ [nl])" using assms(3) by (simp add: plain_text_def)
  have add: "add_question ([nl] @ q @ [nl]) None = Some \<lparr> q_text = q, q_answers = [] \<rparr>"
    using trim_wrapped [OF assms(4,5)] assms(5) by (simp add: add_question_def Let_def)
  have "collect_actions js adapter ?s [] None =
      collect_actions js adapter ([nl] @ ?tail) [] (Some \<lparr> q_text = q, q_answers = [] \<rparr>)"
    using collect_question(1) [OF assms(1) body, of js adapter "[nl] @ ?tail" "[]" None] add by simp
  also have "\<dots> = ([], Some \<lparr> q_text = q, q_answers = answers \<rparr>)"
    using answers_read [OF assms(6), of "[nl]" after js adapter "[]"] assms(2) by (simp add: plain_text_def)
  finally have run: "collect_actions js adapter ?s [] None = ([], Some \<lparr> q_text = q, q_answers = answers \<rparr>)" .
  have "strip_blocks [] ?s = strip_blocks before ([nl] @ ?tail)"
    using strip_block [OF _ assms(1) body, of "''question''" "[]" "[nl] @ ?tail"] by simp
  also have "\<dots> = before @ [nl] @ replicate (length answers) nl @ after"
    using answers_stripped [of answers "[nl]" after before] assms(2,6) by (simp add: plain_text_def)
  finally have strip: "strip_blocks [] ?s = before @ replicate (Suc (length answers)) nl @ after" by simp
  have ne: "?s \<noteq> []" by simp
  have "pa_question (parse_assistant_actions js adapter ?s) = Some \<lparr> q_text = q, q_answers = answers \<rparr> \<and>
    pa_visible_text (parse_assistant_actions js adapter ?s) = trim_sv (before @ replicate (Suc (length answers)) nl @ after)"
    using run strip ne assms(5) by (simp add: parse_assistant_actions_def strip_special_blocks_def Let_def)
  then show ?thesis by (simp add: question_text_def)
qed

theorem question_is_read_back_witness:
  "pa_question (parse_assistant_actions tree_json (qwen_adapter tree_json)
     (''Well.'' @ question_text ''Which one?'' [''Red'', ''a > b''] @ ''Bye'')) =
   Some \<lparr> q_text = ''Which one?'', q_answers = [''Red'', ''a > b''] \<rparr>"
proof -
  have c: "plain_text ''Well.''" "plain_text ''Bye''" "plain_text ''Which one?''" "trimmed ''Which one?''"
    "''Which one?'' \<noteq> []" "\<forall>a \<in> set [''Red'', ''a > b'']. plain_text a \<and> trimmed a \<and> a \<noteq> []"
    by code_simp+
  from question_is_read_back [OF c, of tree_json "qwen_adapter tree_json"] show ?thesis by simp
qed

section \<open>The thinking channel is split off\<close>

text \<open>No thinking tag opens within the first \<open>length u\<close> characters of \<open>u @ v\<close>.\<close>

definition no_think_in :: "string \<Rightarrow> string \<Rightarrow> bool" where
  "no_think_in u v \<longleftrightarrow> (\<forall>i \<in> set [0..<length u]. match_open_think (drop i u @ v) = None)"

lemma split_loop_plain:
  "no_think_in u v \<Longrightarrow> split_loop reasoning visible (u @ v) = split_loop reasoning (visible @ u) v"
proof (induction u arbitrary: visible)
  case (Cons c u)
  have "match_open_think ((c # u) @ v) = None" using Cons.prems by (force simp: no_think_in_def)
  moreover have "no_think_in u v"
    unfolding no_think_in_def
  proof
    fix i assume "i \<in> set [0..<length u]"
    then have "Suc i \<in> set [0..<length (c # u)]" by (simp, linarith)
    with Cons.prems show "match_open_think (drop i u @ v) = None"
      unfolding no_think_in_def by (metis drop_Suc_Cons)
  qed
  ultimately show ?case using Cons.IH by (simp add: split_loop.simps [of _ _ "c # _"])
qed simp

lemma split_loop_end: "split_loop r v [] = \<lparr> ts_reasoning = r, ts_visible = v, ts_closed = True \<rparr>"
  by (simp add: split_loop.simps)

lemma find_close_put:
  "find_ieq think k_think_close = None \<Longrightarrow> find_ieq (think @ k_think_close @ v) k_think_close = Some (length think)"
proof -
  assume none: "find_ieq think k_think_close = None"
  have k: "map to_lower k_think_close = CHR ''<'' # ''/think>''" by code_simp
  with none show ?thesis
    using sfind_put [of "CHR ''<''" "''/think>''" "map to_lower think" "map to_lower v"]
    by (simp add: find_ieq_def k_think_close_def)
qed

lemma match_think_open: "match_open_think (''<think>'' @ v) = Some (''think'', 7)"
proof -
  have "prefix (map to_lower ''think'') (map to_lower (''think'' @ (''>'' @ v)))" unfolding map_append by simp
  then have "starts_ieq (drop 1 (''<think>'' @ v)) ''think''" by (simp add: starts_ieq_def)
  then show ?thesis by (simp add: match_open_think_def k_think_names_def Let_def)
qed

text \<open>
  Thinking and answer come apart where the model closed its thinking, whether the prompt opened
  the block or the model did: the reasoning is exactly what stands before the closing tag, the
  visible text exactly the answer behind it. Without a closing tag nothing of a block the prompt
  opened is visible.
\<close>

theorem thinking_and_answer_come_apart:
  assumes "find_ieq think k_think_close = None" and "no_think_in answer []"
  shows "split_thinking_channel (think @ k_think_close @ answer) True =
      \<lparr> ts_reasoning = think, ts_visible = answer, ts_closed = True \<rparr> \<and>
    split_thinking_channel (''<think>'' @ think @ k_think_close @ answer) False =
      \<lparr> ts_reasoning = think, ts_visible = answer, ts_closed = True \<rparr> \<and>
    split_thinking_channel think True = \<lparr> ts_reasoning = think, ts_visible = [], ts_closed = False \<rparr>"
proof -
  have plain: "split_loop r [] answer = \<lparr> ts_reasoning = r, ts_visible = answer, ts_closed = True \<rparr>" for r
    using split_loop_plain [OF assms(2), of r "[]"] by (simp add: split_loop_end)
  note close = find_close_put [OF assms(1), of answer]
  have rest: "drop (length think + length k_think_close) (think @ k_think_close @ answer) = answer" by simp
  have "split_thinking_channel (think @ k_think_close @ answer) True =
      \<lparr> ts_reasoning = think, ts_visible = answer, ts_closed = True \<rparr>"
    using close plain by (simp add: split_thinking_channel_def)
  moreover have "split_loop [] [] (''<think>'' @ (think @ k_think_close @ answer)) = split_loop think [] answer"
    using match_think_open [of "think @ k_think_close @ answer"] close rest
    by (simp add: split_loop.simps [of "[]" "[]" "CHR ''<'' # _"] k_think_close_def join_reasoning_def Let_def)
  ultimately show ?thesis using plain assms(1) by (simp add: split_thinking_channel_def)
qed

theorem thinking_and_answer_come_apart_witness:
  "split_thinking_channel (''a < b'' @ k_think_close @ ''Yes <b>'') True =
     \<lparr> ts_reasoning = ''a < b'', ts_visible = ''Yes <b>'', ts_closed = True \<rparr>"
proof -
  have "find_ieq ''a < b'' k_think_close = None" "no_think_in ''Yes <b>'' []" by code_simp+
  from thinking_and_answer_come_apart [OF this] show ?thesis by blast
qed

text \<open>
  C32. The comment on \<open>ThinkingSplit\<close> says that without a closing tag the visible text is empty. A
  thinking block that opens behind visible text and is never closed leaves that text visible, and
  every tool call and question written before the block is dropped.
\<close>

theorem unclosed_thinking_drops_earlier_actions:
  assumes "no_think_in u (''<think>'' @ r)" and "find_ieq r k_think_close = None"
  shows "split_thinking_channel (u @ ''<think>'' @ r) False =
      \<lparr> ts_reasoning = r, ts_visible = u, ts_closed = False \<rparr> \<and>
    pa_tool_calls (snd (read_completion js adapter tools (u @ ''<think>'' @ r) False)) = [] \<and>
    pa_question (snd (read_completion js adapter tools (u @ ''<think>'' @ r) False)) = None"
proof -
  have "split_loop [] u (''<think>'' @ r) = \<lparr> ts_reasoning = r, ts_visible = u, ts_closed = False \<rparr>"
    using match_think_open [of r] assms(2)
    by (simp add: split_loop.simps [of "[]" u "CHR ''<'' # _"] k_think_close_def join_reasoning_def Let_def)
  then have s: "split_thinking_channel (u @ ''<think>'' @ r) False =
      \<lparr> ts_reasoning = r, ts_visible = u, ts_closed = False \<rparr>"
    using split_loop_plain [OF assms(1), of "[]" "[]"] by (simp add: split_thinking_channel_def)
  then show ?thesis by (simp only: s read_completion_def Let_def) (simp add: no_actions_def)
qed

end
