(* ===== verification/Marker_Search.thy ===== *)
theory Marker_Search
  imports Model_Adapter
begin

text \<open>
  Searching a text for the markers of \<open>responses.cpp\<close>: the earliest marker of a list, and how
  much of the end of a text may be the beginning of one (\<open>earliest_marker\<close>, \<open>hold_suffix\<close>).
  The lemmas say how both behave when more text arrives.
\<close>

section \<open>Markers\<close>

record marker =
  mk_start :: string
  mk_end :: string
  mk_reasoning :: bool

definition k_think_end :: string where
  "k_think_end = ''</think>''"

definition k_markers :: "marker list" where
  "k_markers =
     [\<lparr> mk_start = ''<think>'', mk_end = ''</think>'', mk_reasoning = True \<rparr>,
      \<lparr> mk_start = ''<tool_calls>'', mk_end = ''</tool_calls>'', mk_reasoning = False \<rparr>,
      \<lparr> mk_start = ''<tool_call>'', mk_end = ''</tool_call>'', mk_reasoning = False \<rparr>,
      \<lparr> mk_start = ds_calls_begin, mk_end = ds_calls_end, mk_reasoning = False \<rparr>,
      \<lparr> mk_start = ds_begin, mk_end = ds_end, mk_reasoning = False \<rparr>,
      \<lparr> mk_start = ''[TOOL_CALLS]'', mk_end = [], mk_reasoning = False \<rparr>]"

text \<open>The inner loop of \<open>hold_suffix\<close> counts down from the longest length and stops at the first match.\<close>

definition hold_step :: "string \<Rightarrow> nat \<Rightarrow> string \<Rightarrow> nat" where
  "hold_step s hold m =
     (if length m < 2 then hold
      else case List.find (\<lambda>n. drop (length s - n) s = take n m)
                  (rev [Suc hold ..< Suc (min (length s) (length m - 1))]) of
             None \<Rightarrow> hold
           | Some n \<Rightarrow> n)"

definition hold_suffix :: "string \<Rightarrow> string list \<Rightarrow> nat" where
  "hold_suffix s ms = foldl (hold_step s) 0 ms"

definition earliest_step :: "string \<Rightarrow> (nat \<times> marker) option \<Rightarrow> marker \<Rightarrow> (nat \<times> marker) option" where
  "earliest_step s best mk =
     (case sfind (mk_start mk) s of
        None \<Rightarrow> best
      | Some pos \<Rightarrow>
          (case best of
             None \<Rightarrow> Some (pos, mk)
           | Some (p, m) \<Rightarrow>
               if pos < p \<or> (pos = p \<and> length (mk_start m) < length (mk_start mk)) then Some (pos, mk) else best))"

definition earliest_among :: "marker list \<Rightarrow> string \<Rightarrow> (nat \<times> marker) option" where
  "earliest_among ms s = foldl (earliest_step s) None ms"

definition earliest_marker :: "string \<Rightarrow> (nat \<times> marker) option" where
  "earliest_marker s = earliest_among k_markers s"

lemma earliest_step_hit:
  "(case best of None \<Rightarrow> True | Some (p, m) \<Rightarrow> m \<in> M \<and> sfind (mk_start m) s = Some p) \<Longrightarrow>
   (case foldl (earliest_step s) best ms of None \<Rightarrow> True
    | Some (p, m) \<Rightarrow> m \<in> M \<union> set ms \<and> sfind (mk_start m) s = Some p)"
proof (induction ms arbitrary: best M)
  case Nil
  then show ?case by (auto split: option.splits)
next
  case (Cons mk ms)
  have "case earliest_step s best mk of None \<Rightarrow> True
    | Some (p, m) \<Rightarrow> m \<in> insert mk M \<and> sfind (mk_start m) s = Some p"
    using Cons.prems by (auto simp: earliest_step_def split: option.splits)
  from Cons.IH [OF this] show ?case by (auto split: option.splits)
qed

lemma earliest_hit:
  assumes "earliest_among ms s = Some (p, m)"
  shows "m \<in> set ms" "sfind (mk_start m) s = Some p"
  using earliest_step_hit [where best = None and M = "{}" and s = s and ms = ms] assms by (auto simp: earliest_among_def)

lemma k_marker_nonempty: "mk \<in> set k_markers \<Longrightarrow> mk_start mk \<noteq> []"
  by (auto simp: k_markers_def ds_begin_def ds_calls_begin_def ds_tag_def)

lemma earliest_marker_hit:
  assumes "earliest_marker s = Some (p, m)"
  shows "m \<in> set k_markers" "sfind (mk_start m) s = Some p" "mk_start m \<noteq> []"
  using earliest_hit [of k_markers s p m] assms k_marker_nonempty by (auto simp: earliest_marker_def)

section \<open>What is held back\<close>

definition held :: "string \<Rightarrow> string \<Rightarrow> nat \<Rightarrow> bool" where
  "held s m n \<longleftrightarrow> 0 < n \<and> n < length m \<and> n \<le> length s \<and> drop (length s - n) s = take n m"

text \<open>No suffix longer than \<open>h\<close> is the start of a marker of \<open>M\<close>.\<close>

definition holds_all :: "string \<Rightarrow> string set \<Rightarrow> nat \<Rightarrow> bool" where
  "holds_all s M h \<longleftrightarrow> (\<forall>m \<in> M. \<forall>n. held s m n \<longrightarrow> n \<le> h)"

lemma find_rev_upt:
  "List.find P (rev [a ..< b]) = Some n \<Longrightarrow> a \<le> n \<and> n < b \<and> P n \<and> (\<forall>k. n < k \<and> k < b \<longrightarrow> \<not> P k)"
proof (induction b)
  case (Suc b)
  show ?case
  proof (cases "a \<le> b")
    case True
    show ?thesis
    proof (cases "P b")
      case False
      with Suc True have "a \<le> n \<and> n < b \<and> P n \<and> (\<forall>k. n < k \<and> k < b \<longrightarrow> \<not> P k)" by simp
      with False show ?thesis by (auto simp: less_Suc_eq)
    qed (use Suc.prems True in auto)
  qed (use Suc.prems in auto)
qed simp

lemma hold_step_spec:
  assumes "holds_all s M hold" and "hold = 0 \<or> (\<exists>m \<in> M. held s m hold)"
  shows "holds_all s (insert m M) (hold_step s hold m)"
    "hold_step s hold m = 0 \<or> (\<exists>x \<in> insert m M. held s x (hold_step s hold m))"
proof -
  let ?P = "\<lambda>n. drop (length s - n) s = take n m"
  let ?ns = "[Suc hold ..< Suc (min (length s) (length m - 1))]"
  have "holds_all s (insert m M) (hold_step s hold m) \<and>
    (hold_step s hold m = 0 \<or> (\<exists>x \<in> insert m M. held s x (hold_step s hold m)))"
  proof (cases "length m < 2")
    case True
    then have "\<not> held s m n" for n by (auto simp: held_def)
    with True assms show ?thesis by (auto simp: hold_step_def holds_all_def)
  next
    case False
    show ?thesis
    proof (cases "List.find ?P (rev ?ns)")
      case None
      have "n \<le> hold" if n: "held s m n" for n
      proof (rule ccontr)
        assume "\<not> n \<le> hold"
        then have "n \<in> set (rev ?ns)" using n by (simp add: held_def del: upt_Suc) linarith
        with None have "\<not> ?P n" unfolding find_None_iff by blast
        with n show False by (simp add: held_def)
      qed
      with assms False None show ?thesis by (auto simp: hold_step_def holds_all_def)
    next
      case (Some h)
      note h = find_rev_upt [OF Some]
      then have "held s m h" using False by (auto simp: held_def)
      moreover have "n \<le> h" if "held s m n" for n
      proof (rule ccontr)
        assume "\<not> n \<le> h"
        then have "h < n \<and> n < Suc (min (length s) (length m - 1))" using that by (auto simp: held_def)
        with h have "\<not> ?P n" by blast
        with that show False by (simp add: held_def)
      qed
      moreover have "hold \<le> h" using h by simp
      ultimately show ?thesis using assms(1) False Some
        by (fastforce simp: hold_step_def holds_all_def)
    qed
  qed
  then show "holds_all s (insert m M) (hold_step s hold m)"
    "hold_step s hold m = 0 \<or> (\<exists>x \<in> insert m M. held s x (hold_step s hold m))" by blast+
qed

lemma hold_fold_spec:
  "holds_all s M hold \<Longrightarrow> hold = 0 \<or> (\<exists>m \<in> M. held s m hold) \<Longrightarrow>
   holds_all s (M \<union> set ms) (foldl (hold_step s) hold ms) \<and>
   (foldl (hold_step s) hold ms = 0 \<or> (\<exists>m \<in> M \<union> set ms. held s m (foldl (hold_step s) hold ms)))"
proof (induction ms arbitrary: M hold)
  case (Cons m ms)
  from Cons.IH [OF hold_step_spec [OF Cons.prems, of m]] show ?case by simp
qed simp

lemma hold_suffix_spec:
  "holds_all s (set ms) (hold_suffix s ms)"
  "hold_suffix s ms = 0 \<or> (\<exists>m \<in> set ms. held s m (hold_suffix s ms))"
  using hold_fold_spec [of s "{}" 0 ms] by (simp_all add: hold_suffix_def holds_all_def)

lemma hold_suffix_le: "hold_suffix s ms \<le> length s"
  using hold_suffix_spec(2) [of s ms] by (auto simp: held_def)

lemma hold_suffix_unique:
  assumes "holds_all s (set ms) h" and "h = 0 \<or> (\<exists>m \<in> set ms. held s m h)"
  shows "hold_suffix s ms = h"
proof (rule order_antisym)
  show "hold_suffix s ms \<le> h"
    using assms(1) hold_suffix_spec(2) [of s ms] by (auto simp: holds_all_def)
  show "h \<le> hold_suffix s ms"
    using assms(2) hold_suffix_spec(1) [of s ms] by (auto simp: holds_all_def)
qed

section \<open>Cutting the stream\<close>

text \<open>A set of markers none of which overlaps another or itself.\<close>

definition clean :: "string set \<Rightarrow> bool" where
  "clean M \<longleftrightarrow> (\<forall>m \<in> M. m \<noteq> [] \<and> (\<forall>m' \<in> M. hd m \<notin> set (tl m') \<and> (prefix m m' \<longrightarrow> m = m')))"

lemma prefix_drop_nth:
  "prefix m (drop j s) \<Longrightarrow> j \<le> i \<Longrightarrow> i < j + length m \<Longrightarrow> s ! i = m ! (i - j)"
proof -
  assume "prefix m (drop j s)" and le: "j \<le> i" and lt: "i < j + length m"
  then obtain zs where zs: "drop j s = m @ zs" by (auto simp: prefix_def)
  have "m \<noteq> []" using le lt by auto
  with zs have "j \<le> length s" by (metis append_is_Nil_conv drop_all nat_le_linear)
  then have "s ! i = drop j s ! (i - j)" using le by simp
  moreover have "i - j < length m" using le lt by linarith
  then have "drop j s ! (i - j) = m ! (i - j)" using zs by (simp add: nth_append)
  ultimately show ?thesis by simp
qed

lemma marker_inside:
  assumes "clean M" and "m \<in> M" and "m' \<in> M" and "prefix m (drop i s)" and "prefix m' (drop j s)" and "j < i"
  shows "j + length m' \<le> i"
proof (rule ccontr)
  assume "\<not> j + length m' \<le> i"
  then have "s ! i = m' ! (i - j)" "i - j < length m'" "0 < i - j"
    using prefix_drop_nth [OF assms(5), of i] assms(6) by auto
  moreover have "s ! i = hd m"
    using prefix_drop_nth [OF assms(4), of i] assms(1,2) by (auto simp: clean_def hd_conv_nth)
  moreover have "m' ! (i - j) = tl m' ! (i - j - 1)" "i - j - 1 < length (tl m')"
    using calculation(2,3) by (auto simp: nth_tl Suc_diff_Suc)
  ultimately have "hd m \<in> set (tl m')" by (metis nth_mem)
  with assms(1-3) show False by (auto simp: clean_def)
qed

lemma same_place:
  assumes "clean M" and "m \<in> M" and "m' \<in> M" and "prefix m (drop i s)" and "prefix m' (drop i s)"
  shows "m = m'"
  using assms prefix_same_cases [OF assms(4,5)] by (auto simp: clean_def)

lemma earliest_fold_keeps:
  "(\<And>x j. x \<in> set ms \<Longrightarrow> sfind (mk_start x) s = Some j \<Longrightarrow> i < j \<or> x = mk) \<Longrightarrow>
   sfind (mk_start mk) s = Some i \<Longrightarrow>
   best = Some (i, mk) \<or> mk \<in> set ms \<and> (best = None \<or> (\<exists>p m. best = Some (p, m) \<and> i < p)) \<Longrightarrow>
   foldl (earliest_step s) best ms = Some (i, mk)"
proof (induction ms arbitrary: best)
  case (Cons x ms)
  have "foldl (earliest_step s) (earliest_step s best x) ms = Some (i, mk)"
  proof (rule Cons.IH)
    show "y \<in> set ms \<Longrightarrow> sfind (mk_start y) s = Some j \<Longrightarrow> i < j \<or> y = mk" for y j
      using Cons.prems(1) [of y j] by simp
    show "earliest_step s best x = Some (i, mk) \<or>
      mk \<in> set ms \<and> (earliest_step s best x = None \<or> (\<exists>p m. earliest_step s best x = Some (p, m) \<and> i < p))"
    proof (cases "sfind (mk_start x) s")
      case None
      with Cons.prems show ?thesis by (auto simp: earliest_step_def)
    next
      case (Some j)
      with Cons.prems(1) [of x j] have "i < j \<or> x = mk" by simp
      with Some Cons.prems(2,3) show ?thesis by (auto simp: earliest_step_def split: if_splits)
    qed
  qed (rule Cons.prems(2))
  then show ?case by simp
qed simp

lemma earliest_SomeI:
  assumes "mk \<in> set ms" and "sfind (mk_start mk) s = Some i"
    and "\<And>x j. x \<in> set ms \<Longrightarrow> sfind (mk_start x) s = Some j \<Longrightarrow> i < j \<or> x = mk"
  shows "earliest_among ms s = Some (i, mk)"
  unfolding earliest_among_def
  by (rule earliest_fold_keeps) (use assms in auto)

lemma earliest_None: "earliest_among ms s = None \<longleftrightarrow> (\<forall>x \<in> set ms. sfind (mk_start x) s = None)"
proof -
  have "foldl (earliest_step s) best ms = None \<longleftrightarrow> best = None \<and> (\<forall>x \<in> set ms. sfind (mk_start x) s = None)" for best
    by (induction ms arbitrary: best) (auto simp: earliest_step_def split: option.splits if_splits)
  then show ?thesis by (simp add: earliest_among_def)
qed

lemma earliest_first:
  assumes "earliest_among ms s = Some (i, mk)" and "clean (mk_start ` set ms)"
    and "x \<in> set ms" and "prefix (mk_start x) (drop j s)" and "j \<le> length s"
  shows "i \<le> j"
proof -
  have "foldl (earliest_step s) best ys = Some (i, mk) \<Longrightarrow>
      (case best of None \<Rightarrow> True | Some (p, m) \<Rightarrow> i \<le> p) \<and> (\<forall>x \<in> set ys. \<forall>p. sfind (mk_start x) s = Some p \<longrightarrow> i \<le> p)"
    for best ys
  proof (induction ys arbitrary: best)
    case (Cons y ys)
    from Cons.IH [of "earliest_step s best y"] Cons.prems show ?case
      by (auto simp: earliest_step_def split: option.splits prod.splits if_splits)
  qed (auto split: option.splits)
  from this [of None ms] assms(1,3)
  have le: "sfind (mk_start x) s = Some p \<Longrightarrow> i \<le> p" for p by (simp add: earliest_among_def)
  show ?thesis
  proof (cases "sfind (mk_start x) s")
    case None
    from sfind_NoneD [OF this] assms(4) show ?thesis by blast
  next
    case (Some p)
    have "p \<le> j" using sfind_first [OF Some, of j] assms(4) by (meson not_le)
    with le [OF Some] show ?thesis by simp
  qed
qed

lemma earliest_append:
  assumes "earliest_among ms s = Some (i, mk)" and "clean (mk_start ` set ms)" and "inj_on mk_start (set ms)"
  shows "earliest_among ms (s @ t) = Some (i, mk)"
proof (rule earliest_SomeI)
  note hit = earliest_hit [OF assms(1)]
  show "mk \<in> set ms" by (rule hit(1))
  show at: "sfind (mk_start mk) (s @ t) = Some i" by (rule sfind_append [OF hit(2)])
  fix x j assume x: "x \<in> set ms" "sfind (mk_start x) (s @ t) = Some j"
  have px: "prefix (mk_start x) (drop j (s @ t))" "j + length (mk_start x) \<le> length (s @ t)"
    using sfind_SomeD [OF x(2)] by simp_all
  have pm: "prefix (mk_start mk) (drop i (s @ t))" using sfind_SomeD [OF at] by simp
  have ilen: "i \<le> length s" using sfind_SomeD [OF hit(2)] by simp
  show "i < j \<or> x = mk"
  proof (cases "i = j")
    case True
    then have "mk_start mk = mk_start x" using same_place [OF assms(2) _ _ pm] px(1) hit(1) x(1) by simp
    with assms(3) hit(1) x(1) show ?thesis by (auto dest: inj_onD)
  next
    case False
    show ?thesis
    proof (rule ccontr)
      assume "\<not> (i < j \<or> x = mk)"
      with False have ji: "j < i" by simp
      have "j + length (mk_start x) \<le> i"
        by (rule marker_inside [OF assms(2) _ _ pm px(1) ji]) (use hit(1) x(1) in auto)
      then have "length (mk_start x) \<le> length (drop j s)" and "j \<le> length s" using ilen by auto
      have "prefix (mk_start x) (drop j s @ t)" using px(1) \<open>j \<le> length s\<close> by simp
      then have "prefix (mk_start x) (drop j s)"
        by (rule prefix_length_prefix [OF _ prefixI [OF refl]]) fact
      with earliest_first [OF assms(1,2) x(1)] \<open>j \<le> length s\<close> ji show False by fastforce
    qed
  qed
qed

lemma earliest_shift:
  assumes "\<And>x. x \<in> set ms \<Longrightarrow> sfind (mk_start x) (u @ w) = map_option (\<lambda>i. length u + i) (sfind (mk_start x) w)"
  shows "earliest_among ms (u @ w) = map_option (\<lambda>(i, mk). (length u + i, mk)) (earliest_among ms w)"
proof -
  let ?f = "map_option (\<lambda>(i, mk). (length u + i, mk))"
  have "(\<And>x. x \<in> set ys \<Longrightarrow> sfind (mk_start x) (u @ w) = map_option (\<lambda>i. length u + i) (sfind (mk_start x) w)) \<Longrightarrow>
    foldl (earliest_step (u @ w)) (?f best) ys = ?f (foldl (earliest_step w) best ys)" for best ys
  proof (induction ys arbitrary: best)
    case (Cons y ys)
    have "earliest_step (u @ w) (?f best) y = ?f (earliest_step w best y)"
      using Cons.prems [of y] by (auto simp: earliest_step_def split: option.splits)
    with Cons show ?case by simp
  qed simp
  from this [of ms None] assms show ?thesis by (simp add: earliest_among_def)
qed

lemma straddle:
  assumes "holds_all (u @ h) M (length h)" and "m \<in> M" and "sfind m (u @ h) = None"
    and "prefix m (drop j (u @ h @ b))"
  shows "length u \<le> j"
proof (rule ccontr)
  let ?s = "u @ h"
  assume "\<not> length u \<le> j"
  then have j: "j < length u" by simp
  then have d: "drop j (u @ h @ b) = drop j ?s @ b" by simp
  show False
  proof (cases "length m \<le> length (drop j ?s)")
    case True
    with assms(4) d have "prefix m (drop j ?s)" by (metis prefixI prefix_length_prefix)
    with sfind_NoneD [OF assms(3)] show False by blast
  next
    case False
    let ?n = "length ?s - j"
    have "prefix (drop j ?s) m"
      using assms(4) False d by (metis nat_le_linear prefixI prefix_length_prefix)
    then have "drop j ?s = take ?n m" by (metis append_eq_conv_conj length_drop prefix_def)
    with False j have "held ?s m ?n" by (auto simp: held_def)
    with assms(1,2) have "?n \<le> length h" by (auto simp: holds_all_def)
    with j show False by simp
  qed
qed

lemma held_shift:
  assumes "holds_all (u @ h) M (length h)" and "m \<in> M"
  shows "held (u @ h @ b) m n \<longleftrightarrow> held (h @ b) m n"
proof (cases "n \<le> length (h @ b)")
  case True
  then have "length (u @ h @ b) - n = length u + (length (h @ b) - n)" by simp
  then have "drop (length (u @ h @ b) - n) (u @ h @ b) = drop (length (h @ b) - n) (h @ b)" by simp
  with True show ?thesis by (auto simp: held_def simp del: drop_append)
next
  case False
  have "\<not> held (u @ h @ b) m n"
  proof
    assume n: "held (u @ h @ b) m n"
    let ?k = "n - length b" and ?j = "length (u @ h @ b) - n"
    have len: "length b < n" "n \<le> length (u @ h @ b)" "n < length m" using False n by (auto simp: held_def)
    then have j: "?j = length (u @ h) - ?k" "?j \<le> length (u @ h)" by auto
    have "drop ?j (u @ h) @ b = take n m" using n j(2) by (simp add: held_def)
    moreover have "length (drop ?j (u @ h)) = ?k" using len by simp
    ultimately have "drop ?j (u @ h) = take ?k (take n m)" by (metis append_eq_conv_conj)
    then have "drop (length (u @ h) - ?k) (u @ h) = take ?k m" using j(1) by (simp add: min_def)
    then have "held (u @ h) m ?k" using len by (auto simp: held_def)
    with assms have "?k \<le> length h" by (auto simp: holds_all_def)
    with False show False by simp
  qed
  with False show ?thesis by (auto simp: held_def)
qed

lemma hold_suffix_shift:
  assumes "holds_all (u @ h) (set ms) (length h)"
  shows "hold_suffix (u @ h @ b) ms = hold_suffix (h @ b) ms"
  using hold_suffix_spec [of "h @ b" ms] held_shift [OF assms]
  by (intro hold_suffix_unique) (auto simp: holds_all_def)

end
