(* ===== verification/Response_Deltas.thy ===== *)
theory Response_Deltas
  imports Marker_Search
begin

text \<open>
  \<open>ResponsesDeltaFilter\<close> of \<open>responses.cpp\<close>: model output arrives in pieces and leaves as
  answer text and reasoning, without tool-call markup. A suffix of the text that may be the start
  of a marker is held back until more text decides. The filter is a chunk-independent transducer,
  and it takes a well-formed answer apart into its text and its reasoning.
\<close>

section \<open>The filter\<close>

record delta =
  d_reasoning :: string
  d_text :: string

definition no_delta :: delta where
  "no_delta = \<lparr> d_reasoning = [], d_text = [] \<rparr>"

definition add_delta :: "delta \<Rightarrow> delta \<Rightarrow> delta" where
  "add_delta a b = \<lparr> d_reasoning = d_reasoning a @ d_reasoning b, d_text = d_text a @ d_text b \<rparr>"

datatype filter_mode = Text_mode | Reasoning_mode | Tool_mode

record delta_filter =
  pending :: string
  tool_end :: string
  mode :: filter_mode

definition new_filter :: delta_filter where
  "new_filter = \<lparr> pending = [], tool_end = [], mode = Text_mode \<rparr>"

text \<open>One round of the loop of \<open>drain\<close>: what it appends, and whether the loop goes on.\<close>

datatype drain_round = Continue delta delta_filter | Break delta delta_filter

definition drain_step :: "bool \<Rightarrow> delta_filter \<Rightarrow> drain_round" where
  "drain_step flush f =
     (let p = pending f in
      case mode f of
        Text_mode \<Rightarrow>
          (case earliest_marker p of
             Some (pos, mk) \<Rightarrow>
               (let g = f\<lparr> pending := drop (pos + length (mk_start mk)) p \<rparr> in
                Continue \<lparr> d_reasoning = [], d_text = take pos p \<rparr>
                  (if mk_reasoning mk then g\<lparr> mode := Reasoning_mode \<rparr>
                   else g\<lparr> mode := Tool_mode, tool_end := mk_end mk \<rparr>))
           | None \<Rightarrow>
               (let n = length p - (if flush then 0 else hold_suffix p (map mk_start k_markers)) in
                Break \<lparr> d_reasoning = [], d_text = take n p \<rparr> (f\<lparr> pending := drop n p \<rparr>)))
      | Reasoning_mode \<Rightarrow>
          (case sfind k_think_end p of
             Some e \<Rightarrow>
               Continue \<lparr> d_reasoning = take e p, d_text = [] \<rparr>
                 (f\<lparr> pending := drop (e + length k_think_end) p, mode := Text_mode \<rparr>)
           | None \<Rightarrow>
               (let n = length p - (if flush then 0 else hold_suffix p [k_think_end]);
                    g = f\<lparr> pending := drop n p \<rparr> in
                Break \<lparr> d_reasoning = take n p, d_text = [] \<rparr> (if flush then g\<lparr> mode := Text_mode \<rparr> else g)))
      | Tool_mode \<Rightarrow>
          (if tool_end f = [] then
             (let g = f\<lparr> pending := [] \<rparr> in
              Break no_delta (if flush then g\<lparr> mode := Text_mode \<rparr> else g))
           else
             (case sfind (tool_end f) p of
                Some e \<Rightarrow>
                  Continue no_delta
                    (f\<lparr> pending := drop (e + length (tool_end f)) p, tool_end := [], mode := Text_mode \<rparr>)
              | None \<Rightarrow>
                  (let n = length p - (if flush then 0 else hold_suffix p [tool_end f]) in
                   Break no_delta
                     (if flush then f\<lparr> pending := [], tool_end := [], mode := Text_mode \<rparr>
                      else f\<lparr> pending := drop n p \<rparr>)))))"

lemma k_think_end_nonempty: "k_think_end \<noteq> []"
  by (simp add: k_think_end_def)

lemma earliest_marker_shorter:
  "earliest_marker s = Some (p, m) \<Longrightarrow> length (drop (p + length (mk_start m)) s) < length s"
  by (rule sfind_progress) (erule earliest_marker_hit)+

lemma drain_step_shorter:
  "drain_step flush f = Continue d g \<Longrightarrow> length (pending g) < length (pending f)"
  by (auto simp: drain_step_def Let_def k_think_end_nonempty earliest_marker_shorter sfind_progress
      simp del: length_drop split: filter_mode.splits option.splits prod.splits if_splits)

function drain :: "bool \<Rightarrow> delta_filter \<Rightarrow> delta \<times> delta_filter" where
  "drain flush f =
     (case drain_step flush f of
        Break d g \<Rightarrow> (d, g)
      | Continue d g \<Rightarrow> (let (e, h) = drain flush g in (add_delta d e, h)))"
  by pat_completeness auto
termination
  by (relation "measure (\<lambda>(flush, f). length (pending f))") (auto dest: drain_step_shorter)

declare drain.simps [simp del]

definition feed :: "delta_filter \<Rightarrow> string \<Rightarrow> delta \<times> delta_filter" where
  "feed f piece = drain False (f\<lparr> pending := pending f @ piece \<rparr>)"

definition filter_finish :: "delta_filter \<Rightarrow> delta \<times> delta_filter" where
  "filter_finish f = drain True f"

definition responses_visible_text :: "string \<Rightarrow> string" where
  "responses_visible_text raw =
     (let (head, f) = feed new_filter raw; (tail, g) = filter_finish f in d_text head @ d_text tail)"

section \<open>Cutting the stream\<close>

lemma add_no_delta [simp]: "add_delta no_delta d = d" "add_delta d no_delta = d"
  by (simp_all add: add_delta_def no_delta_def)

lemma add_delta_assoc: "add_delta (add_delta a b) c = add_delta a (add_delta b c)"
  by (simp add: add_delta_def)

lemma add_delta_id: "add_delta a b = a \<Longrightarrow> b = no_delta"
  by (cases a; cases b) (simp add: add_delta_def no_delta_def)

abbreviation more :: "delta_filter \<Rightarrow> string \<Rightarrow> delta_filter" where
  "more f b \<equiv> f\<lparr> pending := pending f @ b \<rparr>"

lemma markers_clean: "clean (mk_start ` set k_markers)"
  by (simp add: clean_def k_markers_def ds_begin_def ds_calls_begin_def ds_tag_def)

lemma markers_inj: "inj_on mk_start (set k_markers)"
  by (simp add: inj_on_def k_markers_def ds_begin_def ds_calls_begin_def ds_tag_def)

lemma marker_ends: "mk \<in> set k_markers \<Longrightarrow> mk_end mk = [] \<or> clean {mk_end mk}"
  by (auto simp: clean_def k_markers_def ds_end_def ds_calls_end_def ds_tag_def)

lemma think_end_clean: "clean {k_think_end}"
  by (simp add: clean_def k_think_end_def)

text \<open>A round that goes on goes on in the same way when more text has arrived.\<close>

lemma drain_step_more:
  assumes "drain_step False f = Continue d g"
  shows "drain_step flush (more f b) = Continue d (more g b)"
proof (cases "mode f")
  case Text_mode
  with assms obtain pos mk where hit: "earliest_marker (pending f) = Some (pos, mk)"
    by (auto simp: drain_step_def Let_def split: option.splits)
  then have "earliest_marker (pending f @ b) = Some (pos, mk)"
    unfolding earliest_marker_def by (rule earliest_append [OF _ markers_clean markers_inj])
  moreover have "pos + length (mk_start mk) \<le> length (pending f)"
    using sfind_SomeD [OF earliest_marker_hit(2) [OF hit]] by simp
  ultimately show ?thesis using assms Text_mode hit by (auto simp: drain_step_def Let_def)
next
  case Reasoning_mode
  with assms obtain e where e: "sfind k_think_end (pending f) = Some e"
    by (auto simp: drain_step_def Let_def split: option.splits)
  with sfind_append [OF e, of b] sfind_SomeD [OF e] assms Reasoning_mode show ?thesis
    by (auto simp: drain_step_def Let_def)
next
  case Tool_mode
  with assms obtain e where e: "sfind (tool_end f) (pending f) = Some e" "tool_end f \<noteq> []"
    by (auto simp: drain_step_def Let_def split: option.splits if_splits)
  with sfind_append [OF e(1), of b] sfind_SomeD [OF e(1)] assms Tool_mode show ?thesis
    by (auto simp: drain_step_def Let_def)
qed

text \<open>A round that ends without a flush has handed out all but what the next text may decide.\<close>

definition prepend :: "delta \<Rightarrow> drain_round \<Rightarrow> drain_round" where
  "prepend d r = (case r of Continue e h \<Rightarrow> Continue (add_delta d e) h | Break e h \<Rightarrow> Break (add_delta d e) h)"

lemma held_split:
  obtains u h where "p = u @ h" and "holds_all (u @ h) (set ms) (length h)"
    and "take (length p - hold_suffix p ms) p = u" and "drop (length p - hold_suffix p ms) p = h"
proof
  let ?n = "length p - hold_suffix p ms"
  show "p = take ?n p @ drop ?n p" by simp
  show "holds_all (take ?n p @ drop ?n p) (set ms) (length (drop ?n p))"
    using hold_suffix_spec(1) [of p ms] hold_suffix_le [of p ms] by simp
qed simp_all

lemma drain_step_break:
  assumes "drain_step False f = Break d g"
  shows "drain_step flush (more f b) = prepend d (drain_step flush (more g b))"
proof (cases "mode f")
  case Text_mode
  let ?ms = "map mk_start k_markers"
  obtain u h where split: "pending f = u @ h" "holds_all (u @ h) (set ?ms) (length h)"
    "take (length (pending f) - hold_suffix (pending f) ?ms) (pending f) = u"
    "drop (length (pending f) - hold_suffix (pending f) ?ms) (pending f) = h"
    by (rule held_split)
  from Text_mode assms have "earliest_marker (pending f) = None"
    by (simp add: drain_step_def Let_def split: option.splits prod.splits)
  moreover from this Text_mode assms
  have dg: "d = \<lparr> d_reasoning = [], d_text = u \<rparr>" "g = f\<lparr> pending := h \<rparr>"
    unfolding split(3,4) [symmetric] by (simp_all add: drain_step_def Let_def)
  ultimately have none: "earliest_marker (u @ h) = None" by (simp add: split(1))
  have shift: "earliest_marker (u @ h @ b) = map_option (\<lambda>(i, mk). (length u + i, mk)) (earliest_marker (h @ b))"
    unfolding earliest_marker_def
  proof (rule earliest_shift)
    fix mk assume mk: "mk \<in> set k_markers"
    with none have no: "sfind (mk_start mk) (u @ h) = None" by (simp add: earliest_marker_def earliest_None)
    have "length u \<le> j" if "prefix (mk_start mk) (drop j (u @ h @ b))" for j
      by (rule straddle [OF split(2) _ no that]) (use mk in simp)
    then show "sfind (mk_start mk) (u @ h @ b) = map_option (\<lambda>i. length u + i) (sfind (mk_start mk) (h @ b))"
      by (rule sfind_shift)
  qed
  show ?thesis
    using shift hold_suffix_shift [OF split(2), of b] hold_suffix_le [of "h @ b" ?ms] Text_mode
    by (auto simp: drain_step_def Let_def split(1) dg prepend_def add_delta_def split: option.splits)
next
  case Reasoning_mode
  let ?ms = "[k_think_end]"
  obtain u h where split: "pending f = u @ h" "holds_all (u @ h) (set ?ms) (length h)"
    "take (length (pending f) - hold_suffix (pending f) ?ms) (pending f) = u"
    "drop (length (pending f) - hold_suffix (pending f) ?ms) (pending f) = h"
    by (rule held_split)
  from Reasoning_mode assms have "sfind k_think_end (pending f) = None"
    by (simp add: drain_step_def Let_def split: option.splits)
  moreover from this Reasoning_mode assms
  have dg: "d = \<lparr> d_reasoning = u, d_text = [] \<rparr>" "g = f\<lparr> pending := h \<rparr>"
    unfolding split(3,4) [symmetric] by (simp_all add: drain_step_def Let_def)
  ultimately have none: "sfind k_think_end (u @ h) = None" by (simp add: split(1))
  have shift: "sfind k_think_end (u @ h @ b) = map_option (\<lambda>i. length u + i) (sfind k_think_end (h @ b))"
    by (rule sfind_shift, rule straddle [OF split(2) _ none]) simp_all
  show ?thesis
    using shift hold_suffix_shift [OF split(2), of b] hold_suffix_le [of "h @ b" ?ms] Reasoning_mode
    by (auto simp: drain_step_def Let_def split(1) dg prepend_def add_delta_def split: option.splits)
next
  case Tool_mode
  let ?ms = "[tool_end f]"
  show ?thesis
  proof (cases "tool_end f = []")
    case True
    with Tool_mode assms show ?thesis by (auto simp: drain_step_def Let_def prepend_def)
  next
    case False
    obtain u h where split: "pending f = u @ h" "holds_all (u @ h) (set ?ms) (length h)"
      "take (length (pending f) - hold_suffix (pending f) ?ms) (pending f) = u"
      "drop (length (pending f) - hold_suffix (pending f) ?ms) (pending f) = h"
      by (rule held_split)
    from Tool_mode False assms have "sfind (tool_end f) (pending f) = None"
      by (simp add: drain_step_def Let_def split: option.splits)
    moreover from this Tool_mode False assms
    have dg: "d = no_delta" "g = f\<lparr> pending := h \<rparr>"
      unfolding split(4) [symmetric] by (simp_all add: drain_step_def Let_def)
    ultimately have none: "sfind (tool_end f) (u @ h) = None" by (simp add: split(1))
    have shift: "sfind (tool_end f) (u @ h @ b) = map_option (\<lambda>i. length u + i) (sfind (tool_end f) (h @ b))"
      by (rule sfind_shift, rule straddle [OF split(2) _ none]) simp_all
    show ?thesis
      using shift hold_suffix_shift [OF split(2), of b] hold_suffix_le [of "h @ b" ?ms] Tool_mode False
      by (auto simp: drain_step_def Let_def split(1) dg prepend_def split: option.splits)
  qed
qed

lemma drain_prepend:
  "drain_step flush f = prepend d (drain_step flush g) \<Longrightarrow>
   drain flush f = (add_delta d (fst (drain flush g)), snd (drain flush g))"
  by (simp add: drain.simps [of flush f] drain.simps [of flush g] prepend_def add_delta_assoc Let_def
      split: drain_round.splits prod.splits)

lemma drain_more:
  "drain False f = (d, g) \<Longrightarrow>
   drain flush (more f b) = (add_delta d (fst (drain flush (more g b))), snd (drain flush (more g b)))"
proof (induction "length (pending f)" arbitrary: f d rule: less_induct)
  case less
  show ?case
  proof (cases "drain_step False f")
    case (Break e h)
    with less.prems have "e = d" "h = g" by (simp_all add: drain.simps [of False f])
    with drain_step_break [OF Break] show ?thesis by (simp add: drain_prepend)
  next
    case (Continue e h)
    with less.prems obtain e' where h: "drain False h = (e', g)" "d = add_delta e e'"
      by (auto simp: drain.simps [of False f] Let_def split: prod.splits)
    from less.hyps [OF drain_step_shorter [OF Continue] h(1)] drain_step_more [OF Continue, of flush b]
    show ?thesis by (simp add: drain.simps [of flush "more f b"] h(2) add_delta_assoc)
  qed
qed

text \<open>Between two pieces nothing is left that could be handed out.\<close>

definition settled :: "delta_filter \<Rightarrow> bool" where
  "settled f \<longleftrightarrow> drain False f = (no_delta, f)"

lemma drain_settles: "drain False f = (d, g) \<Longrightarrow> settled g"
  using drain_more [of f d g False "[]"]
  by (cases "drain False g") (auto simp: settled_def dest: sym [THEN add_delta_id] add_delta_id)

interpretation deltas: chunked_transducer feed no_delta add_delta settled
proof
  fix f a b d1 d2 f1 f2
  assume s: "settled f"
  then show "feed f [] = (no_delta, f)" by (simp add: feed_def settled_def)
  assume a: "feed f a = (d1, f1)"
  then show "settled f1" by (auto simp: feed_def dest: drain_settles)
  assume b: "feed f1 b = (d2, f2)"
  show "feed f (a @ b) = (add_delta d1 d2, f2)"
    using drain_more [of "more f a" d1 f1 False b] a b by (simp add: feed_def)
qed (simp_all add: add_delta_assoc)

lemma new_filter_settled: "settled new_filter"
  unfolding settled_def by code_simp

text \<open>The deltas of a whole stream, and what is left at its end.\<close>

definition stream_deltas :: "string list \<Rightarrow> delta \<times> delta_filter" where
  "stream_deltas pieces =
     (let (ds, f) = run_stream feed new_filter pieces; (d, g) = filter_finish f
      in (add_delta (foldr add_delta ds no_delta) d, g))"

lemma stream_deltas_once: "stream_deltas pieces = drain True (more new_filter (concat pieces))"
proof -
  obtain ds f where run: "run_stream feed new_filter pieces = (ds, f)" by fastforce
  from deltas.run_chunks [OF new_filter_settled run]
  have "drain False (more new_filter (concat pieces)) = (foldr add_delta ds no_delta, f)" by (simp add: feed_def)
  from drain_more [OF this, of True "[]"] run show ?thesis
    by (simp add: stream_deltas_def filter_finish_def split: prod.splits)
qed

text \<open>
  C19. How the model's output is cut into pieces does not matter: two streams with the same text give
  the same reasoning, the same answer text and the same state of the filter, and the answer text is
  what \<open>responses_visible_text\<close> finds in the whole text.
\<close>

theorem deltas_do_not_depend_on_chunks:
  assumes "concat pieces = concat pieces'"
  shows "stream_deltas pieces = stream_deltas pieces' \<and>
    d_text (fst (stream_deltas pieces)) = responses_visible_text (concat pieces')"
proof -
  have "responses_visible_text (concat pieces') = d_text (fst (stream_deltas [concat pieces']))"
    by (simp add: responses_visible_text_def stream_deltas_def add_delta_def no_delta_def split: prod.splits)
  with assms show ?thesis by (simp add: stream_deltas_once)
qed

theorem deltas_do_not_depend_on_chunks_witness:
  "stream_deltas [''a<thi'', ''nk>b</think'', ''>c''] = stream_deltas [''a<think>b</think>c''] \<and>
   d_text (fst (stream_deltas [''a<thi'', ''nk>b</think'', ''>c''])) = responses_visible_text (concat [''a<think>b</think>c''])"
  by (rule deltas_do_not_depend_on_chunks) simp

section \<open>Well-formed answers\<close>

datatype answer_block = Thinking string | Tool_markup marker string

fun render_block :: "answer_block \<Rightarrow> string" where
  "render_block (Thinking r) = ''<think>'' @ r @ k_think_end"
| "render_block (Tool_markup mk body) = mk_start mk @ body @ mk_end mk"

fun block_ok :: "answer_block \<Rightarrow> bool" where
  "block_ok (Thinking r) \<longleftrightarrow> sfind k_think_end r = None"
| "block_ok (Tool_markup mk body) \<longleftrightarrow>
     mk \<in> set k_markers \<and> \<not> mk_reasoning mk \<and> mk_end mk \<noteq> [] \<and> sfind (mk_end mk) body = None"

definition plain :: "string \<Rightarrow> bool" where
  "plain t \<longleftrightarrow> list_all (\<lambda>mk. sfind (mk_start mk) t = None) k_markers"

fun render_answer :: "string \<Rightarrow> (answer_block \<times> string) list \<Rightarrow> string" where
  "render_answer t [] = t"
| "render_answer t ((b, t') # rest) = t @ render_block b @ render_answer t' rest"

definition block_thought :: "answer_block \<Rightarrow> string" where
  "block_thought b = (case b of Thinking r \<Rightarrow> r | Tool_markup mk body \<Rightarrow> [])"

lemma marker_found:
  assumes "mk \<in> set k_markers" and "plain t"
  shows "earliest_marker (t @ mk_start mk @ w) = Some (length t, mk)"
  unfolding earliest_marker_def
proof (rule earliest_SomeI [OF assms(1)])
  let ?s = "t @ mk_start mk @ w"
  have at: "prefix (mk_start mk) (drop (length t) ?s)" by simp
  have inside: "length t \<le> j" if x: "x \<in> set k_markers" "prefix (mk_start x) (drop j ?s)" for x j
  proof (rule ccontr)
    assume "\<not> length t \<le> j"
    then have j: "j < length t" by simp
    have "j + length (mk_start x) \<le> length t"
      by (rule marker_inside [OF markers_clean _ _ at x(2) j]) (use assms(1) x(1) in auto)
    then have "length (mk_start x) \<le> length (drop j t)" using j by simp
    moreover have "prefix (mk_start x) (drop j t @ mk_start mk @ w)" using x(2) j by simp
    ultimately have "prefix (mk_start x) (drop j t)" by (meson prefixI prefix_length_prefix)
    moreover have "sfind (mk_start x) t = None" using assms(2) x(1) by (simp add: plain_def list_all_iff)
    ultimately show False using sfind_NoneD by blast
  qed
  show "sfind (mk_start mk) ?s = Some (length t)"
  proof (rule sfind_SomeI [OF at])
    show "\<not> prefix (mk_start mk) (drop j ?s)" if "j < length t" for j
      using inside [OF assms(1)] that leD by blast
  qed simp
  show "length t < j \<or> x = mk" if "x \<in> set k_markers" "sfind (mk_start x) ?s = Some j" for x j
  proof (cases "j = length t")
    case True
    have "prefix (mk_start x) (drop (length t) ?s)" using sfind_SomeD [OF that(2)] True by blast
    from same_place [OF markers_clean _ _ at this] assms(1) that(1) have "mk_start mk = mk_start x" by simp
    with assms(1) that(1) markers_inj show ?thesis by (auto dest: inj_onD)
  next
    case False
    have "length t \<le> j" by (rule inside [OF that(1) conjunct1 [OF sfind_SomeD [OF that(2)]]])
    with False show ?thesis by simp
  qed
qed

lemma end_found:
  assumes "clean {e}" and "sfind e body = None"
  shows "sfind e (body @ e @ w) = Some (length body)"
proof -
  obtain c p where "e = c # p" and "c \<notin> set p" using assms(1) by (cases e) (auto simp: clean_def)
  with assms(2) show ?thesis using sfind_put by metis
qed

lemma k_think_marker: "\<lparr> mk_start = ''<think>'', mk_end = k_think_end, mk_reasoning = True \<rparr> \<in> set k_markers"
  by (simp add: k_markers_def k_think_end_def)

lemma drain_block:
  assumes "plain t" and "block_ok b"
  shows "drain True (more new_filter (t @ render_block b @ w)) =
    (add_delta \<lparr> d_reasoning = block_thought b, d_text = t \<rparr> (fst (drain True (more new_filter w))),
     snd (drain True (more new_filter w)))"
proof (cases b)
  case (Thinking r)
  let ?mk = "\<lparr> mk_start = ''<think>'', mk_end = k_think_end, mk_reasoning = True \<rparr>"
  have "earliest_marker (t @ ''<think>'' @ r @ k_think_end @ w) = Some (length t, ?mk)"
    using marker_found [OF k_think_marker assms(1)] by simp
  then have 1: "drain_step True (more new_filter (t @ render_block b @ w)) =
      Continue \<lparr> d_reasoning = [], d_text = t \<rparr>
        (new_filter\<lparr> pending := r @ k_think_end @ w, mode := Reasoning_mode \<rparr>)"
    by (simp add: Thinking drain_step_def new_filter_def Let_def)
  have "sfind k_think_end (r @ k_think_end @ w) = Some (length r)"
    using assms(2) Thinking by (intro end_found [OF think_end_clean]) simp
  then have 2: "drain_step True (new_filter\<lparr> pending := r @ k_think_end @ w, mode := Reasoning_mode \<rparr>) =
      Continue \<lparr> d_reasoning = r, d_text = [] \<rparr> (more new_filter w)"
    by (simp add: drain_step_def new_filter_def Let_def)
  show ?thesis
    by (subst drain.simps, subst 1, simp, subst drain.simps, subst 2)
      (simp add: Thinking block_thought_def add_delta_def split: prod.splits)
next
  case (Tool_markup mk body)
  with assms(2) have mk: "mk \<in> set k_markers" "\<not> mk_reasoning mk" "mk_end mk \<noteq> []" "sfind (mk_end mk) body = None"
    by simp_all
  then have 1: "drain_step True (more new_filter (t @ render_block b @ w)) =
      Continue \<lparr> d_reasoning = [], d_text = t \<rparr>
        \<lparr> pending = body @ mk_end mk @ w, tool_end = mk_end mk, mode = Tool_mode \<rparr>"
    using marker_found [OF mk(1) assms(1), of "body @ mk_end mk @ w"]
    by (simp add: Tool_markup drain_step_def new_filter_def Let_def)
  have "sfind (mk_end mk) (body @ mk_end mk @ w) = Some (length body)"
    using marker_ends [OF mk(1)] mk(3,4) by (intro end_found) auto
  then have 2: "drain_step True \<lparr> pending = body @ mk_end mk @ w, tool_end = mk_end mk, mode = Tool_mode \<rparr> =
      Continue no_delta (more new_filter w)"
    using mk(3) by (simp add: drain_step_def new_filter_def Let_def)
  show ?thesis
    by (subst drain.simps, subst 1, simp, subst drain.simps, subst 2)
      (simp add: Tool_markup block_thought_def add_delta_def no_delta_def split: prod.splits)
qed

lemma drain_plain:
  assumes "plain t"
  shows "drain True (more new_filter t) = (\<lparr> d_reasoning = [], d_text = t \<rparr>, new_filter)"
proof -
  have "earliest_marker t = None"
    using assms by (simp add: earliest_marker_def earliest_None plain_def list_all_iff)
  then show ?thesis by (simp add: drain.simps drain_step_def new_filter_def)
qed

lemma drain_answer:
  "list_all (block_ok \<circ> fst) rest \<Longrightarrow> list_all plain (t # map snd rest) \<Longrightarrow>
   drain True (more new_filter (render_answer t rest)) =
     (\<lparr> d_reasoning = concat (map (block_thought \<circ> fst) rest), d_text = concat (t # map snd rest) \<rparr>, new_filter)"
proof (induction t rest rule: render_answer.induct)
  case (1 t)
  then show ?case using drain_plain [of t] by simp
next
  case (2 t b t' rest)
  then have "block_ok b" "plain t" by simp_all
  from drain_block [OF this(2,1), of "render_answer t' rest"] 2 show ?case by (simp add: add_delta_def)
qed

text \<open>
  C18. A well-formed answer comes apart: of text that holds no marker, thinking blocks and tool-call
  markup in any order, streamed in any pieces, the client receives the texts as answer text, the
  thoughts as reasoning and nothing of the markup, and the filter is ready for a new answer.
\<close>

theorem streamed_answer_comes_apart:
  assumes "concat pieces = render_answer t rest"
    and "list_all (block_ok \<circ> fst) rest" and "list_all plain (t # map snd rest)"
  shows "stream_deltas pieces =
    (\<lparr> d_reasoning = concat (map (block_thought \<circ> fst) rest), d_text = concat (t # map snd rest) \<rparr>, new_filter)"
  unfolding stream_deltas_once assms(1) by (rule drain_answer [OF assms(2,3)])

theorem streamed_answer_comes_apart_witness:
  "stream_deltas [''Hi <th'', ''ink>why?</thi'', ''nk>there<tool_ca'', ''ll>{}</tool_call>!''] =
    (\<lparr> d_reasoning = ''why?'', d_text = ''Hi there!'' \<rparr>, new_filter)"
proof -
  let ?rest = "[(Thinking ''why?'', ''there''), (Tool_markup (k_markers ! 2) ''{}'', ''!'')]"
  have "concat [''Hi <th'', ''ink>why?</thi'', ''nk>there<tool_ca'', ''ll>{}</tool_call>!''] =
      render_answer ''Hi '' ?rest" by code_simp
  moreover have "list_all (block_ok \<circ> fst) ?rest" "list_all plain (''Hi '' # map snd ?rest)" by code_simp+
  ultimately show ?thesis
    using streamed_answer_comes_apart [of _ "''Hi ''" ?rest] by (simp add: block_thought_def)
qed

end
