(* ===== verification/Response_Items.thy ===== *)
theory Response_Items
  imports Response_Turn Response_Parse Response_Deltas
begin

text \<open>
  What the Responses API answers (\<open>responses.cpp\<close>): the ids of a response, the names and ids under
  which tool calls are sent, the output items, the terminal events, the frames of the event stream,
  the public model id, and the check of the bearer key.
\<close>

section \<open>Ids and names\<close>

text \<open>The counter behind the ids is a state; \<open>ResponseIds::make\<close> takes three numbers in a row.\<close>

definition next_id :: "string \<Rightarrow> nat \<Rightarrow> string \<times> nat" where
  "next_id p n = (p @ decimal n, Suc n)"

record response_ids =
  id_response :: string
  id_reasoning :: string
  id_message :: string

definition make_ids :: "nat \<Rightarrow> response_ids \<times> nat" where
  "make_ids n =
     (let (a, n) = next_id ''resp_'' n; (b, n) = next_id ''rs_'' n; (c, n) = next_id ''msg_'' n
      in (\<lparr> id_response = a, id_reasoning = b, id_message = c \<rparr>, n))"

definition arguments_text :: "('j, 'z) json_api_scheme \<Rightarrow> 'j \<Rightarrow> string" where
  "arguments_text js args =
     (case j_string_of js args of
        Some s \<Rightarrow> s
      | None \<Rightarrow> if j_is_empty js args then ''{}'' else j_dump js args)"

definition response_call_id :: "'j parsed_tool_call \<Rightarrow> nat \<Rightarrow> string" where
  "response_call_id call index =
     (if tc_id call = [] then ''call_'' @ decimal (index + 1)
      else if prefix ''call_'' (tc_id call) then tc_id call
      else ''call_'' @ tc_id call)"

record emitted_name =
  en_name :: string
  en_ns :: string

definition best_namespace :: "string \<Rightarrow> string list \<Rightarrow> emitted_name" where
  "best_namespace raw namespaces = fst
     (foldl (\<lambda>(best, best_len) ns.
        let p = ns @ ''.'' in
        if ns \<noteq> [] \<and> length p < length raw \<and> prefix p raw \<and> best_len < length p
        then (\<lparr> en_name = drop (length p) raw, en_ns = ns \<rparr>, length p)
        else (best, best_len)) (\<lparr> en_name = raw, en_ns = [] \<rparr>, 0) namespaces)"

text \<open>\<open>name.rfind('.')\<close>: what stands before and after the last dot.\<close>

definition split_last_dot :: "string \<Rightarrow> (string \<times> string) option" where
  "split_last_dot name =
     (let member = rev (takeWhile (\<lambda>c. c \<noteq> CHR ''.'') (rev name)) in
      if CHR ''.'' \<in> set name then Some (take (length name - Suc (length member)) name, member) else None)"

definition declaring_namespaces :: "string \<Rightarrow> string list \<Rightarrow> chat_tool list \<Rightarrow> string list" where
  "declaring_namespaces raw namespaces tools =
     concat (map (\<lambda>t. case split_last_dot (tool_spec_name t) of
                        None \<Rightarrow> []
                      | Some (ns, member) \<Rightarrow> if member = raw \<and> ns \<in> set namespaces then [ns] else []) tools)"

definition emitted_tool_name :: "string \<Rightarrow> string list \<Rightarrow> chat_tool list \<Rightarrow> emitted_name" where
  "emitted_tool_name raw namespaces tools =
     (let best = best_namespace raw namespaces in
      if en_ns best \<noteq> [] \<or> CHR ''.'' \<in> set raw then best
      else case declaring_namespaces raw namespaces tools of
             [found] \<Rightarrow> \<lparr> en_name = raw, en_ns = found \<rparr>
           | _ \<Rightarrow> best)"

section \<open>Output\<close>

datatype result_status = Completed | Failed | Interrupted

record 'j responses_result =
  res_status :: result_status
  res_reasoning :: string
  res_text :: string
  res_calls :: "'j parsed_tool_call list"
  res_error :: string
  res_error_code :: string
  res_namespaces :: "string list"
  res_tools :: "chat_tool list"

definition new_result :: "'j responses_result" where
  "new_result = \<lparr> res_status = Completed, res_reasoning = [], res_text = [], res_calls = [], res_error = [],
     res_error_code = [], res_namespaces = [], res_tools = [] \<rparr>"

definition text_content :: "('j, 'z) json_api_scheme \<Rightarrow> string \<Rightarrow> string \<Rightarrow> 'j" where
  "text_content js type txt = j_array js [j_object js [(''type'', j_string js type), (''text'', j_string js txt)]]"

definition reasoning_output :: "('j, 'z) json_api_scheme \<Rightarrow> response_ids \<Rightarrow> string \<Rightarrow> 'j" where
  "reasoning_output js ids txt =
     j_object js [(''id'', j_string js (id_reasoning ids)), (''type'', j_string js ''reasoning''),
       (''status'', j_string js ''completed''), (''summary'', j_array js []), (''encrypted_content'', j_string js []),
       (''content'', text_content js ''reasoning_text'' txt)]"

definition message_output :: "('j, 'z) json_api_scheme \<Rightarrow> response_ids \<Rightarrow> string \<Rightarrow> 'j" where
  "message_output js ids txt =
     j_object js [(''id'', j_string js (id_message ids)), (''type'', j_string js ''message''),
       (''status'', j_string js ''completed''), (''role'', j_string js ''assistant''),
       (''content'', text_content js ''output_text'' txt)]"

definition call_output :: "('j, 'z) json_api_scheme \<Rightarrow> string list \<Rightarrow> chat_tool list \<Rightarrow> nat \<times> 'j parsed_tool_call \<Rightarrow> 'j" where
  "call_output js namespaces tools = (\<lambda>(i, call).
     (let call_id = response_call_id call i;
          emitted = emitted_tool_name (tc_name call) namespaces tools
      in j_object js
           ([(''id'', j_string js (''fc_'' @ call_id)), (''type'', j_string js ''function_call''),
             (''status'', j_string js ''completed''), (''name'', j_string js (en_name emitted)),
             (''arguments'', j_string js (arguments_text js (tc_arguments call))), (''call_id'', j_string js call_id)] @
            (if en_ns emitted = [] then [] else [(''namespace'', j_string js (en_ns emitted))]))))"

definition response_output_items :: "('j, 'z) json_api_scheme \<Rightarrow> response_ids \<Rightarrow> 'j responses_result \<Rightarrow> 'j list" where
  "response_output_items js ids result =
     (if res_reasoning result = [] then [] else [reasoning_output js ids (res_reasoning result)]) @
     (if res_text result \<noteq> [] \<or> res_calls result = [] then [message_output js ids (res_text result)] else []) @
     map (call_output js (res_namespaces result) (res_tools result)) (enumerate 0 (res_calls result))"

text \<open>The events of one output item, the \<open>index\<close>-th. A reader throws where a member has another type.\<close>

definition item_events :: "('j, 'z) json_api_scheme \<Rightarrow> nat \<times> 'j \<Rightarrow> request_error + 'j list" where
  "item_events js = (\<lambda>(index, item).
     (let typed = (\<lambda>type ms. j_object js ((''type'', j_string js type) # ms));
          finished = typed ''response.output_item.done'' [(''item'', item)]
      in then_do (j_value js (j_string_of js) ''type'' [] item) (\<lambda>type.
         if type \<noteq> ''function_call'' then Inr [finished]
         else
           then_do (j_value js (j_string_of js) ''arguments'' [] item) (\<lambda>arguments.
           then_do (j_value js (j_string_of js) ''id'' [] item) (\<lambda>id.
           then_do (j_value js (j_string_of js) ''call_id'' [] item) (\<lambda>call_id.
             (let place = [(''item_id'', j_string js id), (''call_id'', j_string js call_id),
                           (''output_index'', j_int js (int index))]
              in Inr
                [typed ''response.output_item.added''
                   [(''item'', j_set js ''arguments'' (j_string js [])
                                (j_set js ''status'' (j_string js ''in_progress'') item))],
                 typed ''response.function_call_arguments.delta'' (place @ [(''delta'', j_string js arguments)]),
                 typed ''response.function_call_arguments.done'' (place @ [(''arguments'', j_string js arguments)]),
                 finished])))))))"

definition closing_event ::
  "('j, 'z) json_api_scheme \<Rightarrow> response_ids \<Rightarrow> string \<Rightarrow> string \<Rightarrow> string \<Rightarrow> (string \<times> 'j) list \<Rightarrow> 'j" where
  "closing_event js ids model type status extra =
     j_object js [(''type'', j_string js type),
       (''response'', j_object js
          ([(''id'', j_string js (id_response ids)), (''object'', j_string js ''response''),
            (''status'', j_string js status), (''model'', j_string js model)] @ extra))]"

definition response_terminal_events ::
  "('j, 'z) json_api_scheme \<Rightarrow> response_ids \<Rightarrow> string \<Rightarrow> 'j responses_result \<Rightarrow> request_error + 'j list" where
  "response_terminal_events js ids model result =
     (case res_status result of
        Failed \<Rightarrow>
          Inr [closing_event js ids model ''response.failed'' ''failed''
                 [(''error'', j_object js [(''message'', j_string js (res_error result)),
                                           (''code'', j_string js (res_error_code result))])]]
      | Interrupted \<Rightarrow>
          Inr [closing_event js ids model ''response.incomplete'' ''incomplete''
                 [(''incomplete_details'', j_object js [(''reason'', j_string js ''interrupted'')])]]
      | Completed \<Rightarrow>
          (let output = response_output_items js ids result in
           then_do (map_err (item_events js) (enumerate 0 output)) (\<lambda>events.
             Inr (concat events @
               [closing_event js ids model ''response.completed'' ''completed'' [(''output'', j_array js output)]]))))"

definition sse_frame :: "('j, 'z) json_api_scheme \<Rightarrow> 'j \<Rightarrow> request_error + string" where
  "sse_frame js v =
     then_do (j_value js (j_string_of js) ''type'' [] v) (\<lambda>type.
       Inr (''event: '' @ type @ [CHR 0x0A] @ ''data: '' @ j_dump js v @ [CHR 0x0A, CHR 0x0A]))"

definition public_model_id :: "string \<Rightarrow> string" where
  "public_model_id model_path =
     (let name = rev (takeWhile (\<lambda>c. c \<noteq> CHR ''/'' \<and> c \<noteq> CHR 0x5C) (rev model_path));
          name = (if length ''.gguf'' < length name \<and> suffix ''.gguf'' name
                  then take (length name - length ''.gguf'') name else name)
      in if name = [] then ''local'' else name)"

section \<open>The bearer key\<close>

definition padded_byte :: "string \<Rightarrow> nat \<Rightarrow> byte" where
  "padded_byte s i = (if i < length s then of_char (s ! i) else 0)"

definition same_key :: "string \<Rightarrow> string \<Rightarrow> bool" where
  "same_key expected provided \<longleftrightarrow>
     foldl (\<lambda>diff i. diff OR (padded_byte expected i XOR padded_byte provided i))
       (word_of_nat (length expected XOR length provided)) [0 ..< max (length expected) (length provided)] = 0"

definition k_bearer :: string where
  "k_bearer = ''bearer ''"

definition authorization_matches :: "string \<Rightarrow> string \<Rightarrow> bool" where
  "authorization_matches expected_key header \<longleftrightarrow>
     expected_key \<noteq> [] \<and>
     length k_bearer \<le> length header \<and>
     list_all2 (\<lambda>c k. to_lower c = k) (take (length k_bearer) header) k_bearer \<and>
     same_key expected_key (drop (length k_bearer) header)"

section \<open>Names come back\<close>

lemma namespace_prefix_unique:
  assumes "CHR ''.'' \<notin> set ns" and "CHR ''.'' \<notin> set ns'" and "prefix (ns' @ ''.'') (ns @ ''.'' @ m)"
  shows "ns' = ns"
proof -
  from assms(3) obtain r where "ns @ CHR ''.'' # m = ns' @ CHR ''.'' # r" by (auto simp: prefix_def)
  with takeWhile_before [OF assms(1), of m] takeWhile_before [OF assms(2), of r] show ?thesis by simp
qed

lemma best_namespace_declared:
  assumes "good_namespaces nss" and "ns \<in> set nss" and "m \<noteq> []"
  shows "best_namespace (ns @ ''.'' @ m) nss = \<lparr> en_name = m, en_ns = ns \<rparr>"
proof -
  let ?raw = "ns @ ''.'' @ m"
  define f where "f = (\<lambda>(best, best_len) ns'.
        let p = ns' @ ''.'' in
        if ns' \<noteq> [] \<and> length p < length ?raw \<and> prefix p ?raw \<and> best_len < length p
        then (\<lparr> en_name = drop (length p) ?raw, en_ns = ns' \<rparr>, length p)
        else (best, best_len))"
  let ?hit = "(\<lparr> en_name = m, en_ns = ns \<rparr>, Suc (length ns))"
  have ns: "ns \<noteq> []" "CHR ''.'' \<notin> set ns" using assms(1,2) by (auto simp: good_namespaces_def)
  have keep: "f (b, l) x = (b, l)" if "x \<in> set nss" "x \<noteq> ns" for b l x
    using namespace_prefix_unique [OF ns(2), of x m] that assms(1) by (auto simp: f_def good_namespaces_def Let_def)
  have stay: "f ?hit ns = ?hit" by (simp add: f_def Let_def)
  have hit: "f (b, 0) ns = ?hit" for b using ns assms(3) by (simp add: f_def Let_def)
  have rest: "set xs \<subseteq> set nss \<Longrightarrow> foldl f ?hit xs = ?hit" for xs
  proof (induction xs)
    case (Cons x xs)
    then show ?case using keep [of x] stay by (cases "x = ns") simp_all
  qed simp
  have "set xs \<subseteq> set nss \<Longrightarrow> ns \<in> set xs \<Longrightarrow> foldl f (b, 0) xs = ?hit" for xs b
  proof (induction xs)
    case (Cons x xs)
    then show ?case using keep [of x b 0] hit [of b] rest [of xs] by (cases "x = ns") simp_all
  qed simp
  with assms(2) have "foldl f (\<lparr> en_name = ?raw, en_ns = [] \<rparr>, 0) nss = ?hit" by simp
  then show ?thesis unfolding best_namespace_def f_def [symmetric] by simp
qed

text \<open>
  A tool of a declared namespace keeps its name through a round trip: the qualified name under which
  the model knows it is sent to the client as member and namespace, and when the client sends the call
  back with that namespace it gets the same qualified name.
\<close>

theorem qualified_name_comes_back:
  assumes "good_namespaces nss" and "ns \<in> set nss" and "m \<noteq> []" and "CHR ''.'' \<notin> set m"
    and "string_field js item ''namespace'' = ns"
  shows "emitted_tool_name (ns @ ''.'' @ m) nss tools = \<lparr> en_name = m, en_ns = ns \<rparr> \<and>
    qualify_tool_name js item m = Inr (ns @ ''.'' @ m)"
proof -
  have ns: "ns \<noteq> []" "CHR ''.'' \<notin> set ns" using assms(1,2) by (auto simp: good_namespaces_def)
  have "\<not> prefix (ns @ ''.'') m" using assms(4) by (auto dest!: set_mono_prefix)
  then have "qualify_tool_name js item m = Inr (ns @ ''.'' @ m)"
    using ns assms(3,5) by (simp add: qualify_tool_name_def)
  with best_namespace_declared [OF assms(1-3)] ns(1) show ?thesis by (simp add: emitted_tool_name_def)
qed

theorem qualified_name_comes_back_witness:
  "emitted_tool_name ''fs.read'' [''web'', ''fs''] [] = \<lparr> en_name = ''read'', en_ns = ''fs'' \<rparr> \<and>
   qualify_tool_name tree_json (J_object [(''namespace'', J_string ''fs'')]) ''read'' = Inr ''fs.read''"
  using qualified_name_comes_back [of "[''web'', ''fs'']" "''fs''" "''read''" tree_json
      "J_object [(''namespace'', J_string ''fs'')]" "[]"]
  by (simp add: good_namespaces_def string_field_def j_get_def tree_json_def)

section \<open>Every answer ends with one closing event\<close>

definition event_type :: "('j, 'z) json_api_scheme \<Rightarrow> 'j \<Rightarrow> string" where
  "event_type js e = string_field js e ''type''"

definition closing_types :: "string list" where
  "closing_types = [''response.completed'', ''response.failed'', ''response.incomplete'']"

lemma string_member:
  assumes "json_contract js" and "distinct (map fst ms)" and "map_of ms key = Some (j_string js s)"
  shows "j_value js (j_string_of js) key d (j_object js ms) = Inr s" "string_field js (j_object js ms) key = s"
proof -
  from assms(1,2) obtain ns where ns: "j_members js (j_object js ms) = Some ns" "map_of ns = map_of ms"
    unfolding json_contract_def by blast
  show "j_value js (j_string_of js) key d (j_object js ms) = Inr s"
    using assms(3) ns j_string_read [OF assms(1)] by (simp add: j_value_def)
  show "string_field js (j_object js ms) key = s"
    using assms(3) j_get_object [OF assms(1,2)] j_string_read [OF assms(1)] by (simp add: string_field_def)
qed

lemma event_type_of:
  "json_contract js \<Longrightarrow> distinct (''type'' # map fst ms) \<Longrightarrow> event_type js (j_object js ((''type'', j_string js t) # ms)) = t"
  by (simp add: event_type_def string_member)

lemma closing_event_type:
  "json_contract js \<Longrightarrow> event_type js (closing_event js ids model t status extra) = t"
  by (simp add: closing_event_def event_type_of)

definition typed_item :: "('j, 'z) json_api_scheme \<Rightarrow> 'j \<Rightarrow> bool" where
  "typed_item js v \<longleftrightarrow> (\<forall>d. \<exists>t. j_value js (j_string_of js) ''type'' d v = Inr t) \<and>
     (\<forall>key \<in> {''arguments'', ''id'', ''call_id''}. \<exists>t. j_value js (j_string_of js) key [] v = Inr t)"

lemma item_events_of:
  assumes js: "json_contract js" and "typed_item js v"
  shows "\<exists>evs. item_events js (i, v) = Inr evs \<and> evs \<noteq> [] \<and>
    (\<forall>e \<in> set evs. event_type js e \<notin> set closing_types) \<and>
    event_type js (last evs) = ''response.output_item.done'' \<and> j_get js ''item'' (last evs) = Some v \<and>
    (\<forall>e \<in> set (butlast evs). event_type js e \<noteq> ''response.output_item.done'')"
proof -
  from assms(2) obtain t a b c where
    v: "j_value js (j_string_of js) ''type'' [] v = Inr t" "j_value js (j_string_of js) ''arguments'' [] v = Inr a"
    "j_value js (j_string_of js) ''id'' [] v = Inr b" "j_value js (j_string_of js) ''call_id'' [] v = Inr c"
    unfolding typed_item_def by blast
  show ?thesis
    using v by (simp add: item_events_def Let_def event_type_of [OF js] j_get_object [OF js] closing_types_def)
qed

lemma missing_member:
  assumes "json_contract js" and "distinct (map fst ms)" and "map_of ms key = None"
  shows "j_value js get key d (j_object js ms) = Inr d"
proof -
  from assms(1,2) obtain ns where "j_members js (j_object js ms) = Some ns" "map_of ns = map_of ms"
    unfolding json_contract_def by blast
  with assms(3) show ?thesis by (simp add: j_value_def)
qed

definition string_or_none :: "('j, 'z) json_api_scheme \<Rightarrow> 'j option \<Rightarrow> bool" where
  "string_or_none js x \<longleftrightarrow> x = None \<or> (\<exists>s. x = Some (j_string js s))"

lemma string_or_none_simps [simp]: "string_or_none js None" "string_or_none js (Some (j_string js s))"
  by (auto simp: string_or_none_def)

lemma typed_object:
  assumes "json_contract js" and "distinct (map fst ms)"
    and "string_or_none js (map_of ms ''type'')" and "string_or_none js (map_of ms ''arguments'')"
    and "string_or_none js (map_of ms ''id'')" and "string_or_none js (map_of ms ''call_id'')"
  shows "typed_item js (j_object js ms)"
proof -
  have "\<exists>t. j_value js (j_string_of js) key d (j_object js ms) = Inr t" if "string_or_none js (map_of ms key)" for key d
    using that string_member(1) [OF assms(1,2)] missing_member [OF assms(1,2), of _ "j_string_of js"]
    unfolding string_or_none_def by metis
  with assms(3-6) show ?thesis by (simp add: typed_item_def)
qed

lemma typed_outputs:
  assumes "json_contract js"
  shows "typed_item js (reasoning_output js ids t)" "typed_item js (message_output js ids t)"
    "typed_item js (call_output js nss tools (i, call))"
  unfolding reasoning_output_def message_output_def call_output_def Let_def prod.case
  by (rule typed_object [OF assms]; simp)+

lemma outputs_typed:
  "json_contract js \<Longrightarrow> v \<in> set (response_output_items js ids result) \<Longrightarrow> typed_item js v"
  by (auto simp: response_output_items_def typed_outputs split: if_splits)

definition finished_items :: "('j, 'z) json_api_scheme \<Rightarrow> 'j list \<Rightarrow> 'j option list" where
  "finished_items js evs =
     map (j_get js ''item'') (filter (\<lambda>e. event_type js e = ''response.output_item.done'') evs)"

lemma finished_items_append: "finished_items js (xs @ ys) = finished_items js xs @ finished_items js ys"
  by (simp add: finished_items_def)

lemma all_item_events:
  assumes js: "json_contract js" and "\<forall>v \<in> set vs. typed_item js v"
  shows "\<exists>evss. map_err (item_events js) (enumerate n vs) = Inr evss \<and>
    (\<forall>e \<in> set (concat evss). event_type js e \<notin> set closing_types) \<and>
    finished_items js (concat evss) = map Some vs"
  using assms(2)
proof (induction vs arbitrary: n)
  case (Cons v vs)
  from Cons.prems item_events_of [OF js, of v n] obtain evs where
    evs: "item_events js (n, v) = Inr evs" "evs \<noteq> []" "\<forall>e \<in> set evs. event_type js e \<notin> set closing_types"
    "event_type js (last evs) = ''response.output_item.done''" "j_get js ''item'' (last evs) = Some v"
    "\<forall>e \<in> set (butlast evs). event_type js e \<noteq> ''response.output_item.done''"
    by auto
  then obtain us u where "evs = us @ [u]" by (metis rev_exhaust)
  with evs(4-6) have "finished_items js evs = [Some v]"
    by (simp add: finished_items_def filter_False)
  with evs(1,3) Cons.IH [of "Suc n"] Cons.prems show ?case by (auto simp: finished_items_append)
qed (simp add: finished_items_def)

lemma answer_shape:
  assumes "json_contract js"
  shows "\<exists>evs closing. response_terminal_events js ids model result = Inr (evs @ [closing]) \<and>
    event_type js closing \<in> set closing_types \<and> (\<forall>e \<in> set evs. event_type js e \<notin> set closing_types) \<and>
    (res_status result \<noteq> Completed \<longrightarrow> evs = []) \<and>
    (res_status result = Completed \<longrightarrow>
       event_type js closing = ''response.completed'' \<and>
       finished_items js evs = map Some (response_output_items js ids result) \<and>
       (\<exists>r. j_get js ''response'' closing = Some r \<and>
            j_get js ''output'' r = Some (j_array js (response_output_items js ids result))))"
proof (cases "res_status result")
  case Completed
  let ?vs = "response_output_items js ids result"
  from all_item_events [OF assms, of ?vs 0] outputs_typed [OF assms, of _ ids result] obtain evss where
    evss: "map_err (item_events js) (enumerate 0 ?vs) = Inr evss"
      "\<forall>e \<in> set (concat evss). event_type js e \<notin> set closing_types" "finished_items js (concat evss) = map Some ?vs"
    by blast
  let ?c = "closing_event js ids model ''response.completed'' ''completed'' [(''output'', j_array js ?vs)]"
  have "response_terminal_events js ids model result = Inr (concat evss @ [?c])"
    using Completed evss(1) by (simp add: response_terminal_events_def Let_def)
  moreover have "event_type js ?c = ''response.completed''" by (rule closing_event_type [OF assms])
  moreover have "\<exists>r. j_get js ''response'' ?c = Some r \<and> j_get js ''output'' r = Some (j_array js ?vs)"
    by (simp add: closing_event_def j_get_object [OF assms])
  ultimately show ?thesis using evss(2,3) Completed by (auto simp: closing_types_def)
qed (simp_all add: response_terminal_events_def closing_event_type [OF assms] closing_types_def)

text \<open>
  C23. Every answer ends with exactly one closing event, and it is the last: \<open>response.failed\<close> or
  \<open>response.incomplete\<close> alone, or \<open>response.completed\<close> after the events of the output. Each output
  item is announced as done exactly once and in order, and the closing event carries the same items.
\<close>

theorem answer_closes_once:
  assumes "json_contract js"
  shows "\<exists>evs closing. response_terminal_events js ids model result = Inr (evs @ [closing]) \<and>
    event_type js closing \<in> set closing_types \<and> (\<forall>e \<in> set evs. event_type js e \<notin> set closing_types) \<and>
    (res_status result \<noteq> Completed \<longrightarrow> evs = []) \<and>
    (res_status result = Completed \<longrightarrow>
       event_type js closing = ''response.completed'' \<and>
       finished_items js evs = map Some (response_output_items js ids result) \<and>
       (\<exists>r. j_get js ''response'' closing = Some r \<and>
            j_get js ''output'' r = Some (j_array js (response_output_items js ids result))))"
  by (rule answer_shape [OF assms])

definition demo_result :: "json_tree responses_result" where
  "demo_result = new_result\<lparr> res_text := ''ok'',
     res_calls := [\<lparr> tc_id = ''1'', tc_name = ''run'', tc_arguments = J_object [] \<rparr>] \<rparr>"

theorem answer_closes_once_witness:
  "\<exists>evs closing. response_terminal_events tree_json (fst (make_ids 1)) ''m'' demo_result = Inr (evs @ [closing]) \<and>
     event_type tree_json closing = ''response.completed'' \<and> length (finished_items tree_json evs) = 2"
proof -
  have "length (response_output_items tree_json (fst (make_ids 1)) demo_result) = 2"
    and "res_status demo_result = Completed" by code_simp+
  with answer_closes_once [OF tree_json_contract, of "fst (make_ids 1)" "''m''" demo_result] show ?thesis
    by (metis length_map)
qed

section \<open>The key opens the door\<close>

lemma fold_or_zero: "foldl (\<lambda>d i. d OR f i) (a :: byte) xs = 0 \<longleftrightarrow> a = 0 \<and> (\<forall>i \<in> set xs. f i = 0)"
  by (induction xs arbitrary: a) (auto simp: or_eq_0_iff)

lemma same_key_iff:
  "same_key e p \<longleftrightarrow> (length e XOR length p) mod 256 = 0 \<and>
     (\<forall>i < max (length e) (length p). padded_byte e i = padded_byte p i)"
proof -
  have "(word_of_nat (length e XOR length p) :: byte) = 0 \<longleftrightarrow> (length e XOR length p) mod 256 = 0"
    by (simp add: word_of_nat_eq_0_iff dvd_eq_mod_eq_0)
  moreover have "a XOR b = 0 \<longleftrightarrow> a = b" for a b :: byte
    by (metis xor.comm_neutral xor.left_commute xor_self_eq)
  ultimately show ?thesis by (auto simp: same_key_def fold_or_zero)
qed

lemma unat_byte_of: "unat (byte_of c) = code_of c"
proof -
  have "unat (word_of_nat (code_of c) :: byte) = code_of c"
    using nat_of_char_less_256 [of c] by (simp add: unsigned_of_nat take_bit_eq_mod)
  then show ?thesis by (simp only: of_nat_of_char)
qed

lemma byte_of_inj: "byte_of c = byte_of d \<Longrightarrow> c = d"
  by (metis unat_byte_of code_of_inject)

lemma byte_of_zero: "byte_of c = 0 \<Longrightarrow> c = CHR 0x00"
  using byte_of_inj [of c "CHR 0x00"] by simp

lemma same_key_no_nul:
  assumes "CHR 0x00 \<notin> set e" and "CHR 0x00 \<notin> set p"
  shows "same_key e p \<longleftrightarrow> e = p"
proof
  assume "same_key e p"
  then have eq: "padded_byte e i = padded_byte p i" if "i < max (length e) (length p)" for i
    using that by (simp add: same_key_iff)
  have pos: "padded_byte s i \<noteq> 0" if "i < length s" "CHR 0x00 \<notin> set s" for s i
  proof
    assume "padded_byte s i = 0"
    with that(1) have "s ! i = CHR 0x00" by (simp add: padded_byte_def byte_of_zero)
    with that show False by (metis nth_mem)
  qed
  have len: "length e = length p"
  proof (rule ccontr)
    assume "length e \<noteq> length p"
    then show False
      using eq [of "length e"] eq [of "length p"] pos [of "length e" p] pos [of "length p" e] assms
      by (cases "length e < length p") (auto simp: padded_byte_def)
  qed
  show "e = p"
  proof (rule nth_equalityI [OF len])
    fix i assume "i < length e"
    with eq [of i] len show "e ! i = p ! i" by (simp add: padded_byte_def byte_of_inj)
  qed
qed (simp add: same_key_iff)

lemma authorization_parts:
  assumes "CHR 0x00 \<notin> set key" and "CHR 0x00 \<notin> set header"
  shows "authorization_matches key header \<longleftrightarrow>
    key \<noteq> [] \<and> length k_bearer \<le> length header \<and>
    map to_lower (take (length k_bearer) header) = k_bearer \<and> key = drop (length k_bearer) header"
proof -
  have lower: "list_all2 (\<lambda>c k. to_lower c = k) s t \<longleftrightarrow> map to_lower s = t" for s t
    by (simp add: list_eq_iff_nth_eq list_all2_conv_all_nth)
  have "CHR 0x00 \<notin> set (drop (length k_bearer) header)" using assms(2) by (meson in_set_dropD)
  from same_key_no_nul [OF assms(1) this] show ?thesis
    unfolding authorization_matches_def lower by blast
qed

text \<open>
  C22. The door opens to the key and to nothing else: for keys and headers without NUL bytes (which an
  HTTP header cannot hold) a request is let in exactly if its header is the word bearer, in any case,
  one space, and the expected key.
\<close>

theorem only_the_key_opens:
  assumes "CHR 0x00 \<notin> set key" and "CHR 0x00 \<notin> set header"
  shows "authorization_matches key header \<longleftrightarrow>
    key \<noteq> [] \<and> (\<exists>scheme. header = scheme @ key \<and> map to_lower scheme = k_bearer)"
proof
  assume "authorization_matches key header"
  then show "key \<noteq> [] \<and> (\<exists>scheme. header = scheme @ key \<and> map to_lower scheme = k_bearer)"
    unfolding authorization_parts [OF assms] by (metis append_take_drop_id)
next
  assume "key \<noteq> [] \<and> (\<exists>scheme. header = scheme @ key \<and> map to_lower scheme = k_bearer)"
  then obtain scheme where h: "key \<noteq> []" "header = scheme @ key" "map to_lower scheme = k_bearer" by blast
  then have "length scheme = length k_bearer" using length_map by metis
  with h show "authorization_matches key header" unfolding authorization_parts [OF assms] by simp
qed

theorem only_the_key_opens_witness:
  "authorization_matches ''s3cret'' ''BEARER s3cret'' \<and> \<not> authorization_matches ''s3cret'' ''bearer s3cre''"
proof -
  have "map to_lower ''BEARER '' = ''bearer ''" by code_simp
  moreover have "''BEARER s3cret'' = ''BEARER '' @ ''s3cret''" by simp
  ultimately have "\<exists>scheme. ''BEARER s3cret'' = scheme @ ''s3cret'' \<and> map to_lower scheme = k_bearer"
    unfolding k_bearer_def by metis
  then have "authorization_matches ''s3cret'' ''BEARER s3cret''"
    using only_the_key_opens [of "''s3cret''" "''BEARER s3cret''"] by simp
  moreover have "\<not> authorization_matches ''s3cret'' ''bearer s3cre''" by code_simp
  ultimately show ?thesis by blast
qed

text \<open>The difference of the lengths is cut to a byte: 256 NUL bytes behind the key change nothing.\<close>

lemma padded_key_opens:
  "authorization_matches ''s3cret'' (''Bearer s3cret'' @ replicate 256 (CHR 0x00))"
  by code_simp

end
