(* ===== verification/Response_Stream.thy ===== *)
theory Response_Stream
  imports Response_Items Jobs
begin

text \<open>
  \<open>routes.cpp\<close>: how a request body becomes a task, and how a task is answered, in one piece or as a
  stream of events. The stream pulls from the token buffer of its task; what the pulls answer
  (\<open>Some\<close> a piece, \<open>None\<close> the end) and what the finished task holds are inputs of the model, and so is
  whether a write to the client succeeds. Also the check of the key in \<open>main.cpp\<close>.
\<close>

section \<open>Requests and errors\<close>

record 'j messages_request =
  req_system :: string
  req_messages :: "'j chat_message list"
  req_session_id :: string
  req_max_tokens :: int
  req_temperature :: rat
  req_tools :: "chat_tool list"
  req_namespaces :: "string list"

text \<open>The request, the model name to answer with, and whether the answer is a stream.\<close>

definition read_request ::
  "('j, 'z) json_api_scheme \<Rightarrow> string \<Rightarrow> string \<Rightarrow> request_error + 'j messages_request \<times> string \<times> bool" where
  "read_request js loaded_model body =
     (case j_parse js body of
        Inl err \<Rightarrow> Inl Json_exception
      | Inr v \<Rightarrow>
          then_do (responses_from_json js v) (\<lambda>turn.
            Inr (\<lparr> req_system = turn_instructions turn, req_messages = turn_messages turn,
                   req_session_id = turn_session_id turn, req_max_tokens = turn_max_tokens turn,
                   req_temperature = turn_temperature turn, req_tools = turn_tools turn,
                   req_namespaces = turn_namespaces turn \<rparr>,
                 if turn_model turn = [] then loaded_model else turn_model turn,
                 turn_stream turn)))"

definition openai_error :: "('j, 'z) json_api_scheme \<Rightarrow> nat \<Rightarrow> string \<Rightarrow> string \<Rightarrow> string \<Rightarrow> nat \<times> string" where
  "openai_error js status type message code =
     (status, j_dump js (j_object js [(''error'', j_object js
        ([(''message'', j_string js message), (''type'', j_string js type)] @
         (if code = [] then [] else [(''code'', j_string js code)])))]))"

definition refuse :: "('j, 'z) json_api_scheme \<Rightarrow> request_error \<Rightarrow> nat \<times> string" where
  "refuse js err =
     (case err of
        Bad_request message \<Rightarrow> openai_error js 400 ''invalid_request_error'' message []
      | Json_exception \<Rightarrow> openai_error js 400 ''invalid_request_error'' ''request body is not valid JSON'' [])"

text \<open>The handler before every route: a reply refuses the request.\<close>

definition pre_routing ::
  "('j, 'z) json_api_scheme \<Rightarrow> string \<Rightarrow> string \<Rightarrow> string \<Rightarrow> string \<Rightarrow> (nat \<times> string) option" where
  "pre_routing js api_key verb path authorization =
     (let health = (verb = ''GET'' \<and> path = ''/health'') in
      if api_key \<noteq> [] \<and> \<not> health \<and> \<not> authorization_matches api_key authorization
      then Some (openai_error js 401 ''invalid_request_error'' ''invalid api key'' ''invalid_api_key'')
      else None)"

lemma pre_routing_needs_key:
  "pre_routing js api_key verb path authorization = None \<Longrightarrow> api_key \<noteq> [] \<Longrightarrow>
   (verb = ''GET'' \<and> path = ''/health'') \<or> authorization_matches api_key authorization"
  by (auto simp: pre_routing_def Let_def split: if_splits)

section \<open>The result of a task\<close>

definition result_from_task :: "string list \<Rightarrow> chat_tool list \<Rightarrow> 'j task \<Rightarrow> 'j responses_result" where
  "result_from_task namespaces tools t =
     (if t_state t = Cancelled then new_result\<lparr> res_status := Interrupted \<rparr>
      else if t_state t = Error then
        new_result\<lparr> res_status := Failed, res_error := t_error t, res_error_code := t_error_code t \<rparr>
      else new_result\<lparr> res_reasoning := t_reasoning t, res_text := responses_visible_text (t_result t),
             res_calls := t_calls t, res_namespaces := namespaces, res_tools := tools \<rparr>)"

text \<open>The answer to a request that asked for no stream.\<close>

definition plain_answer ::
  "('j, 'z) json_api_scheme \<Rightarrow> response_ids \<Rightarrow> string \<Rightarrow> 'j responses_result \<Rightarrow> nat \<times> string" where
  "plain_answer js ids model result =
     (if res_status result = Failed
      then openai_error js 500 ''server_error''
             (if res_error result = [] then ''generation failed'' else res_error result) []
      else case response_terminal_events js ids model result of
             Inl err \<Rightarrow> refuse js err
           | Inr events \<Rightarrow>
               (case j_get js ''response'' (last events) of
                  None \<Rightarrow> refuse js Json_exception
                | Some r \<Rightarrow> (200, j_dump js r)))"

section \<open>The stream\<close>

definition delta_events ::
  "('j, 'z) json_api_scheme \<Rightarrow> response_ids \<Rightarrow> delta \<Rightarrow> bool \<Rightarrow> bool \<Rightarrow> 'j list" where
  "delta_events js ids d saw_reasoning saw_text =
     (let typed = (\<lambda>type ms. j_object js ((''type'', j_string js type) # ms)) in
      (if d_reasoning d = [] then []
       else (if saw_reasoning then []
             else [typed ''response.output_item.added''
                     [(''item'', typed ''reasoning''
                        [(''id'', j_string js (id_reasoning ids)), (''status'', j_string js ''in_progress''),
                         (''summary'', j_array js []), (''content'', j_array js []),
                         (''encrypted_content'', j_string js [])])]]) @
            [typed ''response.reasoning_text.delta''
               [(''item_id'', j_string js (id_reasoning ids)), (''content_index'', j_int js 0),
                (''delta'', j_string js (d_reasoning d))]]) @
      (if d_text d = [] then []
       else (if saw_text then []
             else [typed ''response.output_item.added''
                     [(''item'', typed ''message''
                        [(''id'', j_string js (id_message ids)), (''role'', j_string js ''assistant''),
                         (''status'', j_string js ''in_progress''), (''content'', j_array js [])])]]) @
            [typed ''response.output_text.delta''
               [(''item_id'', j_string js (id_message ids)), (''delta'', j_string js (d_text d))]]))"

record response_stream =
  st_ids :: response_ids
  st_model :: string
  st_filter :: delta_filter
  st_frames :: "string list"
  st_pulling :: bool
  st_terminal :: bool
  st_saw_reasoning :: bool
  st_saw_text :: bool
  st_closed :: bool

definition new_stream :: "response_ids \<Rightarrow> string \<Rightarrow> response_stream" where
  "new_stream ids model = \<lparr> st_ids = ids, st_model = model, st_filter = new_filter, st_frames = [],
     st_pulling = False, st_terminal = False, st_saw_reasoning = False, st_saw_text = False, st_closed = False \<rparr>"

definition push_events ::
  "('j, 'z) json_api_scheme \<Rightarrow> 'j list \<Rightarrow> response_stream \<Rightarrow> request_error + response_stream" where
  "push_events js evs st =
     then_do (map_err (sse_frame js) evs) (\<lambda>fs. Inr (st\<lparr> st_frames := st_frames st @ fs \<rparr>))"

definition enqueue_delta ::
  "('j, 'z) json_api_scheme \<Rightarrow> delta \<Rightarrow> response_stream \<Rightarrow> request_error + response_stream" where
  "enqueue_delta js d st =
     then_do (push_events js (delta_events js (st_ids st) d (st_saw_reasoning st) (st_saw_text st)) st) (\<lambda>st.
       Inr (st\<lparr> st_saw_reasoning := st_saw_reasoning st \<or> d_reasoning d \<noteq> [],
                st_saw_text := st_saw_text st \<or> d_text d \<noteq> [] \<rparr>))"

definition opening_events :: "('j, 'z) json_api_scheme \<Rightarrow> response_ids \<Rightarrow> 'j list" where
  "opening_events js ids =
     (let ev = (\<lambda>type. j_object js [(''type'', j_string js type),
                  (''response'', j_object js [(''id'', j_string js (id_response ids)),
                     (''object'', j_string js ''response''), (''status'', j_string js ''in_progress'')])])
      in [ev ''response.created'', ev ''response.in_progress''])"

text \<open>One pull of a stream that has begun; \<open>result\<close> is what the task holds once it is finished.\<close>

definition pull_round ::
  "('j, 'z) json_api_scheme \<Rightarrow> 'j responses_result \<Rightarrow> string option \<Rightarrow> response_stream \<Rightarrow> request_error + response_stream" where
  "pull_round js result piece st =
     (case piece of
        None \<Rightarrow>
          (let (d, f) = filter_finish (st_filter st) in
           then_do (enqueue_delta js d (st\<lparr> st_filter := f \<rparr>)) (\<lambda>st.
           then_do (response_terminal_events js (st_ids st) (st_model st) result) (\<lambda>evs.
           then_do (push_events js evs st) (\<lambda>st.
             Inr (st\<lparr> st_terminal := True \<rparr>)))))
      | Some p \<Rightarrow>
          (let (d, f) = feed (st_filter st) p in enqueue_delta js d (st\<lparr> st_filter := f \<rparr>)))"

lemma push_events_rest:
  "push_events js evs st = Inr st' \<Longrightarrow> \<exists>fs. st' = st\<lparr> st_frames := st_frames st @ fs \<rparr> \<and> map_err (sse_frame js) evs = Inr fs"
  by (auto simp: push_events_def then_do_Inr_iff)

lemma push_events_pulling: "push_events js evs st = Inr st' \<Longrightarrow> st_pulling st' = st_pulling st"
  by (auto dest: push_events_rest)

text \<open>The loop that goes on until there is a frame to send. Without a pull to answer it waits.\<close>

function fill_frames ::
  "('j, 'z) json_api_scheme \<Rightarrow> 'j responses_result \<Rightarrow> response_stream \<Rightarrow> string option list \<Rightarrow>
     request_error + response_stream \<times> string option list" where
  "fill_frames js result st pulls =
     (if st_frames st \<noteq> [] \<or> st_terminal st then Inr (st, pulls)
      else if \<not> st_pulling st then
        then_do (push_events js (opening_events js (st_ids st)) (st\<lparr> st_pulling := True \<rparr>)) (\<lambda>st.
          fill_frames js result st pulls)
      else case pulls of
             [] \<Rightarrow> Inr (st, [])
           | p # ps \<Rightarrow> then_do (pull_round js result p st) (\<lambda>st. fill_frames js result st ps))"
  by pat_completeness auto
termination
  by (relation "measure (\<lambda>(js, result, st, pulls). 2 * length pulls + (if st_pulling st then 0 else 1))")
    (auto dest: push_events_pulling)

declare fill_frames.simps [simp del]

datatype provider_answer = Wrote string | Ended | Client_gone | Waiting

text \<open>One call of the content provider; \<open>ok\<close> says whether the client takes the frame.\<close>

definition provide ::
  "('j, 'z) json_api_scheme \<Rightarrow> 'j responses_result \<Rightarrow> bool \<Rightarrow> response_stream \<Rightarrow> string option list \<Rightarrow>
     request_error + provider_answer \<times> response_stream \<times> string option list" where
  "provide js result ok st pulls =
     (if st_closed st then Inr (Client_gone, st, pulls)
      else then_do (fill_frames js result st pulls) (\<lambda>(st, pulls).
        case st_frames st of
          [] \<Rightarrow> Inr (if st_terminal st then Ended else Waiting, st, pulls)
        | frame # rest \<Rightarrow>
            if ok then Inr (Wrote frame, st\<lparr> st_frames := rest \<rparr>, pulls)
            else Inr (Client_gone, st\<lparr> st_closed := True \<rparr>, pulls)))"

text \<open>
  The whole stream to a client that takes every frame: the provider is called until it ends or has to
  wait. Each call either sends a frame or ends, so this terminates.
\<close>

definition stream_work :: "response_stream \<Rightarrow> string option list \<Rightarrow> nat" where
  "stream_work st pulls = 2 * length pulls + (if st_pulling st then 0 else 1)"

lemma fill_frames_work:
  "fill_frames js result st pulls = Inr (st', pulls') \<Longrightarrow>
   (st', pulls') = (st, pulls) \<or> stream_work st' pulls' < stream_work st pulls"
proof (induction js result st pulls rule: fill_frames.induct)
  case (1 js result st pulls)
  show ?case
  proof (cases "st_frames st \<noteq> [] \<or> st_terminal st")
    case True
    with "1.prems" show ?thesis by (simp add: fill_frames.simps [of js result st])
  next
    case False
    note idle = this
    show ?thesis
    proof (cases "st_pulling st")
      case pulling: False
      with idle "1.prems" obtain t where
        t: "push_events js (opening_events js (st_ids st)) (st\<lparr> st_pulling := True \<rparr>) = Inr t"
          "fill_frames js result t pulls = Inr (st', pulls')"
        by (auto simp: fill_frames.simps [of js result st] then_do_Inr_iff)
      have "st_pulling t" using push_events_pulling [OF t(1)] by simp
      with "1.IH"(1) [OF idle _ t] pulling show ?thesis by (auto simp: stream_work_def)
    next
      case pulling: True
      show ?thesis
      proof (cases pulls)
        case Nil
        with idle pulling "1.prems" show ?thesis by (simp add: fill_frames.simps [of js result st])
      next
        case (Cons p ps)
        with idle pulling "1.prems" obtain t where
          t: "pull_round js result p st = Inr t" "fill_frames js result t ps = Inr (st', pulls')"
          by (auto simp: fill_frames.simps [of js result st] then_do_Inr_iff)
        with "1.IH"(2) [OF idle _ Cons t] pulling Cons show ?thesis
          by (auto simp: stream_work_def split: if_splits)
      qed
    qed
  qed
qed

lemma provide_work:
  assumes "provide js result True st pulls = Inr (Wrote frame, st', pulls')"
  shows "stream_work st' pulls' < stream_work st pulls \<or>
    stream_work st' pulls' = stream_work st pulls \<and> length (st_frames st') < length (st_frames st)"
proof -
  from assms obtain t ps where fill: "fill_frames js result st pulls = Inr (t, ps)"
    by (cases "fill_frames js result st pulls") (auto simp: provide_def split: if_splits)
  with assms obtain rest where t: "fill_frames js result st pulls = Inr (t, pulls')" "st_frames t = frame # rest"
    "st' = t\<lparr> st_frames := rest \<rparr>"
    by (cases "st_frames t") (auto simp: provide_def split: if_splits)
  have "stream_work st' pulls' = stream_work t pulls'" by (simp add: t(3) stream_work_def)
  with fill_frames_work [OF t(1)] t(2,3) show ?thesis by auto
qed

function serve ::
  "('j, 'z) json_api_scheme \<Rightarrow> 'j responses_result \<Rightarrow> response_stream \<Rightarrow> string option list \<Rightarrow>
     request_error + string list \<times> provider_answer" where
  "serve js result st pulls =
     then_do (provide js result True st pulls) (\<lambda>(answer, st, pulls).
       case answer of
         Wrote frame \<Rightarrow> then_do (serve js result st pulls) (\<lambda>(frames, last). Inr (frame # frames, last))
       | _ \<Rightarrow> Inr ([], answer))"
  by pat_completeness auto
termination
  by (relation "measures [\<lambda>(js, result, st, pulls). stream_work st pulls,
        \<lambda>(js, result, st, pulls). length (st_frames st)]") (auto dest: provide_work)

declare serve.simps [simp del]

section \<open>What the client receives\<close>

definition framable :: "('j, 'z) json_api_scheme \<Rightarrow> 'j \<Rightarrow> bool" where
  "framable js e \<longleftrightarrow> (\<exists>f. sse_frame js e = Inr f)"

lemma framable_typed:
  "json_contract js \<Longrightarrow> distinct (''type'' # map fst ms) \<Longrightarrow> framable js (j_object js ((''type'', j_string js t) # ms))"
  by (simp add: framable_def sse_frame_def string_member(1))

lemma map_err_append:
  "map_err f (xs @ ys) = then_do (map_err f xs) (\<lambda>us. then_do (map_err f ys) (\<lambda>vs. Inr (us @ vs)))"
proof (induction xs)
  case Nil
  then show ?case by (cases "map_err f ys") simp_all
next
  case (Cons x xs)
  then show ?case by (cases "f x"; cases "map_err f xs"; cases "map_err f ys") simp_all
qed

definition frame :: "('j, 'z) json_api_scheme \<Rightarrow> 'j \<Rightarrow> string" where
  "frame js e = (case sse_frame js e of Inl err \<Rightarrow> [] | Inr f \<Rightarrow> f)"

lemma frames_of: "\<forall>e \<in> set evs. framable js e \<Longrightarrow> map_err (sse_frame js) evs = Inr (map (frame js) evs)"
  by (induction evs) (auto simp: framable_def frame_def)

lemma push_framable:
  "\<forall>e \<in> set evs. framable js e \<Longrightarrow>
   push_events js evs st = Inr (st\<lparr> st_frames := st_frames st @ map (frame js) evs \<rparr>)"
  by (simp add: push_events_def frames_of)

lemma delta_events_framable: "json_contract js \<Longrightarrow> \<forall>e \<in> set (delta_events js ids d r t). framable js e"
  by (auto simp: delta_events_def Let_def framable_typed)

lemma opening_events_framable: "json_contract js \<Longrightarrow> \<forall>e \<in> set (opening_events js ids). framable js e"
  by (auto simp: opening_events_def Let_def framable_typed)

definition item_event_types :: "string list" where
  "item_event_types = [''response.output_item.added'', ''response.function_call_arguments.delta'',
     ''response.function_call_arguments.done'', ''response.output_item.done'']"

lemma item_event_shapes:
  assumes "json_contract js" and "item_events js iv = Inr evs" and "e \<in> set evs"
  shows "framable js e \<and> event_type js e \<in> set item_event_types"
  using assms(2,3) framable_typed [OF assms(1)] event_type_of [OF assms(1)]
  by (cases iv) (auto simp: item_events_def Let_def then_do_Inr_iff item_event_types_def split: if_splits)

lemma map_err_member: "map_err f xs = Inr ys \<Longrightarrow> y \<in> set ys \<Longrightarrow> \<exists>x \<in> set xs. f x = Inr y"
  by (induction xs arbitrary: ys) (auto simp: then_do_Inr_iff)

lemma terminal_event_shapes:
  assumes "json_contract js" and "response_terminal_events js ids model result = Inr evs" and "e \<in> set evs"
  shows "framable js e \<and> event_type js e \<in> set (item_event_types @ closing_types)"
proof -
  have closing: "framable js (closing_event js ids model t status extra)" for t status extra
    by (simp add: closing_event_def framable_typed [OF assms(1)])
  show ?thesis
  proof (cases "res_status result")
    case Completed
    let ?vs = "response_output_items js ids result"
    let ?c = "closing_event js ids model ''response.completed'' ''completed'' [(''output'', j_array js ?vs)]"
    from Completed assms(2) obtain evss where "map_err (item_events js) (enumerate 0 ?vs) = Inr evss"
      and "evs = concat evss @ [?c]"
      by (auto simp: response_terminal_events_def Let_def then_do_Inr_iff)
    with assms(3) have "e = ?c \<or> (\<exists>iv es. item_events js iv = Inr es \<and> e \<in> set es)"
      using map_err_member by fastforce
    with item_event_shapes [OF assms(1)] closing closing_event_type [OF assms(1)] show ?thesis
      by (auto simp: closing_types_def)
  qed (use assms(2,3) closing closing_event_type [OF assms(1)] in
      \<open>auto simp: response_terminal_events_def closing_types_def\<close>)
qed

text \<open>The events behind the frames, from what is pulled on.\<close>

fun pulled_events ::
  "('j, 'z) json_api_scheme \<Rightarrow> response_ids \<Rightarrow> 'j list \<Rightarrow> delta_filter \<Rightarrow> bool \<Rightarrow> bool \<Rightarrow> string list \<Rightarrow> 'j list" where
  "pulled_events js ids closing f r t [] =
     delta_events js ids (fst (filter_finish f)) r t @ closing"
| "pulled_events js ids closing f r t (p # ps) =
     (let d = fst (feed f p) in
      delta_events js ids d r t @
      pulled_events js ids closing (snd (feed f p)) (r \<or> d_reasoning d \<noteq> []) (t \<or> d_text d \<noteq> []) ps)"

lemma serve_write:
  "\<not> st_closed st \<Longrightarrow> st_frames st = f # fs \<Longrightarrow>
   serve js result st pulls =
     then_do (serve js result (st\<lparr> st_frames := fs \<rparr>) pulls) (\<lambda>(frames, last). Inr (f # frames, last))"
  by (simp add: serve.simps [of js result st] provide_def fill_frames.simps [of js result st])

lemma serve_frames:
  "\<not> st_closed st \<Longrightarrow> serve js result (st\<lparr> st_frames := [] \<rparr>) pulls = Inr (frames, a) \<Longrightarrow>
   serve js result st pulls = Inr (st_frames st @ frames, a)"
proof (induction "st_frames st" arbitrary: st)
  case Nil
  then have "st\<lparr> st_frames := [] \<rparr> = st" by (cases st) simp
  with Nil show ?case by simp
next
  case (Cons f fs)
  from Cons.hyps(1) [of "st\<lparr> st_frames := fs \<rparr>"] Cons.prems
  have "serve js result (st\<lparr> st_frames := fs \<rparr>) pulls = Inr (fs @ frames, a)" by simp
  with serve_write [OF Cons.prems(1) Cons.hyps(2) [symmetric], of js result pulls] Cons.hyps(2) [symmetric]
  show ?case by simp
qed

lemma serve_round:
  "\<not> st_closed st \<Longrightarrow> st_frames st = [] \<Longrightarrow> \<not> st_terminal st \<Longrightarrow> st_pulling st \<Longrightarrow>
   pull_round js result p st = Inr t \<Longrightarrow> \<not> st_closed t \<Longrightarrow>
   serve js result st (p # ps) = serve js result t ps"
  by (simp add: serve.simps [of js result st] serve.simps [of js result t] provide_def
      fill_frames.simps [of js result st])

lemma serve_ended:
  "\<not> st_closed st \<Longrightarrow> st_frames st = [] \<Longrightarrow> st_terminal st \<Longrightarrow> serve js result st pulls = Inr ([], Ended)"
  by (simp add: serve.simps [of js result st] provide_def fill_frames.simps [of js result st])

lemma enqueue_delta_done:
  "json_contract js \<Longrightarrow> enqueue_delta js d st =
     Inr (st\<lparr> st_frames := st_frames st @
               map (frame js) (delta_events js (st_ids st) d (st_saw_reasoning st) (st_saw_text st)),
              st_saw_reasoning := st_saw_reasoning st \<or> d_reasoning d \<noteq> [],
              st_saw_text := st_saw_text st \<or> d_text d \<noteq> [] \<rparr>)"
  by (simp add: enqueue_delta_def push_framable delta_events_framable)

lemma serve_pulled:
  assumes js: "json_contract js"
    and "response_terminal_events js (st_ids st) (st_model st) result = Inr closing"
    and "\<not> st_closed st" "st_frames st = []" "\<not> st_terminal st" "st_pulling st"
  shows "serve js result st (map Some arrived @ [None]) =
    Inr (map (frame js) (pulled_events js (st_ids st) closing (st_filter st) (st_saw_reasoning st)
      (st_saw_text st) arrived), Ended)"
  using assms(2-)
proof (induction arrived arbitrary: st)
  case Nil
  obtain d g where fin: "filter_finish (st_filter st) = (d, g)" by fastforce
  let ?fs = "map (frame js) (pulled_events js (st_ids st) closing (st_filter st) (st_saw_reasoning st) (st_saw_text st) [])"
  let ?t = "st\<lparr> st_filter := g, st_frames := ?fs, st_saw_reasoning := st_saw_reasoning st \<or> d_reasoning d \<noteq> [],
       st_saw_text := st_saw_text st \<or> d_text d \<noteq> [], st_terminal := True \<rparr>"
  have "\<forall>e \<in> set closing. framable js e" using terminal_event_shapes [OF js Nil.prems(1)] by blast
  then have "pull_round js result None st = Inr ?t"
    using Nil.prems(1,3) fin by (simp add: pull_round_def enqueue_delta_done [OF js] push_framable)
  then have "serve js result st [None] = serve js result ?t []"
    using Nil.prems by (intro serve_round) simp_all
  moreover have "serve js result (?t\<lparr> st_frames := [] \<rparr>) [] = Inr ([], Ended)"
    using Nil.prems by (intro serve_ended) simp_all
  from serve_frames [OF _ this] Nil.prems(2) have "serve js result ?t [] = Inr (?fs @ [], Ended)" by simp
  ultimately show ?case by simp
next
  case (Cons p ps)
  obtain d g where fd: "feed (st_filter st) p = (d, g)" by fastforce
  let ?fs = "map (frame js) (delta_events js (st_ids st) d (st_saw_reasoning st) (st_saw_text st))"
  let ?t = "st\<lparr> st_filter := g, st_frames := ?fs, st_saw_reasoning := st_saw_reasoning st \<or> d_reasoning d \<noteq> [],
       st_saw_text := st_saw_text st \<or> d_text d \<noteq> [] \<rparr>"
  have "pull_round js result (Some p) st = Inr ?t"
    using Cons.prems(3) fd by (simp add: pull_round_def enqueue_delta_done [OF js])
  then have "serve js result st (map Some (p # ps) @ [None]) = serve js result ?t (map Some ps @ [None])"
    using Cons.prems by (simp add: serve_round)
  moreover have "serve js result (?t\<lparr> st_frames := [] \<rparr>) (map Some ps @ [None]) =
      Inr (map (frame js) (pulled_events js (st_ids st) closing g (st_saw_reasoning st \<or> d_reasoning d \<noteq> [])
        (st_saw_text st \<or> d_text d \<noteq> []) ps), Ended)"
    using Cons.IH [of "?t\<lparr> st_frames := [] \<rparr>"] Cons.prems by simp
  from serve_frames [OF _ this] Cons.prems(2)
  have "serve js result ?t (map Some ps @ [None]) =
      Inr (?fs @ map (frame js) (pulled_events js (st_ids st) closing g (st_saw_reasoning st \<or> d_reasoning d \<noteq> [])
        (st_saw_text st \<or> d_text d \<noteq> []) ps), Ended)"
    by simp
  ultimately show ?case by (simp add: fd)
qed

lemma serve_stream:
  assumes js: "json_contract js" and T: "response_terminal_events js ids model result = Inr closing"
  shows "serve js result (new_stream ids model) (map Some arrived @ [None]) =
    Inr (map (frame js) (opening_events js ids @ pulled_events js ids closing new_filter False False arrived), Ended)"
proof -
  let ?st = "new_stream ids model"
  let ?os = "map (frame js) (opening_events js ids)"
  let ?t = "?st\<lparr> st_pulling := True, st_frames := ?os \<rparr>"
  let ?pulls = "map Some arrived @ [None]"
  have "push_events js (opening_events js ids) (?st\<lparr> st_pulling := True \<rparr>) = Inr ?t"
    by (simp add: push_framable opening_events_framable [OF js] new_stream_def)
  then have "fill_frames js result ?st ?pulls = fill_frames js result ?t ?pulls"
    by (subst fill_frames.simps) (simp add: new_stream_def)
  then have "serve js result ?st ?pulls = serve js result ?t ?pulls"
    by (subst (1 2) serve.simps) (simp add: provide_def new_stream_def)
  moreover have "serve js result (?t\<lparr> st_frames := [] \<rparr>) ?pulls =
      Inr (map (frame js) (pulled_events js ids closing new_filter False False arrived), Ended)"
    using serve_pulled [OF js, of "?t\<lparr> st_frames := [] \<rparr>"] T by (simp add: new_stream_def)
  from serve_frames [OF _ this]
  have "serve js result ?t ?pulls =
      Inr (?os @ map (frame js) (pulled_events js ids closing new_filter False False arrived), Ended)"
    by (simp add: new_stream_def)
  ultimately show ?thesis by simp
qed

text \<open>The texts of the deltas of one type.\<close>

definition delta_texts :: "('j, 'z) json_api_scheme \<Rightarrow> string \<Rightarrow> 'j list \<Rightarrow> string" where
  "delta_texts js type evs = concat (map (\<lambda>e. string_field js e ''delta'') (filter (\<lambda>e. event_type js e = type) evs))"

lemma delta_texts_append: "delta_texts js type (xs @ ys) = delta_texts js type xs @ delta_texts js type ys"
  by (simp add: delta_texts_def)

lemma delta_texts_none: "(\<And>e. e \<in> set evs \<Longrightarrow> event_type js e \<noteq> type) \<Longrightarrow> delta_texts js type evs = []"
  by (simp add: delta_texts_def filter_False)

lemma delta_events_texts:
  assumes "json_contract js"
  shows "delta_texts js ''response.output_text.delta'' (delta_events js ids d r t) = d_text d"
    "delta_texts js ''response.reasoning_text.delta'' (delta_events js ids d r t) = d_reasoning d"
  using event_type_of [OF assms] string_member(2) [OF assms]
  by (simp_all add: delta_texts_def delta_events_def Let_def)

definition total_delta :: "delta_filter \<Rightarrow> string list \<Rightarrow> delta" where
  "total_delta f arrived =
     (let (ds, g) = run_stream feed f arrived in add_delta (foldr add_delta ds no_delta) (fst (filter_finish g)))"

lemma total_delta_Cons: "total_delta f (p # ps) = add_delta (fst (feed f p)) (total_delta (snd (feed f p)) ps)"
  by (simp add: total_delta_def Let_def add_delta_assoc split: prod.splits)

lemma total_delta_stream: "fst (stream_deltas arrived) = total_delta new_filter arrived"
  by (simp add: stream_deltas_def total_delta_def split: prod.splits)

lemma pulled_texts:
  assumes js: "json_contract js"
    and "\<And>type. type \<in> {''response.output_text.delta'', ''response.reasoning_text.delta''} \<Longrightarrow> delta_texts js type closing = []"
  shows "delta_texts js ''response.output_text.delta'' (pulled_events js ids closing f r t arrived) =
      d_text (total_delta f arrived) \<and>
    delta_texts js ''response.reasoning_text.delta'' (pulled_events js ids closing f r t arrived) =
      d_reasoning (total_delta f arrived)"
proof (induction arrived arbitrary: f r t)
  case Nil
  show ?case
    using assms(2) by (simp add: delta_texts_append delta_events_texts [OF js] total_delta_def)
next
  case (Cons p ps)
  then show ?case
    by (simp add: Let_def delta_texts_append delta_events_texts [OF js] total_delta_Cons add_delta_def)
qed

lemma event_types_in_delta_events:
  "json_contract js \<Longrightarrow> e \<in> set (delta_events js ids d r t) \<Longrightarrow> event_type js e \<notin> set closing_types"
  using event_type_of [of js]
  by (auto simp: delta_events_def Let_def closing_types_def split: if_splits)

lemma pulled_events_split:
  assumes "json_contract js"
  shows "\<exists>us. pulled_events js ids closing f r t arrived = us @ closing \<and>
    (\<forall>e \<in> set us. event_type js e \<notin> set closing_types)"
proof (induction arrived arbitrary: f r t)
  case Nil
  show ?case using event_types_in_delta_events [OF assms] by auto
next
  case (Cons p ps)
  let ?d = "fst (feed f p)"
  from Cons.IH [of "snd (feed f p)" "r \<or> d_reasoning ?d \<noteq> []" "t \<or> d_text ?d \<noteq> []"] obtain us where
    us: "pulled_events js ids closing (snd (feed f p)) (r \<or> d_reasoning ?d \<noteq> []) (t \<or> d_text ?d \<noteq> []) ps = us @ closing"
      "\<forall>e \<in> set us. event_type js e \<notin> set closing_types" by blast
  then show ?case
    using event_types_in_delta_events [OF assms, of _ ids ?d r t]
    by (intro exI [of _ "delta_events js ids ?d r t @ us"]) (auto simp: Let_def)
qed

text \<open>
  C20. A client that stays connected receives the whole answer: after the pieces of a task have arrived and
  the task has finished, the stream ends, its first event is \<open>response.created\<close>, exactly its last one is
  a closing event, and the text and reasoning deltas joined are the answer text and the reasoning of the
  model's output, whatever the pieces were.
\<close>

theorem stream_tells_the_whole_answer:
  assumes js: "json_contract js"
  shows "\<exists>evs closing. serve js result (new_stream ids model) (map Some arrived @ [None]) =
      Inr (map (frame js) (evs @ [closing]), Ended) \<and>
    event_type js (hd evs) = ''response.created'' \<and>
    event_type js closing \<in> set closing_types \<and> (\<forall>e \<in> set evs. event_type js e \<notin> set closing_types) \<and>
    delta_texts js ''response.output_text.delta'' evs = d_text (fst (stream_deltas arrived)) \<and>
    delta_texts js ''response.reasoning_text.delta'' evs = d_reasoning (fst (stream_deltas arrived))"
proof -
  obtain us c where T: "response_terminal_events js ids model result = Inr (us @ [c])"
    and c: "event_type js c \<in> set closing_types" and us: "\<forall>e \<in> set us. event_type js e \<notin> set closing_types"
    using answer_shape [OF js, of ids model result] by blast
  have no_delta: "delta_texts js type (us @ [c]) = []" "delta_texts js type [c] = []"
    if "type \<in> {''response.output_text.delta'', ''response.reasoning_text.delta''}" for type
  proof -
    have other: "event_type js e \<noteq> type" if "e \<in> set (us @ [c])" for e
      using terminal_event_shapes [OF js T that] \<open>type \<in> _\<close> by (auto simp: item_event_types_def closing_types_def)
    show "delta_texts js type (us @ [c]) = []" by (rule delta_texts_none) (rule other)
    show "delta_texts js type [c] = []" by (rule delta_texts_none) (rule other, simp)
  qed
  obtain vs where vs: "pulled_events js ids (us @ [c]) new_filter False False arrived = vs @ (us @ [c])"
    "\<forall>e \<in> set vs. event_type js e \<notin> set closing_types"
    using pulled_events_split [OF js] by blast
  let ?os = "opening_events js ids"
  have os: "event_type js (hd ?os) = ''response.created''" "?os \<noteq> []"
    "\<forall>e \<in> set ?os. event_type js e \<in> {''response.created'', ''response.in_progress''}"
    by (simp_all add: opening_events_def Let_def event_type_of [OF js])
  have os_delta: "delta_texts js type ?os = []"
    if "type \<in> {''response.output_text.delta'', ''response.reasoning_text.delta''}" for type
    by (rule delta_texts_none) (use os(3) that in auto)
  note texts = pulled_texts [OF js no_delta(1), of ids new_filter False False arrived, unfolded vs(1)]
  have "delta_texts js ''response.output_text.delta'' (?os @ vs @ us) = d_text (total_delta new_filter arrived)"
    "delta_texts js ''response.reasoning_text.delta'' (?os @ vs @ us) = d_reasoning (total_delta new_filter arrived)"
    using texts no_delta(2) os_delta by (simp_all add: delta_texts_append)
  moreover have "\<forall>e \<in> set (?os @ vs @ us). event_type js e \<notin> set closing_types"
    using os(3) vs(2) us by (auto simp: closing_types_def)
  moreover have "event_type js (hd (?os @ vs @ us)) = ''response.created''" using os(1,2) by simp
  ultimately show ?thesis
    using serve_stream [OF js T, of arrived] vs(1) c
    by (intro exI [of _ "?os @ vs @ us"] exI [of _ c]) (simp add: total_delta_stream)
qed

theorem stream_tells_the_whole_answer_witness:
  "\<exists>evs closing. serve tree_json (result_from_task [] [] (new_task True)) (new_stream (fst (make_ids 1)) ''m'')
       [Some ''Hi <thi'', Some ''nk>hm</think>!'', None] = Inr (map (frame tree_json) (evs @ [closing]), Ended) \<and>
     event_type tree_json closing \<in> set closing_types \<and>
     delta_texts tree_json ''response.output_text.delta'' evs = ''Hi !''"
proof -
  have "d_text (fst (stream_deltas [''Hi <thi'', ''nk>hm</think>!''])) = ''Hi !''" by code_simp
  with stream_tells_the_whole_answer [OF tree_json_contract, of "result_from_task [] [] (new_task True)"
      "fst (make_ids 1)" "''m''" "[''Hi <thi'', ''nk>hm</think>!'']"]
  show ?thesis by simp metis
qed

end
