(* ===== verification/Session_Models.thy ===== *)
theory Session_Models
  imports Response_Turn
begin

text \<open>
  \<open>src/api/models.cpp\<close>, \<open>src/api/sessions.hpp\<close> and \<open>src/server/api/sessions.hpp\<close>: the bodies of the
  session interface and their conversions to and from JSON. A conversion that throws is an \<open>Inl\<close>;
  \<open>Undefined_read\<close> stands for \<open>j[key]\<close> on a constant object without that key, which the library leaves
  undefined. Session ids and job keys are naturals, read modulo \<open>2^64\<close>.
\<close>

section \<open>Failing and reading\<close>

datatype api_error = Thrown request_error | Unknown_name string | Undefined_read

definition lift_err :: "request_error + 'a \<Rightarrow> api_error + 'a" where
  "lift_err m = (case m of Inl e \<Rightarrow> Inl (Thrown e) | Inr x \<Rightarrow> Inr x)"

lemma lift_err_simps [simp]: "lift_err (Inl e) = Inl (Thrown e)" "lift_err (Inr x) = Inr x"
  by (simp_all add: lift_err_def)

lemma lift_err_Inr [simp]: "lift_err m = Inr x \<longleftrightarrow> m = Inr x"
  by (cases m) simp_all

definition required :: "string \<Rightarrow> api_error + 'a" where
  "required key = Inl (Thrown (Bad_request (''property '' @ [CHR 0x27] @ key @ [CHR 0x27] @ '' is required'')))"

definition member_at :: "('j, 'z) json_api_scheme \<Rightarrow> string \<Rightarrow> 'j \<Rightarrow> api_error + 'j" where
  "member_at js key j =
     (case j_members js j of
        None \<Rightarrow> Inl (Thrown Json_exception)
      | Some ms \<Rightarrow> (case map_of ms key of None \<Rightarrow> Inl Undefined_read | Some v \<Rightarrow> Inr v))"

definition get_string :: "('j, 'z) json_api_scheme \<Rightarrow> 'j \<Rightarrow> api_error + string" where
  "get_string js v = (case j_string_of js v of None \<Rightarrow> Inl (Thrown Json_exception) | Some s \<Rightarrow> Inr s)"

definition j_u64 :: "('j, 'z) json_api_scheme \<Rightarrow> 'j \<Rightarrow> nat option" where
  "j_u64 js v = map_option (\<lambda>n. nat (n mod 2 ^ 64)) (j_as_long js v)"

definition j_i64 :: "('j, 'z) json_api_scheme \<Rightarrow> 'j \<Rightarrow> int option" where
  "j_i64 js v = map_option (\<lambda>n. sint (word_of_int n :: 64 word)) (j_as_long js v)"

definition j_i32 :: "('j, 'z) json_api_scheme \<Rightarrow> 'j \<Rightarrow> int option" where
  "j_i32 js v = map_option int32_of (j_as_int js v)"

definition value_of :: "('j, 'z) json_api_scheme \<Rightarrow> ('j \<Rightarrow> 'a option) \<Rightarrow> string \<Rightarrow> 'a \<Rightarrow> 'j \<Rightarrow> api_error + 'a" where
  "value_of js get key fallback j = lift_err (j_value js get key fallback j)"

text \<open>\<open>j.value(key, array())\<close>, the elements where that is an array, none where it is not.\<close>

definition array_of :: "('j, 'z) json_api_scheme \<Rightarrow> string \<Rightarrow> 'j \<Rightarrow> api_error + 'j list" where
  "array_of js key j =
     then_do (value_of js Some key (j_array js []) j) (\<lambda>v.
       Inr (case j_elements js v of None \<Rightarrow> [] | Some xs \<Rightarrow> xs))"

text \<open>Members that are only written when a string is not empty.\<close>

definition when_set :: "('j, 'z) json_api_scheme \<Rightarrow> string \<Rightarrow> string \<Rightarrow> (string \<times> 'j) list" where
  "when_set js key s = (if s = [] then [] else [(key, j_string js s)])"

section \<open>Session states\<close>

datatype session_state = Unknown_state | Idle | Generating | AwaitingTools | AwaitingQuestion

definition session_state_to_string :: "session_state \<Rightarrow> string option" where
  "session_state_to_string s =
     (case s of Idle \<Rightarrow> Some ''idle'' | Generating \<Rightarrow> Some ''generating''
      | AwaitingTools \<Rightarrow> Some ''awaiting_tools'' | AwaitingQuestion \<Rightarrow> Some ''awaiting_question''
      | Unknown_state \<Rightarrow> None)"

definition session_state_to_enum :: "string \<Rightarrow> session_state option" where
  "session_state_to_enum s =
     (if s = ''idle'' then Some Idle
      else if s = ''generating'' then Some Generating
      else if s = ''awaiting_tools'' then Some AwaitingTools
      else if s = ''awaiting_question'' then Some AwaitingQuestion
      else None)"

definition state_name :: "session_state \<Rightarrow> api_error + string" where
  "state_name s = (case session_state_to_string s of None \<Rightarrow> Inl (Unknown_name []) | Some t \<Rightarrow> Inr t)"

definition state_named :: "string \<Rightarrow> api_error + session_state" where
  "state_named s = (case session_state_to_enum s of None \<Rightarrow> Inl (Unknown_name s) | Some t \<Rightarrow> Inr t)"

lemma state_name_back: "state_name s = Inr t \<Longrightarrow> state_named t = Inr s"
  by (cases s) (auto simp: state_name_def state_named_def session_state_to_string_def session_state_to_enum_def)

section \<open>Calls, questions, messages and tools\<close>

definition call_to_json :: "('j, 'z) json_api_scheme \<Rightarrow> 'j parsed_tool_call \<Rightarrow> 'j" where
  "call_to_json js c =
     j_object js [(''id'', j_string js (tc_id c)), (''name'', j_string js (tc_name c)), (''arguments'', tc_arguments c)]"

definition call_from_json :: "('j, 'z) json_api_scheme \<Rightarrow> 'j \<Rightarrow> api_error + 'j parsed_tool_call" where
  "call_from_json js j =
     then_do (then_do (member_at js ''id'' j) (get_string js)) (\<lambda>id.
     then_do (then_do (member_at js ''name'' j) (get_string js)) (\<lambda>name.
     then_do (member_at js ''arguments'' j) (\<lambda>arguments.
     Inr \<lparr> tc_id = id, tc_name = name, tc_arguments = arguments \<rparr>)))"

definition question_to_json :: "('j, 'z) json_api_scheme \<Rightarrow> parsed_question \<Rightarrow> 'j" where
  "question_to_json js q =
     j_object js [(''text'', j_string js (q_text q)), (''answers'', j_array js (map (j_string js) (q_answers q)))]"

definition question_from_json :: "('j, 'z) json_api_scheme \<Rightarrow> 'j \<Rightarrow> api_error + parsed_question" where
  "question_from_json js j =
     then_do (then_do (member_at js ''text'' j) (get_string js)) (\<lambda>question.
     then_do (array_of js ''answers'' j) (\<lambda>arr.
     then_do (map_err (get_string js) arr) (\<lambda>answers.
     Inr \<lparr> q_text = question, q_answers = answers \<rparr>)))"

definition validate_message :: "'j chat_message \<Rightarrow> api_error + 'j chat_message" where
  "validate_message m = (if role m = [] then required ''role'' else Inr m)"

definition message_from_json :: "('j, 'z) json_api_scheme \<Rightarrow> 'j \<Rightarrow> api_error + 'j chat_message" where
  "message_from_json js j =
     then_do (value_of js (j_string_of js) ''role'' ''user'' j) (\<lambda>who.
     let content = (case j_get js ''content'' j of
                      None \<Rightarrow> []
                    | Some v \<Rightarrow> (case j_string_of js v of None \<Rightarrow> [] | Some s \<Rightarrow> s)) in
     then_do (value_of js (j_string_of js) ''reasoning_content'' [] j) (\<lambda>reasoning.
     then_do (value_of js (j_string_of js) ''tool_call_id'' [] j) (\<lambda>call_id.
     then_do (value_of js (j_string_of js) ''tool_name'' [] j) (\<lambda>name.
     then_do (map_err (call_from_json js)
                (case j_get js ''tool_calls'' j of
                   None \<Rightarrow> []
                 | Some v \<Rightarrow> (case j_elements js v of None \<Rightarrow> [] | Some xs \<Rightarrow> xs))) (\<lambda>calls.
     validate_message \<lparr> role = who, msg_content = content, reasoning_content = reasoning,
       tool_call_id = call_id, tool_name = name, tool_calls = calls \<rparr>)))))"

definition message_members :: "('j, 'z) json_api_scheme \<Rightarrow> 'j chat_message \<Rightarrow> (string \<times> 'j) list" where
  "message_members js m =
     [(''role'', j_string js (role m)), (''content'', j_string js (msg_content m))] @
     when_set js ''reasoning_content'' (reasoning_content m) @
     when_set js ''tool_call_id'' (tool_call_id m) @
     when_set js ''tool_name'' (tool_name m) @
     (if tool_calls m = [] then []
      else [(''tool_calls'', j_array js (map (call_to_json js) (tool_calls m)))])"

definition message_to_json :: "('j, 'z) json_api_scheme \<Rightarrow> 'j chat_message \<Rightarrow> api_error + 'j" where
  "message_to_json js m = then_do (validate_message m) (\<lambda>m. Inr (j_object js (message_members js m)))"

definition tool_to_json :: "('j, 'z) json_api_scheme \<Rightarrow> chat_tool \<Rightarrow> api_error + 'j" where
  "tool_to_json js t =
     then_do (if tool_parameters t = [] then Inr (j_object js [])
              else case j_parse js (tool_parameters t) of Inl err \<Rightarrow> Inl (Thrown Json_exception) | Inr v \<Rightarrow> Inr v)
       (\<lambda>parameters.
          Inr (j_object js
            [(''type'', j_string js ''function''),
             (''function'', j_object js [(''name'', j_string js (tool_spec_name t)),
                (''description'', j_string js (tool_description t)), (''parameters'', parameters)])]))"

definition tool_from_json :: "('j, 'z) json_api_scheme \<Rightarrow> 'j \<Rightarrow> api_error + chat_tool" where
  "tool_from_json js j = lift_err (chat_tool_from_json js j)"

section \<open>Requests\<close>

record 'j create_request =
  cr_id :: nat
  cr_system :: string
  cr_messages :: "'j chat_message list"
  cr_questions :: bool
  cr_compress_tools :: bool
  cr_tools :: "chat_tool list"
  cr_max_tokens :: int

definition create_request_members ::
  "('j, 'z) json_api_scheme \<Rightarrow> 'j create_request \<Rightarrow> 'j list \<Rightarrow> 'j list \<Rightarrow> (string \<times> 'j) list" where
  "create_request_members js r messages tools =
     [(''system'', j_string js (cr_system r)), (''messages'', j_array js messages),
      (''questions'', j_bool js (cr_questions r)), (''compress_tools'', j_bool js (cr_compress_tools r)),
      (''tools'', j_array js tools), (''max_tokens'', j_int js (cr_max_tokens r))] @
     (if cr_id r = 0 then [] else [(''id'', j_int js (int (cr_id r)))])"

definition create_request_to_json :: "('j, 'z) json_api_scheme \<Rightarrow> 'j create_request \<Rightarrow> api_error + 'j" where
  "create_request_to_json js r =
     then_do (map_err (message_to_json js) (cr_messages r)) (\<lambda>messages.
     then_do (map_err (tool_to_json js) (cr_tools r)) (\<lambda>tools.
     Inr (j_object js (create_request_members js r messages tools))))"

definition create_request_from_json :: "('j, 'z) json_api_scheme \<Rightarrow> 'j \<Rightarrow> api_error + 'j create_request" where
  "create_request_from_json js j =
     then_do (value_of js (j_u64 js) ''id'' 0 j) (\<lambda>id.
     then_do (value_of js (j_string_of js) ''system'' [] j) (\<lambda>system.
     then_do (value_of js (j_bool_of js) ''questions'' True j) (\<lambda>questions.
     then_do (value_of js (j_bool_of js) ''compress_tools'' True j) (\<lambda>compress.
     then_do (value_of js (j_i32 js) ''max_tokens'' (-1) j) (\<lambda>tokens.
     then_do (then_do (array_of js ''tools'' j) (map_err (tool_from_json js))) (\<lambda>tools.
     then_do (then_do (array_of js ''messages'' j) (map_err (message_from_json js))) (\<lambda>messages.
     Inr \<lparr> cr_id = id, cr_system = system, cr_messages = messages, cr_questions = questions,
           cr_compress_tools = compress, cr_tools = tools, cr_max_tokens = tokens \<rparr>)))))))"

record session_message =
  sm_content :: string
  sm_role :: string
  sm_max_tokens :: int

definition session_message_from_json :: "('j, 'z) json_api_scheme \<Rightarrow> 'j \<Rightarrow> api_error + session_message" where
  "session_message_from_json js j =
     then_do (value_of js (j_string_of js) ''content'' [] j) (\<lambda>content.
     then_do (value_of js (j_string_of js) ''role'' ''user'' j) (\<lambda>who.
     then_do (value_of js (j_i32 js) ''max_tokens'' (-1) j) (\<lambda>tokens.
     if content = [] then required ''content''
     else if who = [] then required ''role''
     else Inr \<lparr> sm_content = content, sm_role = who, sm_max_tokens = tokens \<rparr>)))"

definition session_message_to_json :: "('j, 'z) json_api_scheme \<Rightarrow> session_message \<Rightarrow> 'j" where
  "session_message_to_json js m =
     j_object js [(''content'', j_string js (sm_content m)), (''role'', j_string js (sm_role m)),
       (''max_tokens'', j_int js (sm_max_tokens m))]"

record tool_result_item =
  tr_id :: string
  tr_name :: string
  tr_content :: string
  tr_detail :: string
  tr_denied :: bool

definition tool_result_from_json :: "('j, 'z) json_api_scheme \<Rightarrow> 'j \<Rightarrow> api_error + tool_result_item" where
  "tool_result_from_json js j =
     then_do (value_of js (j_string_of js) ''id'' [] j) (\<lambda>id.
     then_do (value_of js (j_string_of js) ''name'' [] j) (\<lambda>name.
     then_do (value_of js (j_string_of js) ''result'' [] j) (\<lambda>result.
     then_do (value_of js (j_string_of js) ''content'' result j) (\<lambda>content.
     then_do (value_of js (j_string_of js) ''detail'' [] j) (\<lambda>detail.
     then_do (value_of js (j_bool_of js) ''denied'' False j) (\<lambda>denied.
     Inr \<lparr> tr_id = id, tr_name = name, tr_content = content, tr_detail = detail, tr_denied = denied \<rparr>))))))"

definition elements_at :: "('j, 'z) json_api_scheme \<Rightarrow> string \<Rightarrow> 'j \<Rightarrow> 'j list option" where
  "elements_at js key j = (case j_get js key j of None \<Rightarrow> None | Some v \<Rightarrow> j_elements js v)"

definition tool_results_from_json :: "('j, 'z) json_api_scheme \<Rightarrow> 'j \<Rightarrow> api_error + tool_result_item list" where
  "tool_results_from_json js j =
     map_err (tool_result_from_json js)
       (case elements_at js ''tool_results'' j of
          Some xs \<Rightarrow> xs
        | None \<Rightarrow> (case elements_at js ''results'' j of
                     Some xs \<Rightarrow> xs
                   | None \<Rightarrow> (case j_elements js j of Some xs \<Rightarrow> xs | None \<Rightarrow> [])))"

section \<open>Answers\<close>

record 'j message_status =
  ms_key :: nat
  ms_state :: job_state
  ms_done :: bool
  ms_content :: string
  ms_error :: string
  ms_error_code :: string
  ms_reasoning :: string
  ms_calls :: "'j parsed_tool_call list"
  ms_question :: "parsed_question option"

definition job_state_name :: "job_state \<Rightarrow> api_error + string" where
  "job_state_name s = (case job_state_to_string s of None \<Rightarrow> Inl (Unknown_name []) | Some t \<Rightarrow> Inr t)"

definition job_state_named :: "string \<Rightarrow> api_error + job_state" where
  "job_state_named s = (case job_state_to_enum s of None \<Rightarrow> Inl (Unknown_name s) | Some t \<Rightarrow> Inr t)"

lemma job_state_name_back: "job_state_name s = Inr t \<Longrightarrow> job_state_named t = Inr s"
  by (auto simp: job_state_name_def job_state_named_def job_state_string_round_trip split: option.splits)

definition call_list :: "('j, 'z) json_api_scheme \<Rightarrow> string \<Rightarrow> 'j parsed_tool_call list \<Rightarrow> (string \<times> 'j) list" where
  "call_list js key calls = (if calls = [] then [] else [(key, j_array js (map (call_to_json js) calls))])"

definition question_member ::
  "('j, 'z) json_api_scheme \<Rightarrow> string \<Rightarrow> parsed_question option \<Rightarrow> (string \<times> 'j) list" where
  "question_member js key q = (case q of None \<Rightarrow> [] | Some q \<Rightarrow> [(key, question_to_json js q)])"

definition message_status_members ::
  "('j, 'z) json_api_scheme \<Rightarrow> 'j message_status \<Rightarrow> string \<Rightarrow> (string \<times> 'j) list" where
  "message_status_members js r name =
     [(''key'', j_int js (int (ms_key r))), (''state'', j_string js name), (''done'', j_bool js (ms_done r)),
      (''content'', j_string js (ms_content r))] @
     when_set js ''error'' (ms_error r) @ when_set js ''error_code'' (ms_error_code r) @
     when_set js ''reasoning_content'' (ms_reasoning r) @
     call_list js ''tool_calls'' (ms_calls r) @ question_member js ''question'' (ms_question r)"

definition message_status_to_json :: "('j, 'z) json_api_scheme \<Rightarrow> 'j message_status \<Rightarrow> api_error + 'j" where
  "message_status_to_json js r =
     then_do (job_state_name (ms_state r)) (\<lambda>name. Inr (j_object js (message_status_members js r name)))"

text \<open>A question is read where the member is an object, calls where it is an array.\<close>

definition object_question :: "('j, 'z) json_api_scheme \<Rightarrow> string \<Rightarrow> 'j \<Rightarrow> api_error + parsed_question option" where
  "object_question js key j =
     (case j_get js key j of
        None \<Rightarrow> Inr None
      | Some v \<Rightarrow> if j_members js v = None then Inr None
                  else then_do (question_from_json js v) (\<lambda>q. Inr (Some q)))"

definition message_status_from_json :: "('j, 'z) json_api_scheme \<Rightarrow> 'j \<Rightarrow> api_error + 'j message_status" where
  "message_status_from_json js j =
     then_do (value_of js (j_u64 js) ''key'' 0 j) (\<lambda>key.
     then_do (case j_get js ''state'' j of
                None \<Rightarrow> Inr Unknown
              | Some v \<Rightarrow> (case j_string_of js v of None \<Rightarrow> Inr Unknown | Some s \<Rightarrow> job_state_named s)) (\<lambda>state.
     then_do (value_of js (j_bool_of js) ''done'' False j) (\<lambda>finished.
     then_do (value_of js (j_string_of js) ''content'' [] j) (\<lambda>content.
     then_do (value_of js (j_string_of js) ''error'' [] j) (\<lambda>err.
     then_do (value_of js (j_string_of js) ''error_code'' [] j) (\<lambda>code.
     then_do (value_of js (j_string_of js) ''reasoning_content'' [] j) (\<lambda>reasoning.
     then_do (then_do (array_of js ''tool_calls'' j) (map_err (call_from_json js))) (\<lambda>calls.
     then_do (object_question js ''question'' j) (\<lambda>question.
     Inr \<lparr> ms_key = key, ms_state = state, ms_done = finished, ms_content = content, ms_error = err,
           ms_error_code = code, ms_reasoning = reasoning, ms_calls = calls, ms_question = question \<rparr>)))))))))"

record 'j session_response =
  sr_id :: nat
  sr_system_prompt :: string
  sr_messages :: "'j chat_message list"
  sr_active_job_key :: "nat option"
  sr_state :: session_state
  sr_pending_tool_calls :: "'j parsed_tool_call list"
  sr_pending_question :: "parsed_question option"
  sr_questions :: bool
  sr_compress_tools :: bool
  sr_error :: string
  sr_error_code :: string
  sr_context_used :: int
  sr_context_size :: int
  sr_include_messages :: bool

definition validate_session :: "'j session_response \<Rightarrow> api_error + 'j session_response" where
  "validate_session r =
     (if sr_id r = 0 then required ''id''
      else if sr_state r = Unknown_state then required ''state'' else Inr r)"

definition session_response_members ::
  "('j, 'z) json_api_scheme \<Rightarrow> 'j session_response \<Rightarrow> string \<Rightarrow> 'j list \<Rightarrow> (string \<times> 'j) list" where
  "session_response_members js r name messages =
     [(''id'', j_int js (int (sr_id r))), (''system'', j_string js (sr_system_prompt r)),
      (''state'', j_string js name), (''questions'', j_bool js (sr_questions r)),
      (''compress_tools'', j_bool js (sr_compress_tools r)), (''context_used'', j_int js (sr_context_used r)),
      (''context_size'', j_int js (sr_context_size r))] @
     (if sr_include_messages r then [(''messages'', j_array js messages)] else []) @
     when_set js ''error'' (sr_error r) @ when_set js ''error_code'' (sr_error_code r) @
     (case sr_active_job_key r of None \<Rightarrow> [] | Some k \<Rightarrow> [(''active_job_key'', j_int js (int k))]) @
     call_list js ''pending_tool_calls'' (sr_pending_tool_calls r) @
     question_member js ''pending_question'' (sr_pending_question r)"

definition session_response_to_json :: "('j, 'z) json_api_scheme \<Rightarrow> 'j session_response \<Rightarrow> api_error + 'j" where
  "session_response_to_json js r =
     then_do (validate_session r) (\<lambda>r.
     then_do (state_name (sr_state r)) (\<lambda>name.
     then_do (if sr_include_messages r then map_err (message_to_json js) (sr_messages r) else Inr []) (\<lambda>messages.
     Inr (j_object js (session_response_members js r name messages)))))"

definition session_response_from_json :: "('j, 'z) json_api_scheme \<Rightarrow> 'j \<Rightarrow> api_error + 'j session_response" where
  "session_response_from_json js j =
     then_do (value_of js (j_u64 js) ''id'' 0 j) (\<lambda>id.
     then_do (value_of js (j_string_of js) ''system'' [] j) (\<lambda>system.
     then_do (then_do (array_of js ''messages'' j) (map_err (message_from_json js))) (\<lambda>messages.
     then_do (case j_get js ''active_job_key'' j of
                None \<Rightarrow> Inr None
              | Some v \<Rightarrow> then_do (value_of js (j_u64 js) ''active_job_key'' 0 j) (\<lambda>k. Inr (Some k))) (\<lambda>active.
     then_do (then_do (value_of js (j_string_of js) ''state'' [] j) state_named) (\<lambda>state.
     then_do (then_do (array_of js ''pending_tool_calls'' j) (map_err (call_from_json js))) (\<lambda>calls.
     then_do (case j_get js ''pending_question'' j of
                None \<Rightarrow> Inr None
              | Some v \<Rightarrow> then_do (question_from_json js v) (\<lambda>q. Inr (Some q))) (\<lambda>question.
     then_do (value_of js (j_bool_of js) ''questions'' True j) (\<lambda>questions.
     then_do (value_of js (j_bool_of js) ''compress_tools'' True j) (\<lambda>compress.
     then_do (value_of js (j_string_of js) ''error'' [] j) (\<lambda>err.
     then_do (value_of js (j_string_of js) ''error_code'' [] j) (\<lambda>code.
     then_do (value_of js (j_i32 js) ''context_used'' 0 j) (\<lambda>used.
     then_do (value_of js (j_i32 js) ''context_size'' 0 j) (\<lambda>ctx.
     Inr \<lparr> sr_id = id, sr_system_prompt = system, sr_messages = messages, sr_active_job_key = active,
           sr_state = state, sr_pending_tool_calls = calls, sr_pending_question = question,
           sr_questions = questions, sr_compress_tools = compress, sr_error = err, sr_error_code = code,
           sr_context_used = used, sr_context_size = ctx,
           sr_include_messages = (j_get js ''messages'' j \<noteq> None) \<rparr>)))))))))))))"

definition session_list_to_json :: "('j, 'z) json_api_scheme \<Rightarrow> 'j session_response list \<Rightarrow> api_error + 'j" where
  "session_list_to_json js sessions =
     then_do (map_err (\<lambda>s. session_response_to_json js (s\<lparr> sr_include_messages := False, sr_messages := [] \<rparr>)) sessions)
       (\<lambda>arr. Inr (j_object js [(''sessions'', j_array js arr)]))"

definition session_list_from_json :: "('j, 'z) json_api_scheme \<Rightarrow> 'j \<Rightarrow> api_error + 'j session_response list" where
  "session_list_from_json js j =
     then_do (array_of js ''sessions'' j) (map_err (session_response_from_json js))"

definition session_messages_to_json :: "('j, 'z) json_api_scheme \<Rightarrow> 'j chat_message list \<Rightarrow> api_error + 'j" where
  "session_messages_to_json js messages =
     then_do (map_err (message_to_json js) messages) (\<lambda>arr. Inr (j_object js [(''messages'', j_array js arr)]))"

definition session_messages_from_json :: "('j, 'z) json_api_scheme \<Rightarrow> 'j \<Rightarrow> api_error + 'j chat_message list" where
  "session_messages_from_json js j =
     then_do (array_of js ''messages'' j) (map_err (message_from_json js))"

record message_tokens =
  mt_tokens :: string
  mt_done :: bool
  mt_state :: string
  mt_error :: string
  mt_error_code :: string
  mt_context_used :: int
  mt_context_size :: int

definition message_tokens_to_json :: "('j, 'z) json_api_scheme \<Rightarrow> message_tokens \<Rightarrow> 'j" where
  "message_tokens_to_json js m =
     j_object js
       ([(''tokens'', j_string js (mt_tokens m)), (''done'', j_bool js (mt_done m))] @
        when_set js ''state'' (mt_state m) @ when_set js ''error'' (mt_error m) @
        when_set js ''error_code'' (mt_error_code m) @
        (if 0 < mt_context_size m
         then [(''context_used'', j_int js (mt_context_used m)), (''context_size'', j_int js (mt_context_size m))]
         else []))"

definition message_tokens_from_json :: "('j, 'z) json_api_scheme \<Rightarrow> 'j \<Rightarrow> api_error + message_tokens" where
  "message_tokens_from_json js j =
     then_do (value_of js (j_string_of js) ''tokens'' [] j) (\<lambda>tokens.
     then_do (value_of js (j_bool_of js) ''done'' False j) (\<lambda>finished.
     then_do (value_of js (j_string_of js) ''state'' [] j) (\<lambda>state.
     then_do (value_of js (j_string_of js) ''error'' [] j) (\<lambda>err.
     then_do (value_of js (j_string_of js) ''error_code'' [] j) (\<lambda>code.
     then_do (value_of js (j_i32 js) ''context_used'' 0 j) (\<lambda>used.
     then_do (value_of js (j_i32 js) ''context_size'' 0 j) (\<lambda>ctx.
     Inr \<lparr> mt_tokens = tokens, mt_done = finished, mt_state = state, mt_error = err, mt_error_code = code,
           mt_context_used = used, mt_context_size = ctx \<rparr>)))))))"

text \<open>\<open>SessionMessageResponse\<close> and \<open>ErrorResponse\<close>.\<close>

definition posted_to_json :: "('j, 'z) json_api_scheme \<Rightarrow> nat \<times> nat \<Rightarrow> 'j" where
  "posted_to_json js = (\<lambda>(session_id, key).
     j_object js [(''session_id'', j_int js (int session_id)), (''key'', j_int js (int key))])"

definition posted_from_json :: "('j, 'z) json_api_scheme \<Rightarrow> 'j \<Rightarrow> api_error + nat \<times> nat" where
  "posted_from_json js j =
     then_do (value_of js (j_u64 js) ''session_id'' 0 j) (\<lambda>session_id.
     then_do (value_of js (j_u64 js) ''key'' 0 j) (\<lambda>key. Inr (session_id, key)))"

definition error_response_to_json :: "('j, 'z) json_api_scheme \<Rightarrow> int \<times> string \<Rightarrow> 'j" where
  "error_response_to_json js = (\<lambda>(code, message).
     j_object js [(''error_code'', j_int js code), (''message'', j_string js message)])"

definition error_response_from_json :: "('j, 'z) json_api_scheme \<Rightarrow> 'j \<Rightarrow> api_error + int \<times> string" where
  "error_response_from_json js j =
     then_do (value_of js (j_i32 js) ''error_code'' (-1) j) (\<lambda>code.
     then_do (value_of js (j_string_of js) ''message'' [] j) (\<lambda>message. Inr (code, message)))"

end
