(* ===== verification/Tool_History.thy ===== *)
theory Tool_History
  imports Response_Parse Response_Turn
begin

text \<open>
  \<open>src/server/sessions/tool_history.cpp\<close>: the tag under which a tool result is stored in the
  conversation, and the rewriting of long results of a finished turn to one line each. Numbers are
  printed by \<open>decimal\<close>; the index into the text is the text from that index on.
\<close>

section \<open>Pieces of a stored result\<close>

definition k_tool_open :: string where "k_tool_open = ''<tool_response''"
definition k_tool_close :: string where "k_tool_close = ''</tool_response>''"

definition line_count :: "string \<Rightarrow> nat" where
  "line_count s =
     (if s = [] then 0
      else 1 + length (filter (\<lambda>c. c = CHR 0x0A) s) - (if last s = CHR 0x0A then 1 else 0))"

definition safe_name :: "string \<Rightarrow> bool" where
  "safe_name name \<longleftrightarrow> name \<noteq> [] \<and> length name \<le> 64 \<and>
     list_all (\<lambda>c. is_alnum_char c \<or> c = CHR ''_'' \<or> c = CHR ''-'') name"

definition detail_char :: "char \<Rightarrow> char" where
  "detail_char c = (if c = CHR 0x22 \<or> c = CHR ''<'' \<or> c = CHR ''>'' \<or> c = CHR 0x09 then CHR '' '' else c)"

definition strip_spaces :: "string \<Rightarrow> string" where
  "strip_spaces s = dropWhile (\<lambda>c. c = CHR '' '') (rev (dropWhile (\<lambda>c. c = CHR '' '') (rev s)))"

definition sanitize_detail :: "string \<Rightarrow> string" where
  "sanitize_detail s =
     strip_spaces (map detail_char (take 160 (takeWhile (\<lambda>c. c \<noteq> CHR 0x0A \<and> c \<noteq> CHR 0x0D) s)))"

definition tag_attribute :: "string \<Rightarrow> string \<Rightarrow> string" where
  "tag_attribute tag key =
     (case cut_at (key @ ''='' @ [CHR 0x22]) tag of
        None \<Rightarrow> []
      | Some (before, after) \<Rightarrow> (case cut_at [CHR 0x22] after of None \<Rightarrow> [] | Some (val, rest) \<Rightarrow> val))"

definition line_window :: "string \<Rightarrow> string" where
  "line_window body =
     (let first = takeWhile (\<lambda>c. c \<noteq> CHR 0x0A) body in
      if 80 < length first \<or> \<not> prefix ''lines '' first \<or> sfind '' of '' first = None then [] else first)"

definition tool_label :: "string \<Rightarrow> string" where
  "tool_label name = (if name = [] then ''tool'' else name)"

definition already_record :: "string \<Rightarrow> string \<Rightarrow> bool" where
  "already_record body name \<longleftrightarrow>
     CHR 0x0A \<notin> set body \<and>
     (prefix ''omitted '' body \<or>
      prefix (tool_label name) body \<and> (sfind '', lines '' body \<noteq> None \<or> sfind '' lines'' body \<noteq> None))"

definition record_line :: "string \<Rightarrow> string \<Rightarrow> string \<Rightarrow> string" where
  "record_line name detail body =
     (let target = tool_label name @ (if detail = [] then [] else '' '' @ detail) @ '', '' in
      if line_window body \<noteq> [] then target @ line_window body
      else target @ decimal (line_count body) @ '' lines'')"

definition tool_response_open :: "string \<Rightarrow> string \<Rightarrow> string" where
  "tool_response_open name detail =
     (let named = safe_name name; clean = sanitize_detail detail in
      if \<not> named \<and> clean = [] then k_tool_open @ ''>''
      else k_tool_open @
           (if named then '' name='' @ [CHR 0x22] @ name @ [CHR 0x22] else []) @
           (if clean = [] then [] else '' detail='' @ [CHR 0x22] @ clean @ [CHR 0x22]) @ ''>'')"

definition subagent_names :: "string list" where
  "subagent_names = [''sub_agent'', ''subagent'', ''delegate_subagent'', ''delegate_task'', ''spawn_subagent'',
     ''run_subagent'', ''sub_task'', ''subtask'', ''run_task'', ''task_agent'', ''tasks'', ''run_tasks'']"

definition is_subagent_name :: "string \<Rightarrow> bool" where
  "is_subagent_name name \<longleftrightarrow> list_ex (\<lambda>known. known = name) subagent_names"

section \<open>Shrinking\<close>

definition keeps_body :: "string \<Rightarrow> string \<Rightarrow> bool" where
  "keeps_body tag body \<longleftrightarrow>
     (let body = trim_sv body; name = tag_attribute tag ''name'' in
      is_subagent_name name \<or> already_record body name \<or> (length body \<le> 240 \<and> line_count body \<le> 3))"

definition short_body :: "string \<Rightarrow> string \<Rightarrow> string" where
  "short_body tag body =
     (if keeps_body tag body then body
      else [CHR 0x0A] @ record_line (tag_attribute tag ''name'') (tag_attribute tag ''detail'') (trim_sv body) @ [CHR 0x0A])"

function shrink_from :: "string \<Rightarrow> string" where
  "shrink_from txt =
     (case sfind k_tool_open txt of
        None \<Rightarrow> txt
      | Some start \<Rightarrow>
          (let rest = drop start txt in
           take start txt @
           (case (sfind ''>'' rest, sfind k_tool_close rest) of
              (Some tag_end, Some e) \<Rightarrow>
                if e < tag_end then rest
                else
                  (let tag = take (Suc tag_end) rest in
                   tag @ short_body tag (take (e - Suc tag_end) (drop (Suc tag_end) rest)) @ k_tool_close @
                   shrink_from (drop (e + length k_tool_close) rest))
            | _ \<Rightarrow> rest)))"
  by pat_completeness auto
termination
proof (relation "measure length")
  show "wf (measure (length :: string \<Rightarrow> nat))" by simp
qed (auto simp: k_tool_close_def k_tool_open_def dest!: sfind_SomeD)

declare shrink_from.simps [simp del]

definition shrink_tool_responses :: "string \<Rightarrow> string" where
  "shrink_tool_responses txt = (if sfind k_tool_open txt = None then txt else shrink_from txt)"

section \<open>Stored results\<close>

text \<open>A conversation text with stored results: attributes of the tag, body, and the text behind each.\<close>

fun render_results :: "string \<Rightarrow> (string \<times> string \<times> string) list \<Rightarrow> string" where
  "render_results t [] = t"
| "render_results t ((attrs, body, t') # rest) =
     t @ k_tool_open @ attrs @ ''>'' @ body @ k_tool_close @ render_results t' rest"

definition tag_of :: "string \<Rightarrow> string" where
  "tag_of attrs = k_tool_open @ attrs @ ''>''"

definition clean_attrs :: "string \<Rightarrow> bool" where
  "clean_attrs attrs \<longleftrightarrow>
     list_all (\<lambda>c. c \<noteq> CHR ''<'' \<and> c \<noteq> CHR ''>'' \<and> c \<noteq> CHR 0x0A) attrs \<and>
     (let name = tag_attribute (tag_of attrs) ''name'' in name = [] \<or> \<not> is_trim_char (hd name))"

definition clean_result :: "string \<times> string \<times> string \<Rightarrow> bool" where
  "clean_result = (\<lambda>(attrs, body, t).
     clean_attrs attrs \<and> sfind k_tool_close body = None \<and> sfind k_tool_open t = None)"

definition shrink_result :: "string \<times> string \<times> string \<Rightarrow> string \<times> string \<times> string" where
  "shrink_result = (\<lambda>(attrs, body, t). (attrs, short_body (tag_of attrs) body, t))"

lemma open_found: "sfind k_tool_open t = None \<Longrightarrow> sfind k_tool_open (t @ k_tool_open @ w) = Some (length t)"
  using sfind_put [of "CHR ''<''" "''tool_response''" t w] by (simp add: k_tool_open_def)

lemma close_found:
  assumes "sfind k_tool_close u = None"
  shows "sfind k_tool_close (u @ k_tool_close @ w) = Some (length u)"
  using sfind_put [of "CHR ''<''" "''/tool_response>''" u w] assms by (simp add: k_tool_close_def)

lemma no_close_in_tag:
  assumes "list_all (\<lambda>c. c \<noteq> CHR ''<'' \<and> c \<noteq> CHR ''>'' \<and> c \<noteq> CHR 0x0A) attrs" and "sfind k_tool_close body = None"
  shows "sfind k_tool_close (tag_of attrs @ body) = None"
proof -
  have "sfind k_tool_close (tag_of attrs @ body) = map_option (\<lambda>i. length (tag_of attrs) + i) (sfind k_tool_close body)"
  proof (rule sfind_shift)
    fix j assume p: "prefix k_tool_close (drop j (tag_of attrs @ body))"
    show "length (tag_of attrs) \<le> j"
    proof (rule ccontr)
      assume "\<not> length (tag_of attrs) \<le> j"
      then have j: "j < length (tag_of attrs)" by simp
      show False
      proof (cases j)
        case 0
        with p show False by (simp add: tag_of_def k_tool_open_def k_tool_close_def)
      next
        case (Suc k)
        have "drop j (tag_of attrs @ body) ! 0 = CHR ''<''"
          using p by (auto simp: prefix_def k_tool_close_def)
        then have "tag_of attrs ! j = CHR ''<''" using j by (simp add: nth_append)
        with Suc j have "CHR ''<'' \<in> set (tl (tag_of attrs))"
          by (metis Suc_less_eq length_tl less_imp_diff_less nth_mem nth_tl One_nat_def Suc_diff_1 Suc_lessD
              length_greater_0_conv list.size(3) not_less_zero)
        with assms(1) show False by (auto simp: tag_of_def k_tool_open_def list_all_iff)
      qed
    qed
  qed
  with assms(2) show ?thesis by simp
qed

lemma shrink_step:
  assumes "sfind k_tool_open t = None" and "clean_result (attrs, body, t')"
  shows "shrink_from (t @ k_tool_open @ attrs @ ''>'' @ body @ k_tool_close @ w) =
    t @ k_tool_open @ attrs @ ''>'' @ short_body (tag_of attrs) body @ k_tool_close @ shrink_from w"
proof -
  define n where "n = length (k_tool_open @ attrs)"
  define rest where "rest = tag_of attrs @ body @ k_tool_close @ w"
  have clean: "list_all (\<lambda>c. c \<noteq> CHR ''<'' \<and> c \<noteq> CHR ''>'' \<and> c \<noteq> CHR 0x0A) attrs"
    "sfind k_tool_close body = None"
    using assms(2) by (simp_all add: clean_result_def clean_attrs_def)
  have len: "length (tag_of attrs) = Suc n" by (simp add: tag_of_def n_def)
  have start: "sfind k_tool_open (t @ rest) = Some (length t)"
    using open_found [OF assms(1), of "attrs @ ''>'' @ body @ k_tool_close @ w"] by (simp add: tag_of_def rest_def)
  have "CHR ''>'' \<notin> set (k_tool_open @ attrs)" using clean(1) by (auto simp: k_tool_open_def list_all_iff)
  then have tag: "sfind ''>'' rest = Some n"
    using sfind_put [of "CHR ''>''" "[]" "k_tool_open @ attrs" "body @ k_tool_close @ w"]
    by (simp add: tag_of_def sfind_char_None n_def rest_def)
  have e: "sfind k_tool_close rest = Some (Suc n + length body)"
    using close_found [OF no_close_in_tag [OF clean], of w] by (simp add: len rest_def)
  have cuts: "take (Suc n) rest = tag_of attrs" "drop (Suc n) rest = body @ k_tool_close @ w"
    using len by (simp_all add: rest_def)
  have w: "drop (Suc n + length body + length k_tool_close) rest = w"
    using len by (simp add: rest_def)
  have body: "take (Suc n + length body - Suc n) (body @ k_tool_close @ w) = body" by simp
  have le: "\<not> Suc n + length body < n" by simp
  have t: "take (length t) (t @ rest) = t" "drop (length t) (t @ rest) = rest" by simp_all
  have "shrink_from (t @ rest) = t @ tag_of attrs @ short_body (tag_of attrs) body @ k_tool_close @ shrink_from w"
    by (subst shrink_from.simps) (simp only: start option.case Let_def t tag e prod.case le if_False cuts body w)
  then show ?thesis by (simp add: tag_of_def rest_def)
qed

lemma shrink_render:
  "sfind k_tool_open t = None \<Longrightarrow> list_all clean_result rs \<Longrightarrow>
   shrink_from (render_results t rs) = render_results t (map shrink_result rs)"
proof (induction t rs rule: render_results.induct)
  case (1 t)
  then show ?case by (simp add: shrink_from.simps)
next
  case (2 t attrs body t' rest)
  then have c: "clean_result (attrs, body, t')" and t': "sfind k_tool_open t' = None"
    by (simp_all add: clean_result_def)
  from shrink_step [OF 2(2) c, of "render_results t' rest"] 2(1) [OF t'] 2(3) show ?case
    by (simp add: shrink_result_def)
qed

section \<open>Shrinking once is enough\<close>

lemma trim_sv_keeps:
  assumes "q \<noteq> []" and "\<not> is_trim_char (hd q)" and "\<not> is_trim_char (last q)"
  shows "\<exists>y'. trim_sv (q @ y) = q @ y' \<and> set y' \<subseteq> set y"
proof -
  have "dropWhile is_trim_char (q @ y) = q @ y" using assms(1,2) by (cases q) simp_all
  then have t: "trim_sv (q @ y) = rev (dropWhile is_trim_char (rev y @ rev q))" by (simp add: trim_sv_def)
  have q: "dropWhile is_trim_char (rev q) = rev q"
    using assms(1,3) by (cases q rule: rev_cases) simp_all
  show ?thesis
  proof (cases "\<forall>c \<in> set y. is_trim_char c")
    case True
    then have "dropWhile is_trim_char (rev y @ rev q) = rev q" 
      using q dropWhile_append2 [of "rev y" is_trim_char "rev q"] by simp
    with t show ?thesis by (intro exI [of _ "[]"]) simp
  next
    case False
    then obtain c where "c \<in> set (rev y)" "\<not> is_trim_char c" by auto
    then have "dropWhile is_trim_char (rev y @ rev q) = dropWhile is_trim_char (rev y) @ rev q"
      by (rule dropWhile_append1)
    with t show ?thesis
      by (intro exI [of _ "rev (dropWhile is_trim_char (rev y))"]) (auto dest: set_dropWhileD)
  qed
qed

lemma trim_sv_lines: "trim_sv ([CHR 0x0A] @ s @ [CHR 0x0A]) = trim_sv s"
proof (cases "\<forall>c \<in> set s. is_trim_char c")
  case True
  then have "dropWhile is_trim_char s = []" by (simp add: dropWhile_eq_Nil_conv)
  moreover have "dropWhile is_trim_char ([CHR 0x0A] @ s @ [CHR 0x0A]) = []"
    using True by (auto simp: dropWhile_eq_Nil_conv is_trim_char_def)
  ultimately show ?thesis unfolding trim_sv_def by (simp only: rev.simps dropWhile.simps)
next
  case False
  then obtain c where "c \<in> set s" "\<not> is_trim_char c" by auto
  then have "dropWhile is_trim_char (s @ [CHR 0x0A]) = dropWhile is_trim_char s @ [CHR 0x0A]"
    by (rule dropWhile_append1)
  then show ?thesis by (simp add: trim_sv_def is_trim_char_def)
qed

lemma sfind_inside: "sfind p (u @ p @ v) \<noteq> None"
  by (auto simp: sfind_None_iff)

lemma line_window_shape:
  assumes "line_window body \<noteq> []"
  shows "CHR 0x0A \<notin> set (line_window body)" "prefix ''lines '' (line_window body)"
  using assms by (auto simp: line_window_def Let_def split: if_splits dest: set_takeWhileD)

text \<open>A record that was written is recognised as one, also after its edges are trimmed.\<close>

lemma record_again:
  assumes "CHR 0x0A \<notin> set name" "CHR 0x0A \<notin> set detail" "name = [] \<or> \<not> is_trim_char (hd name)"
  shows "already_record (trim_sv (record_line name detail body)) name"
proof -
  define target where "target = tool_label name @ (if detail = [] then [] else '' '' @ detail) @ '',''"
  obtain num tail where r: "record_line name detail body = (target @ num @ '' lines'') @ tail"
    and nl: "CHR 0x0A \<notin> set num" "CHR 0x0A \<notin> set tail"
  proof (cases "line_window body = []")
    case True
    have "CHR 0x0A \<notin> set (decimal (line_count body))"
      using decimal_digits [of "line_count body"] by (auto simp: is_digit_char_def)
    with True that [of "'' '' @ decimal (line_count body)" "[]"] show thesis
      by (simp add: record_line_def target_def Let_def)
  next
    case False
    from line_window_shape [OF False] obtain w where "line_window body = ''lines '' @ w" by (auto simp: prefix_def)
    with False line_window_shape(1) [OF False] that [of "[]" "'' '' @ w"] show thesis
      by (simp add: record_line_def target_def Let_def)
  qed
  let ?q = "target @ num @ '' lines''"
  have label: "tool_label name \<noteq> [] \<and> \<not> is_trim_char (hd (tool_label name)) \<and> CHR 0x0A \<notin> set (tool_label name)"
    using assms(1,3) by (auto simp: tool_label_def is_trim_char_def)
  then have "hd ?q = hd (tool_label name)" by (simp add: target_def hd_append)
  with label obtain y' where y': "trim_sv (?q @ tail) = ?q @ y'" "set y' \<subseteq> set tail"
    using trim_sv_keeps [of ?q tail] by (auto simp: target_def is_trim_char_def)
  have "prefix (tool_label name) (?q @ y')" by (simp add: target_def)
  moreover have "sfind '' lines'' (?q @ y') \<noteq> None"
    using sfind_inside [of "'' lines''" "target @ num" y'] by simp
  moreover have "CHR 0x0A \<notin> set (?q @ y')"
    using label assms(2) nl y'(2) by (auto simp: target_def)
  ultimately show ?thesis unfolding r y'(1) already_record_def by blast
qed

lemma cut_at_parts: "cut_at m s = Some (u, v) \<Longrightarrow> set u \<subseteq> set s \<and> set v \<subseteq> set s"
  by (auto dest!: cut_at_Some)

lemma attribute_part: "set (tag_attribute tag key) \<subseteq> set tag"
proof (cases "cut_at (key @ ''='' @ [CHR 0x22]) tag")
  case (Some p)
  obtain u v where uv: "p = (u, v)" by fastforce
  show ?thesis
  proof (cases "cut_at [CHR 0x22] v")
    case (Some q)
    obtain a b where "q = (a, b)" by fastforce
    with cut_at_parts [of "key @ ''='' @ [CHR 0x22]" tag u v] cut_at_parts [of "[CHR 0x22]" v a b] Some uv
      \<open>cut_at (key @ _ @ _) tag = Some p\<close>
    show ?thesis by (auto simp: tag_attribute_def)
  qed (use Some uv in \<open>simp add: tag_attribute_def\<close>)
qed (simp add: tag_attribute_def)

lemma short_body_again: "clean_attrs attrs \<Longrightarrow> short_body (tag_of attrs) (short_body (tag_of attrs) body) = short_body (tag_of attrs) body"
proof -
  assume attrs: "clean_attrs attrs"
  let ?tag = "tag_of attrs"
  have no_nl: "CHR 0x0A \<notin> set ?tag" using attrs by (auto simp: clean_attrs_def tag_of_def k_tool_open_def list_all_iff)
  show ?thesis
  proof (cases "keeps_body ?tag body")
    case False
    have "already_record (trim_sv (record_line (tag_attribute ?tag ''name'') (tag_attribute ?tag ''detail'') (trim_sv body)))
        (tag_attribute ?tag ''name'')"
      using attribute_part [of ?tag] no_nl attrs by (intro record_again) (auto simp: clean_attrs_def Let_def)
    then have "keeps_body ?tag (short_body ?tag body)"
      using False by (simp only: short_body_def if_False trim_sv_lines keeps_body_def Let_def) blast
    then show ?thesis by (simp only: short_body_def [of ?tag "short_body ?tag body"] if_True)
  qed (simp add: short_body_def)
qed

lemma safe_char: "is_alnum_char c \<or> c = CHR ''_'' \<or> c = CHR ''-'' \<Longrightarrow>
  c \<noteq> CHR ''<'' \<and> c \<noteq> CHR ''>'' \<and> c \<noteq> CHR 0x0A \<and> c \<noteq> CHR 0x22 \<and> \<not> is_trim_char c"
  by (auto simp: is_alnum_char_def is_digit_char_def is_upper_char_def is_lower_char_def is_trim_char_def)

lemma safe_name_chars:
  "safe_name name \<Longrightarrow> c \<in> set name \<Longrightarrow>
   c \<noteq> CHR ''<'' \<and> c \<noteq> CHR ''>'' \<and> c \<noteq> CHR 0x0A \<and> c \<noteq> CHR 0x22 \<and> \<not> is_trim_char c"
  by (rule safe_char) (simp add: safe_name_def list_all_iff)

lemma sanitized_chars: "c \<in> set (sanitize_detail d) \<Longrightarrow> c \<noteq> CHR ''<'' \<and> c \<noteq> CHR ''>'' \<and> c \<noteq> CHR 0x0A \<and> c \<noteq> CHR 0x22"
  by (auto simp: sanitize_detail_def strip_spaces_def detail_char_def dest!: set_dropWhileD in_set_takeD set_takeWhileD)

definition open_attrs :: "string \<Rightarrow> string \<Rightarrow> string" where
  "open_attrs name detail =
     (if safe_name name then '' name='' @ [CHR 0x22] @ name @ [CHR 0x22] else []) @
     (if sanitize_detail detail = [] then [] else '' detail='' @ [CHR 0x22] @ sanitize_detail detail @ [CHR 0x22])"

lemma tool_response_open_tag: "tool_response_open name detail = tag_of (open_attrs name detail)"
  by (simp add: tool_response_open_def open_attrs_def tag_of_def Let_def)

lemma name_attribute_named:
  assumes "safe_name name"
  shows "tag_attribute (tag_of (open_attrs name detail)) ''name'' = name"
proof -
  let ?m = "''name='' @ [CHR 0x22]"
  let ?after = "(if sanitize_detail detail = [] then [] else '' detail='' @ [CHR 0x22] @ sanitize_detail detail @ [CHR 0x22]) @ ''>''"
  have tag: "tag_of (open_attrs name detail) = ''<tool_response '' @ ?m @ name @ [CHR 0x22] @ ?after"
    using assms by (simp add: tag_of_def open_attrs_def k_tool_open_def)
  have "sfind ?m ''<tool_response '' = None" by code_simp
  then have "cut_at ?m (tag_of (open_attrs name detail)) = Some (''<tool_response '', name @ [CHR 0x22] @ ?after)"
    using cut_at_put [of "CHR ''n''" "''ame='' @ [CHR 0x22]" "''<tool_response ''"] tag by simp
  moreover have "CHR 0x22 \<notin> set name"
    using safe_name_chars [OF assms] by blast
  then have "cut_at [CHR 0x22] (name @ [CHR 0x22] @ ?after) = Some (name, ?after)"
    by (intro cut_at_put) (simp_all add: sfind_char_None)
  ultimately show ?thesis by (simp add: tag_attribute_def)
qed

lemma name_attribute_unnamed:
  assumes "\<not> safe_name name"
  shows "tag_attribute (tag_of (open_attrs name detail)) ''name'' = []"
proof (cases "cut_at (''name='' @ [CHR 0x22]) (tag_of (open_attrs name detail))")
  case (Some p)
  obtain u v where p: "p = (u, v)" by fastforce
  let ?q = "CHR 0x22"
  have eq: "tag_of (open_attrs name detail) = (u @ ''name='') @ ?q # v" using cut_at_Some [of _ _ u v] Some p by fastforce
  have "?q \<notin> set v"
  proof
    assume v: "?q \<in> set v"
    show False
    proof (cases "sanitize_detail detail = []")
      case True
      with assms eq have "?q \<in> set ''<tool_response>''"
        by (simp add: tag_of_def open_attrs_def k_tool_open_def)
      then show False by simp
    next
      case False
      let ?x = "''<tool_response detail=''"
      have tag: "tag_of (open_attrs name detail) = ?x @ ?q # (sanitize_detail detail @ ?q # ''>'')"
        using False assms by (simp add: tag_of_def open_attrs_def k_tool_open_def)
      have "?q \<notin> set (sanitize_detail detail)" using sanitized_chars by blast
      from v obtain v1 v2 where "v = v1 @ ?q # v2" by (meson split_list)
      with eq tag have e: "?x @ ?q # (sanitize_detail detail @ ?q # ''>'') = (u @ ''name='') @ ?q # v1 @ ?q # v2" by simp
      have "length (filter (\<lambda>c. c = ?q) (u @ ''name='')) = 0"
      proof -
        have "length (filter (\<lambda>c. c = ?q) (?x @ ?q # (sanitize_detail detail @ ?q # ''>''))) = 2"
          using \<open>?q \<notin> set (sanitize_detail detail)\<close> by (auto simp: filter_empty_conv)
        with e show ?thesis by simp
      qed
      then have "?q \<notin> set (u @ ''name='')" 
        unfolding length_0_conv filter_empty_conv by blast
      moreover have "?q \<notin> set ?x" by simp
      ultimately have "?x = u @ ''name=''"
        using e takeWhile_before [of ?q ?x] takeWhile_before [of ?q "u @ ''name=''"] by metis
      then have "rev ''name='' = take 5 (rev ?x)" by simp
      then show False by simp
    qed
  qed
  then have "cut_at [?q] v = None" using sfind_char_None [of ?q v] by (simp add: cut_at_def)
  with Some p show ?thesis by (simp add: tag_attribute_def)
qed (simp add: tag_attribute_def)

lemma open_attrs_clean: "clean_attrs (open_attrs name detail)"
proof -
  let ?P = "\<lambda>c. c \<noteq> CHR ''<'' \<and> c \<noteq> CHR ''>'' \<and> c \<noteq> CHR 0x0A"
  have "list_all ?P name" if "safe_name name"
    using safe_name_chars [OF that] by (simp add: list_all_iff)
  moreover have "list_all ?P (sanitize_detail detail)"
    using sanitized_chars [of _ detail] by (simp add: list_all_iff)
  ultimately have "list_all ?P (open_attrs name detail)" by (simp add: open_attrs_def)
  moreover have "name = [] \<or> \<not> is_trim_char (hd name)" if "safe_name name"
    using safe_name_chars [OF that, of "hd name"] by (cases name) simp_all
  ultimately show ?thesis
    using name_attribute_named [of name detail] name_attribute_unnamed [of name detail]
    by (cases "safe_name name") (simp_all add: clean_attrs_def Let_def)
qed


definition demo_tool_body :: string where
  "demo_tool_body = [CHR 0x0A] @ ''a'' @ [CHR 0x0A] @ ''b'' @ [CHR 0x0A] @ ''c'' @ [CHR 0x0A] @ ''d'' @ [CHR 0x0A]"


end
