(* ===== verification/Session.thy ===== *)
theory Session
  imports Session_Models Tool_History Response_Stream
begin

text \<open>
  \<open>Session\<close> of \<open>src/server/sessions/sessions.cpp\<close>: one conversation and the state machine of its turns.
  Every method holds the session's mutex, so each is one function on the record. A task is known by
  its key; \<open>complete_job\<close> takes the task's status. The two clocks (wall seconds and steady time) are
  arguments. The prompt of the model family and the reading of answers are those of the adapter.
\<close>

section \<open>State\<close>

record 'j session =
  sn_id :: nat
  sn_system_prompt :: string
  sn_messages :: "'j chat_message list"
  sn_tools :: "chat_tool list"
  sn_max_tokens :: int
  sn_turn_max_tokens :: int
  sn_context_used :: int
  sn_context_size :: int
  sn_active_job :: "nat option"
  sn_latest_finished :: "nat option"
  sn_state :: session_state
  sn_last_error :: string
  sn_error_code :: string
  sn_rollback_armed :: bool
  sn_rollback_state :: session_state
  sn_rollback_tools :: "'j parsed_tool_call list"
  sn_rollback_question :: "parsed_question option"
  sn_pending_tool_calls :: "'j parsed_tool_call list"
  sn_pending_question :: "parsed_question option"
  sn_questions_enabled :: bool
  sn_compress_tools :: bool
  sn_last_active :: int
  sn_updated_at :: int

datatype session_error = Busy string | Bad_body string | Not_found string

type_synonym clocks = "int \<times> int"

definition new_session :: "nat \<Rightarrow> clocks \<Rightarrow> 'j session" where
  "new_session sid clk = \<lparr> sn_id = sid, sn_system_prompt = [], sn_messages = [], sn_tools = [], sn_max_tokens = -1,
     sn_turn_max_tokens = -1, sn_context_used = 0, sn_context_size = 0, sn_active_job = None,
     sn_latest_finished = None, sn_state = Idle, sn_last_error = [], sn_error_code = [],
     sn_rollback_armed = False, sn_rollback_state = Idle, sn_rollback_tools = [], sn_rollback_question = None,
     sn_pending_tool_calls = [], sn_pending_question = None, sn_questions_enabled = True,
     sn_compress_tools = True, sn_last_active = snd clk, sn_updated_at = fst clk \<rparr>"

definition mark_updated :: "clocks \<Rightarrow> 'j session \<Rightarrow> 'j session" where
  "mark_updated clk s = s\<lparr> sn_updated_at := fst clk, sn_last_active := snd clk \<rparr>"

definition touch :: "clocks \<Rightarrow> 'j session \<Rightarrow> 'j session" where
  "touch clk s = s\<lparr> sn_last_active := snd clk \<rparr>"

definition set_context_usage :: "int \<Rightarrow> int \<Rightarrow> 'j session \<Rightarrow> 'j session" where
  "set_context_usage used total_ctx s =
     (let s = s\<lparr> sn_context_used := max 0 used \<rparr>
      in if 0 < total_ctx then s\<lparr> sn_context_size := total_ctx \<rparr> else s)"

definition tracks_job :: "nat \<Rightarrow> 'j session \<Rightarrow> bool" where
  "tracks_job k s \<longleftrightarrow> sn_active_job s = Some k \<or> sn_latest_finished s = Some k"

text \<open>\<open>live\<close> is \<open>Jobs::get_task\<close>.\<close>

definition resolve_job :: "nat \<Rightarrow> (nat \<Rightarrow> bool) \<Rightarrow> 'j session \<Rightarrow> nat option" where
  "resolve_job k live s =
     (if \<not> tracks_job k s then None
      else if live k then Some k
      else if sn_latest_finished s = Some k then Some k else None)"

definition is_gc_idle :: "'j session \<Rightarrow> bool" where
  "is_gc_idle s \<longleftrightarrow>
     \<not> (sn_active_job s \<noteq> None \<or> sn_state s = Generating) \<and>
     sn_state s \<noteq> AwaitingTools \<and> sn_state s \<noteq> AwaitingQuestion"

definition shown_state :: "'j session \<Rightarrow> session_state" where
  "shown_state s = (if sn_active_job s \<noteq> None then Generating else sn_state s)"

definition to_response :: "bool \<Rightarrow> 'j session \<Rightarrow> 'j session_response" where
  "to_response with_messages s = \<lparr> sr_id = sn_id s, sr_system_prompt = sn_system_prompt s,
     sr_messages = (if with_messages then sn_messages s else []), sr_active_job_key = sn_active_job s,
     sr_state = shown_state s, sr_pending_tool_calls = sn_pending_tool_calls s,
     sr_pending_question = sn_pending_question s, sr_questions = sn_questions_enabled s,
     sr_compress_tools = sn_compress_tools s, sr_error = sn_last_error s, sr_error_code = sn_error_code s,
     sr_context_used = sn_context_used s, sr_context_size = sn_context_size s,
     sr_include_messages = with_messages \<rparr>"

section \<open>Records of sessions\<close>

record 'j session_record =
  rec_id :: nat
  rec_system_prompt :: string
  rec_messages :: "'j chat_message list"
  rec_tools :: "chat_tool list"
  rec_questions :: bool
  rec_compress_tools :: bool
  rec_max_tokens :: int
  rec_state :: session_state
  rec_pending_tool_calls :: "'j parsed_tool_call list"
  rec_pending_question :: "parsed_question option"
  rec_error :: string
  rec_error_code :: string
  rec_context_used :: int
  rec_context_size :: int
  rec_updated_at :: int

definition record_of :: "'j session \<Rightarrow> 'j session_record" where
  "record_of s = \<lparr> rec_id = sn_id s, rec_system_prompt = sn_system_prompt s, rec_messages = sn_messages s,
     rec_tools = sn_tools s, rec_questions = sn_questions_enabled s, rec_compress_tools = sn_compress_tools s,
     rec_max_tokens = sn_max_tokens s, rec_state = shown_state s,
     rec_pending_tool_calls = sn_pending_tool_calls s, rec_pending_question = sn_pending_question s,
     rec_error = sn_last_error s, rec_error_code = sn_error_code s, rec_context_used = sn_context_used s,
     rec_context_size = sn_context_size s, rec_updated_at = sn_updated_at s \<rparr>"

definition restore :: "'j session_record \<Rightarrow> clocks \<Rightarrow> 'j session \<Rightarrow> 'j session" where
  "restore r clk s =
     (let s = s\<lparr> sn_system_prompt := rec_system_prompt r, sn_messages := rec_messages r, sn_tools := rec_tools r,
                sn_questions_enabled := rec_questions r, sn_compress_tools := rec_compress_tools r,
                sn_max_tokens := rec_max_tokens r, sn_turn_max_tokens := rec_max_tokens r,
                sn_context_used := max 0 (rec_context_used r), sn_context_size := max 0 (rec_context_size r),
                sn_updated_at := max 0 (rec_updated_at r), sn_last_error := rec_error r,
                sn_error_code := rec_error_code r, sn_active_job := None, sn_latest_finished := None \<rparr>;
          s = (if rec_state r = Generating \<or> rec_state r = Unknown_state
               then s\<lparr> sn_state := Idle, sn_pending_tool_calls := [], sn_pending_question := None \<rparr>
               else s\<lparr> sn_state := rec_state r, sn_pending_tool_calls := rec_pending_tool_calls r,
                        sn_pending_question := rec_pending_question r \<rparr>)
      in s\<lparr> sn_last_active := snd clk \<rparr>)"

record 'j session_clone =
  cl_system_prompt :: string
  cl_messages :: "'j chat_message list"
  cl_tools :: "chat_tool list"
  cl_questions :: bool
  cl_compress_tools :: bool
  cl_max_tokens :: int

definition capture_session :: "string list \<Rightarrow> 'j session \<Rightarrow> 'j session_clone" where
  "capture_session omit s = \<lparr> cl_system_prompt = sn_system_prompt s, cl_messages = sn_messages s,
     cl_tools = filter (\<lambda>t. tool_spec_name t \<notin> set omit) (sn_tools s),
     cl_questions = sn_questions_enabled s, cl_compress_tools = sn_compress_tools s,
     cl_max_tokens = sn_max_tokens s \<rparr>"

definition load_clone :: "'j session_clone \<Rightarrow> clocks \<Rightarrow> 'j session \<Rightarrow> 'j session" where
  "load_clone c clk s = mark_updated clk
     (s\<lparr> sn_system_prompt := cl_system_prompt c, sn_messages := cl_messages c, sn_tools := cl_tools c,
         sn_questions_enabled := cl_questions c, sn_compress_tools := cl_compress_tools c,
         sn_max_tokens := cl_max_tokens c, sn_turn_max_tokens := cl_max_tokens c \<rparr>)"

definition configure :: "'j model_adapter \<Rightarrow> 'j create_request \<Rightarrow> clocks \<Rightarrow> 'j session \<Rightarrow> 'j session" where
  "configure adapter req clk s = mark_updated clk
     (s\<lparr> sn_questions_enabled := cr_questions req, sn_compress_tools := cr_compress_tools req,
         sn_tools := cr_tools req,
         sn_system_prompt := default_agent_system_prompt adapter (cr_tools req) (cr_system req)
           (cr_questions req) (cr_compress_tools req),
         sn_messages := cr_messages req, sn_max_tokens := cr_max_tokens req,
         sn_turn_max_tokens := cr_max_tokens req \<rparr>)"

section \<open>Turns\<close>

definition clear_pending :: "'j session \<Rightarrow> 'j session" where
  "clear_pending s = s\<lparr> sn_pending_tool_calls := [], sn_pending_question := None \<rparr>"

definition shrink_stored_tool_results :: "'j session \<Rightarrow> 'j session" where
  "shrink_stored_tool_results s =
     (if \<not> sn_compress_tools s then s
      else s\<lparr> sn_messages := map (\<lambda>m. m\<lparr> msg_content := shrink_tool_responses (msg_content m) \<rparr>) (sn_messages s) \<rparr>)"

definition generation_active :: "'j session \<Rightarrow> bool" where
  "generation_active s \<longleftrightarrow> sn_active_job s \<noteq> None \<or> sn_state s = Generating"

definition busy_error :: session_error where
  "busy_error = Busy ''session already has an active generation''"

definition denied_body :: "tool_result_item \<Rightarrow> string" where
  "denied_body r =
     (if tr_name r \<noteq> []
      then ''error: tool execution was denied by the user for tool '' @ [CHR 0x27] @ tr_name r @ [CHR 0x27] @ ''.''
      else if tr_id r \<noteq> []
      then ''error: tool execution was denied by the user for tool id '' @ [CHR 0x27] @ tr_id r @ [CHR 0x27] @ ''.''
      else ''error: tool execution was denied by the user.'')"

definition format_tool_result :: "bool \<Rightarrow> tool_result_item \<Rightarrow> string" where
  "format_tool_result annotate r =
     (if annotate then tool_response_open (tr_name r) (tr_detail r) else ''<tool_response>'') @ [CHR 0x0A] @
     (if tr_denied r then denied_body r else tr_content r) @ [CHR 0x0A] @ ''</tool_response>''"

fun format_tool_results :: "bool \<Rightarrow> string \<Rightarrow> tool_result_item list \<Rightarrow> string" where
  "format_tool_results annotate combined [] = combined"
| "format_tool_results annotate combined (r # rs) =
     format_tool_results annotate
       (combined @ (if combined = [] then [] else [CHR 0x0A]) @ format_tool_result annotate r) rs"

definition arm_rollback :: "'j session \<Rightarrow> 'j session" where
  "arm_rollback s = s\<lparr> sn_rollback_armed := True, sn_rollback_state := sn_state s,
     sn_rollback_tools := sn_pending_tool_calls s, sn_rollback_question := sn_pending_question s \<rparr>"

definition disarm_rollback :: "'j session \<Rightarrow> 'j session" where
  "disarm_rollback s = s\<lparr> sn_rollback_armed := False, sn_rollback_tools := [], sn_rollback_question := None \<rparr>"

definition rollback_last_turn :: "'j session \<Rightarrow> 'j session" where
  "rollback_last_turn s =
     (if sn_rollback_armed s \<and> sn_messages s \<noteq> [] \<and> role (last (sn_messages s)) = role_user
      then s\<lparr> sn_messages := butlast (sn_messages s), sn_pending_tool_calls := sn_rollback_tools s,
               sn_pending_question := sn_rollback_question s, sn_state := sn_rollback_state s \<rparr>
      else clear_pending (s\<lparr> sn_state := Idle \<rparr>))"

definition text_message :: "string \<Rightarrow> string \<Rightarrow> 'j chat_message" where
  "text_message who content = \<lparr> role = who, msg_content = content, reasoning_content = [],
     tool_call_id = [], tool_name = [], tool_calls = [] \<rparr>"

definition accept_user_message :: "session_message \<Rightarrow> clocks \<Rightarrow> 'j session \<Rightarrow> session_error + 'j session" where
  "accept_user_message msg clk s =
     (if generation_active s then Inl busy_error
      else
        let turn_finished = (sn_state s = Idle);
            s = (clear_pending (arm_rollback s))\<lparr> sn_state := Idle \<rparr>;
            s = (if turn_finished then shrink_stored_tool_results s else s)
        in Inr (mark_updated clk
             (s\<lparr> sn_messages := sn_messages s @ [text_message (sm_role msg) (sm_content msg)],
                 sn_turn_max_tokens := (if 0 \<le> sm_max_tokens msg then sm_max_tokens msg else sn_max_tokens s) \<rparr>)))"

definition accept_tool_results ::
  "tool_result_item list \<Rightarrow> clocks \<Rightarrow> 'j session \<Rightarrow> session_error + 'j session" where
  "accept_tool_results results clk s =
     (if generation_active s then Inl busy_error
      else if sn_state s \<noteq> AwaitingTools \<and> sn_pending_tool_calls s = []
      then Inl (Bad_body ''session is not awaiting tool results'')
      else
        let s = arm_rollback s;
            s = s\<lparr> sn_messages := sn_messages s @
                     [text_message role_user (format_tool_results (sn_compress_tools s) [] results)],
                   sn_turn_max_tokens := sn_max_tokens s \<rparr>
        in Inr (mark_updated clk ((clear_pending s)\<lparr> sn_state := Idle \<rparr>)))"

text \<open>The request that is put on the task, and the session that waits for it.\<close>

definition generation_request :: "'j session \<Rightarrow> 'j messages_request" where
  "generation_request s = \<lparr> req_system = sn_system_prompt s, req_messages = sn_messages s,
     req_session_id = decimal (sn_id s), req_max_tokens = sn_turn_max_tokens s, req_temperature = -1,
     req_tools = sn_tools s, req_namespaces = [] \<rparr>"

definition begin_generation ::
  "nat \<Rightarrow> clocks \<Rightarrow> 'j session \<Rightarrow> session_error + 'j messages_request \<times> 'j session" where
  "begin_generation key clk s =
     (if generation_active s then Inl busy_error
      else Inr (generation_request s,
        (clear_pending s)\<lparr> sn_state := Generating, sn_last_active := snd clk, sn_active_job := Some key,
          sn_latest_finished := None \<rparr>))"

text \<open>\<open>Task::to_status\<close>.\<close>

definition to_status :: "nat \<Rightarrow> 'j task \<Rightarrow> 'j message_status" where
  "to_status key t = \<lparr> ms_key = key, ms_state = t_state t, ms_done = is_finished (t_state t),
     ms_content = t_result t, ms_error = t_error t, ms_error_code = t_error_code t,
     ms_reasoning = t_reasoning t, ms_calls = t_calls t, ms_question = t_question t \<rparr>"

definition actions_from_status ::
  "('j, 'z) json_api_scheme \<Rightarrow> 'j model_adapter \<Rightarrow> 'j message_status \<Rightarrow> 'j parsed_actions" where
  "actions_from_status js adapter status =
     (let actions = no_actions\<lparr> pa_tool_calls := ms_calls status, pa_question := ms_question status \<rparr>
      in if pa_tool_calls actions = [] \<and> pa_question actions = None \<and> ms_content status \<noteq> []
         then parse_assistant_actions js adapter (ms_content status) else actions)"

definition failed_turn :: "'j message_status \<Rightarrow> 'j session \<Rightarrow> 'j session" where
  "failed_turn status s =
     (let s = s\<lparr> sn_last_error := (if ms_error status = [] then ''generation failed'' else ms_error status),
                sn_error_code := ms_error_code status \<rparr>;
          s = (if ms_error_code status = k_context_full then rollback_last_turn s
               else clear_pending (s\<lparr> sn_state := Idle \<rparr>))
      in disarm_rollback s)"

definition await_actions :: "'j parsed_actions \<Rightarrow> 'j session \<Rightarrow> 'j session" where
  "await_actions actions s =
     (let s = clear_pending s in
      if pa_tool_calls actions \<noteq> []
      then s\<lparr> sn_pending_tool_calls := pa_tool_calls actions, sn_pending_question := pa_question actions,
               sn_state := AwaitingTools \<rparr>
      else if pa_question actions \<noteq> None
      then s\<lparr> sn_pending_question := pa_question actions, sn_state := AwaitingQuestion \<rparr>
      else s\<lparr> sn_state := Idle \<rparr>)"

definition answer_message :: "'j message_status \<Rightarrow> 'j chat_message list" where
  "answer_message status =
     (if ms_content status = [] \<and> ms_reasoning status = [] then []
      else [(text_message role_assistant (ms_content status))\<lparr> reasoning_content := ms_reasoning status \<rparr>])"

definition done_turn ::
  "('j, 'z) json_api_scheme \<Rightarrow> 'j model_adapter \<Rightarrow> 'j message_status \<Rightarrow> 'j session \<Rightarrow> 'j session" where
  "done_turn js adapter status s =
     (let s = disarm_rollback (s\<lparr> sn_last_error := [], sn_error_code := [] \<rparr>);
          s = s\<lparr> sn_messages := sn_messages s @ answer_message status \<rparr>;
          actions = actions_from_status js adapter status;
          actions = (if sn_questions_enabled s then actions else actions\<lparr> pa_question := None \<rparr>)
      in await_actions actions s)"

text \<open>The job is over: the context numbers it measured and its task are kept.\<close>

definition job_over :: "nat \<Rightarrow> 'j task \<Rightarrow> clocks \<Rightarrow> 'j session \<Rightarrow> 'j session" where
  "job_over key t clk s =
     (let s = (if 0 < t_context_size t
               then s\<lparr> sn_context_used := max 0 (t_context_used t), sn_context_size := t_context_size t \<rparr> else s)
      in (mark_updated clk (s\<lparr> sn_active_job := None \<rparr>))\<lparr> sn_latest_finished := Some key \<rparr>)"

definition cancelled_turn :: "'j session \<Rightarrow> 'j session" where
  "cancelled_turn s =
     disarm_rollback (clear_pending (s\<lparr> sn_last_error := [], sn_error_code := [], sn_state := Idle \<rparr>))"

definition complete_job ::
  "('j, 'z) json_api_scheme \<Rightarrow> 'j model_adapter \<Rightarrow> nat \<Rightarrow> 'j task \<Rightarrow> clocks \<Rightarrow> 'j session \<Rightarrow> 'j session" where
  "complete_job js adapter key t clk s =
     (if sn_active_job s \<noteq> Some key then s
      else
        let status = to_status key t; s = job_over key t clk s
        in if ms_state status = Error then failed_turn status s
           else if ms_state status \<noteq> Done then cancelled_turn s
           else done_turn js adapter status s)"

end
