(* ===== verification/Session_Turns.thy ===== *)
theory Session_Turns
  imports Session
begin

text \<open>
  How a session moves: the steps of \<open>Session\<close> as a relation, the invariant of every session that
  can arise (created, cloned, or restored from its record), and what a turn does to the conversation
  when it succeeds, fails or does not fit the context.
\<close>

section \<open>Steps\<close>

inductive session_step :: "('j, 'z) json_api_scheme \<Rightarrow> 'j model_adapter \<Rightarrow> 'j session \<Rightarrow> 'j session \<Rightarrow> bool"
  for js adapter where
  step_user: "accept_user_message msg clk s = Inr s' \<Longrightarrow> session_step js adapter s s'"
| step_results: "accept_tool_results results clk s = Inr s' \<Longrightarrow> session_step js adapter s s'"
| step_begin: "begin_generation key clk s = Inr (req, s') \<Longrightarrow> session_step js adapter s s'"
| step_complete: "session_step js adapter s (complete_job js adapter key t clk s)"
| step_usage: "session_step js adapter s (set_context_usage used total_ctx s)"
| step_touch: "session_step js adapter s (touch clk s)"
| step_updated: "session_step js adapter s (mark_updated clk s)"

inductive session_reachable :: "('j, 'z) json_api_scheme \<Rightarrow> 'j model_adapter \<Rightarrow> 'j session \<Rightarrow> bool"
  for js adapter where
  created: "session_reachable js adapter (configure adapter req clk (new_session sid clk'))"
| cloned: "session_reachable js adapter s \<Longrightarrow>
    session_reachable js adapter (load_clone (capture_session omit s) clk (new_session sid clk'))"
| restored: "session_reachable js adapter s \<Longrightarrow>
    session_reachable js adapter (restore (record_of s) clk (new_session (sn_id s) clk'))"
| stepped: "session_reachable js adapter s \<Longrightarrow> session_step js adapter s s' \<Longrightarrow> session_reachable js adapter s'"

section \<open>The invariant\<close>

text \<open>What is pending in which state.\<close>

fun waits_for :: "session_state \<Rightarrow> 'j parsed_tool_call list \<Rightarrow> parsed_question option \<Rightarrow> bool" where
  "waits_for Unknown_state calls q \<longleftrightarrow> False"
| "waits_for Idle calls q \<longleftrightarrow> calls = [] \<and> q = None"
| "waits_for Generating calls q \<longleftrightarrow> calls = [] \<and> q = None"
| "waits_for AwaitingTools calls q \<longleftrightarrow> calls \<noteq> []"
| "waits_for AwaitingQuestion calls q \<longleftrightarrow> calls = [] \<and> q \<noteq> None"

definition rollback_ok :: "'j session \<Rightarrow> bool" where
  "rollback_ok s \<longleftrightarrow>
     (sn_rollback_armed s \<longrightarrow> sn_rollback_state s \<noteq> Generating \<and>
        waits_for (sn_rollback_state s) (sn_rollback_tools s) (sn_rollback_question s)) \<and>
     (\<not> sn_questions_enabled s \<longrightarrow> sn_rollback_question s = None)"

definition session_inv :: "'j session \<Rightarrow> bool" where
  "session_inv s \<longleftrightarrow>
     (sn_active_job s \<noteq> None \<longleftrightarrow> sn_state s = Generating) \<and>
     waits_for (sn_state s) (sn_pending_tool_calls s) (sn_pending_question s) \<and>
     (\<not> sn_questions_enabled s \<longrightarrow> sn_pending_question s = None) \<and> rollback_ok s \<and>
     0 \<le> sn_context_used s \<and> 0 \<le> sn_context_size s \<and> (sn_error_code s \<noteq> [] \<longrightarrow> sn_last_error s \<noteq> [])"

lemmas turn_defs = mark_updated_def touch_def set_context_usage_def clear_pending_def arm_rollback_def
  disarm_rollback_def shrink_stored_tool_results_def generation_active_def Let_def

lemma new_session_inv: "session_inv (new_session sid clk)"
  by (simp add: session_inv_def rollback_ok_def new_session_def)

lemma armed_inv:
  assumes "session_inv s" and "\<not> generation_active s"
  shows "session_inv ((clear_pending (arm_rollback s))\<lparr> sn_state := Idle \<rparr>)"
  using assms by (simp add: session_inv_def rollback_ok_def clear_pending_def arm_rollback_def generation_active_def)

lemma session_inv_bookkeeping [simp]:
  "session_inv (s\<lparr> sn_messages := ms \<rparr>) = session_inv s"
  "session_inv (s\<lparr> sn_turn_max_tokens := n \<rparr>) = session_inv s"
  "session_inv (s\<lparr> sn_last_active := tick \<rparr>) = session_inv s"
  "session_inv (mark_updated clk s) = session_inv s"
  "session_inv (touch clk s) = session_inv s"
  "session_inv (shrink_stored_tool_results s) = session_inv s"
  by (simp_all add: session_inv_def rollback_ok_def mark_updated_def touch_def shrink_stored_tool_results_def)

lemma accept_user_inv: "session_inv s \<Longrightarrow> accept_user_message msg clk s = Inr s' \<Longrightarrow> session_inv s'"
  using armed_inv [of s] unfolding accept_user_message_def Let_def by (auto split: if_splits)

lemma accept_results_inv:
  assumes "session_inv s" and "accept_tool_results results clk s = Inr s'"
  shows "session_inv s'"
proof -
  have a: "\<not> generation_active s"
    and s': "s' = mark_updated clk ((clear_pending ((arm_rollback s)
      \<lparr> sn_messages := sn_messages s @ [text_message role_user (format_tool_results (sn_compress_tools s) [] results)],
         sn_turn_max_tokens := sn_max_tokens s \<rparr>))\<lparr> sn_state := Idle \<rparr>)"
    using assms(2) unfolding accept_tool_results_def Let_def by (simp_all add: arm_rollback_def split: if_splits)
  from armed_inv [OF assms(1) a] show ?thesis
    by (simp add: s') (simp add: session_inv_def rollback_ok_def clear_pending_def)
qed

lemma begin_inv: "session_inv s \<Longrightarrow> begin_generation key clk s = Inr (req, s') \<Longrightarrow> session_inv s'"
  by (auto simp: begin_generation_def turn_defs session_inv_def rollback_ok_def split: if_splits)

text \<open>The part of the invariant that a turn in progress has, whatever its state becomes.\<close>

definition turn_settled :: "'j session \<Rightarrow> bool" where
  "turn_settled s \<longleftrightarrow> sn_active_job s = None \<and> rollback_ok s \<and> 0 \<le> sn_context_used s \<and> 0 \<le> sn_context_size s"

lemma rollback_settled:
  assumes "turn_settled s"
  shows "sn_state (rollback_last_turn s) \<noteq> Generating"
    and "waits_for (sn_state (rollback_last_turn s)) (sn_pending_tool_calls (rollback_last_turn s))
      (sn_pending_question (rollback_last_turn s))"
    and "\<not> sn_questions_enabled s \<longrightarrow> sn_pending_question (rollback_last_turn s) = None"
    and "sn_active_job (rollback_last_turn s) = None"
    and "sn_questions_enabled (rollback_last_turn s) = sn_questions_enabled s"
    and "sn_context_used (rollback_last_turn s) = sn_context_used s"
    and "sn_context_size (rollback_last_turn s) = sn_context_size s"
    and "sn_last_error (rollback_last_turn s) = sn_last_error s"
    and "sn_error_code (rollback_last_turn s) = sn_error_code s"
  using assms by (simp_all add: turn_settled_def rollback_ok_def rollback_last_turn_def clear_pending_def)

lemma failed_turn_inv:
  assumes "turn_settled s"
  shows "session_inv (failed_turn status s)"
proof -
  define e where "e = (if ms_error status = [] then ''generation failed'' else ms_error status)"
  have e: "e \<noteq> []" by (simp add: e_def)
  let ?s = "s\<lparr> sn_last_error := e, sn_error_code := ms_error_code status \<rparr>"
  have s: "turn_settled ?s" using assms by (simp add: turn_settled_def rollback_ok_def)
  have "session_inv (disarm_rollback (rollback_last_turn ?s))"
    using rollback_settled [OF s] s e by (simp add: session_inv_def rollback_ok_def disarm_rollback_def turn_settled_def)
  moreover have "session_inv (disarm_rollback (clear_pending (?s\<lparr> sn_state := Idle \<rparr>)))"
    using assms e by (simp add: session_inv_def rollback_ok_def disarm_rollback_def clear_pending_def turn_settled_def)
  ultimately show ?thesis
    by (cases "ms_error_code status = k_context_full") (simp_all add: failed_turn_def Let_def e_def [symmetric])
qed

lemma await_inv:
  assumes "turn_settled s" and "\<not> sn_questions_enabled s \<longrightarrow> pa_question actions = None"
    and "sn_error_code s \<noteq> [] \<longrightarrow> sn_last_error s \<noteq> []"
  shows "session_inv (await_actions actions s)"
  using assms by (auto simp: turn_settled_def await_actions_def turn_defs session_inv_def rollback_ok_def)

lemma done_turn_inv:
  assumes "turn_settled s"
  shows "session_inv (done_turn js adapter status s)"
proof -
  have "turn_settled ((disarm_rollback (s\<lparr> sn_last_error := [], sn_error_code := [] \<rparr>))\<lparr> sn_messages := ms \<rparr>)" for ms
    using assms by (simp add: turn_settled_def turn_defs rollback_ok_def)
  then show ?thesis
    unfolding done_turn_def Let_def by (intro await_inv) (simp_all add: disarm_rollback_def)
qed

lemma job_over_settled: "session_inv s \<Longrightarrow> turn_settled (job_over key t clk s)"
  by (simp add: turn_settled_def session_inv_def rollback_ok_def job_over_def mark_updated_def Let_def)

lemma cancelled_turn_inv: "turn_settled s \<Longrightarrow> session_inv (cancelled_turn s)"
  by (simp add: turn_settled_def cancelled_turn_def turn_defs session_inv_def rollback_ok_def)

lemma complete_inv: "session_inv s \<Longrightarrow> session_inv (complete_job js adapter key t clk s)"
  using job_over_settled [of s key t clk]
  by (simp add: complete_job_def Let_def failed_turn_inv cancelled_turn_inv done_turn_inv)

lemma session_step_inv: "session_step js adapter s s' \<Longrightarrow> session_inv s \<Longrightarrow> session_inv s'"
proof (induction rule: session_step.induct)
  case (step_user msg clk s s')
  then show ?case by (rule accept_user_inv [rotated])
next
  case (step_results results clk s s')
  then show ?case by (rule accept_results_inv [rotated])
next
  case (step_begin key clk s req s')
  then show ?case by (rule begin_inv [rotated])
next
  case (step_complete s key t clk)
  then show ?case by (rule complete_inv)
qed (auto simp: session_inv_def rollback_ok_def turn_defs)

lemma restore_inv: "session_inv s \<Longrightarrow> session_inv (restore (record_of s) clk (new_session (sn_id s) clk'))"
  by (cases "sn_state s")
    (auto simp: session_inv_def rollback_ok_def restore_def record_of_def shown_state_def new_session_def Let_def)

lemma reachable_session_inv: "session_reachable js adapter s \<Longrightarrow> session_inv s"
proof (induction rule: session_reachable.induct)
  case (created req clk sid clk')
  show ?case using new_session_inv [of sid clk']
    by (simp add: configure_def mark_updated_def session_inv_def rollback_ok_def new_session_def)
next
  case (cloned s omit clk sid clk')
  show ?case using new_session_inv [of sid clk']
    by (simp add: load_clone_def capture_session_def mark_updated_def session_inv_def rollback_ok_def new_session_def)
qed (auto intro: restore_inv session_step_inv)

text \<open>
  Whatever clients, the worker and the clean-up do to a session, and however often it is cloned or
  restored from its file: it has a running job exactly while it is generating; in each state exactly
  what the client owes an answer to is pending; without the question protocol no question is pending;
  the context numbers are not negative; an error code comes with a message; and the clean-up may take
  it exactly when it is idle.
\<close>

theorem session_state_is_consistent:
  assumes "session_reachable js adapter s"
  shows "(sn_active_job s \<noteq> None \<longleftrightarrow> sn_state s = Generating) \<and>
    waits_for (sn_state s) (sn_pending_tool_calls s) (sn_pending_question s) \<and>
    (sn_questions_enabled s \<or> sn_pending_question s = None) \<and>
    0 \<le> sn_context_used s \<and> 0 \<le> sn_context_size s \<and>
    (sn_error_code s = [] \<or> sn_last_error s \<noteq> []) \<and>
    (is_gc_idle s \<longleftrightarrow> sn_state s = Idle)"
  using reachable_session_inv [OF assms]
  by (cases "sn_state s") (auto simp: session_inv_def is_gc_idle_def)

section \<open>What a turn does\<close>

text \<open>The two ways a client starts a turn, the message it adds, and the messages it builds on.\<close>

datatype submission = Said session_message | Returned "tool_result_item list"

definition submit :: "submission \<Rightarrow> clocks \<Rightarrow> 'j session \<Rightarrow> session_error + 'j session" where
  "submit sub clk s =
     (case sub of Said msg \<Rightarrow> accept_user_message msg clk s | Returned rs \<Rightarrow> accept_tool_results rs clk s)"

definition submitted_message :: "'j session \<Rightarrow> submission \<Rightarrow> 'j chat_message" where
  "submitted_message s sub =
     (case sub of
        Said msg \<Rightarrow> text_message (sm_role msg) (sm_content msg)
      | Returned rs \<Rightarrow> text_message role_user (format_tool_results (sn_compress_tools s) [] rs))"

definition kept_messages :: "'j session \<Rightarrow> submission \<Rightarrow> 'j chat_message list" where
  "kept_messages s sub =
     (case sub of
        Said msg \<Rightarrow> sn_messages (if sn_state s = Idle then shrink_stored_tool_results s else s)
      | Returned rs \<Rightarrow> sn_messages s)"

text \<open>What a submission leaves, seen from the turn that follows.\<close>

definition turn_view where
  "turn_view s = (sn_messages s, sn_rollback_armed s, sn_rollback_state s, sn_rollback_tools s,
     sn_rollback_question s, sn_questions_enabled s)"

lemma submit_view:
  assumes "submit sub clk s = Inr s1"
  shows "turn_view s1 = (kept_messages s sub @ [submitted_message s sub], True, sn_state s,
      sn_pending_tool_calls s, sn_pending_question s, sn_questions_enabled s)"
    and "sn_active_job s1 = None"
proof -
  have "turn_view s1 = (kept_messages s sub @ [submitted_message s sub], True, sn_state s,
      sn_pending_tool_calls s, sn_pending_question s, sn_questions_enabled s) \<and> sn_active_job s1 = None"
  proof (cases sub)
    case (Said msg)
    with assms show ?thesis
      by (cases "sn_state s = Idle"; cases "sn_compress_tools s")
        (auto simp: submit_def accept_user_message_def turn_view_def kept_messages_def submitted_message_def
          turn_defs split: if_splits)
  next
    case (Returned rs)
    with assms show ?thesis
      by (auto simp: submit_def accept_tool_results_def turn_view_def kept_messages_def submitted_message_def
          turn_defs split: if_splits)
  qed
  then show "turn_view s1 = (kept_messages s sub @ [submitted_message s sub], True, sn_state s,
      sn_pending_tool_calls s, sn_pending_question s, sn_questions_enabled s)"
    and "sn_active_job s1 = None" by simp_all
qed

lemma begin_view:
  assumes "begin_generation key clk s = Inr (req, s')"
  shows "turn_view s' = turn_view s" and "sn_active_job s' = Some key" and "req_messages req = sn_messages s"
  using assms by (auto simp: begin_generation_def turn_view_def clear_pending_def generation_request_def split: if_splits)

text \<open>
  What may happen to a session while its job runs: bookkeeping and the completion of other jobs.
  Requests are refused then.
\<close>

inductive waiting_step :: "('j, 'z) json_api_scheme \<Rightarrow> 'j model_adapter \<Rightarrow> nat \<Rightarrow> 'j session \<Rightarrow> 'j session \<Rightarrow> bool"
  for js adapter key where
  wait_usage: "waiting_step js adapter key s (set_context_usage used total_ctx s)"
| wait_touch: "waiting_step js adapter key s (touch clk s)"
| wait_updated: "waiting_step js adapter key s (mark_updated clk s)"
| wait_stale: "key' \<noteq> key \<Longrightarrow> waiting_step js adapter key s (complete_job js adapter key' t clk s)"

lemma waiting_keeps:
  "(waiting_step js adapter key)\<^sup>*\<^sup>* s s' \<Longrightarrow> sn_active_job s = Some key \<Longrightarrow>
   turn_view s' = turn_view s \<and> sn_active_job s' = Some key"
proof (induction rule: rtranclp_induct)
  case (step s' s'')
  then have s': "turn_view s' = turn_view s" "sn_active_job s' = Some key" by simp_all
  from step.hyps(2) s' show ?case
    by cases (auto simp: turn_view_def turn_defs complete_job_def)
qed simp

lemma job_over_view: "turn_view (job_over key t clk s) = turn_view s"
  by (simp add: turn_view_def job_over_def mark_updated_def Let_def)

text \<open>
  C28. A turn that does not fit the context leaves no trace but the error: its message is removed again,
  and the state, the tool calls and the question the client had to answer before are back, so the same
  client can continue. This holds for tool results and for messages of the user, whatever bookkeeping
  happens while the job runs; a message under another role is not removed.
\<close>

theorem context_full_rolls_the_turn_back:
  assumes "submit sub clk s = Inr s1" and "begin_generation key clk1 s1 = Inr (req, s2)"
    and "(waiting_step js adapter key)\<^sup>*\<^sup>* s2 s3"
    and "t_state t = Error" and "t_error_code t = k_context_full"
    and "role (submitted_message s sub) = role_user"
  shows "let s4 = complete_job js adapter key t clk2 s3 in
    sn_messages s4 = kept_messages s sub \<and> sn_state s4 = sn_state s \<and>
    sn_pending_tool_calls s4 = sn_pending_tool_calls s \<and> sn_pending_question s4 = sn_pending_question s \<and>
    sn_active_job s4 = None \<and> sn_error_code s4 = k_context_full \<and> sn_last_error s4 \<noteq> [] \<and>
    req_messages req = kept_messages s sub @ [submitted_message s sub]"
proof -
  note v1 = submit_view [OF assms(1)]
  note v2 = begin_view [OF assms(2)]
  have v3: "turn_view s3 = turn_view s1" "sn_active_job s3 = Some key"
    using waiting_keeps [OF assms(3) v2(2)] v2(1) by simp_all
  let ?s = "job_over key t clk2 s3"
  have v: "turn_view ?s = (kept_messages s sub @ [submitted_message s sub], True, sn_state s,
      sn_pending_tool_calls s, sn_pending_question s, sn_questions_enabled s)"
    using v1(1) v3(1) by (simp add: job_over_view)
  have active: "sn_active_job ?s = None" by (simp add: job_over_def mark_updated_def Let_def)
  have "complete_job js adapter key t clk2 s3 = failed_turn (to_status key t) ?s"
    using v3(2) assms(4) by (simp add: complete_job_def to_status_def Let_def)
  moreover have "req_messages req = kept_messages s sub @ [submitted_message s sub]"
    using v1(1) v2(3) by (simp add: turn_view_def)
  ultimately show ?thesis
    using v active assms(5,6)
    by (simp add: failed_turn_def rollback_last_turn_def disarm_rollback_def to_status_def turn_view_def Let_def)
qed


section \<open>Examples\<close>

definition demo_adapter :: "json_tree model_adapter" where
  "demo_adapter = make_model_adapter tree_json ''qwen'' []"

definition demo_create :: "json_tree create_request" where
  "demo_create = \<lparr> cr_id = 0, cr_system = [], cr_messages = [], cr_questions = True, cr_compress_tools = True,
     cr_tools = [], cr_max_tokens = -1 \<rparr>"

definition demo_fresh :: "json_tree session" where
  "demo_fresh = configure demo_adapter demo_create (1, 1) (new_session 5 (0, 0))"

definition demo_said :: submission where
  "demo_said = Said \<lparr> sm_content = ''hi'', sm_role = ''user'', sm_max_tokens = -1 \<rparr>"

definition demo_asked :: "json_tree session" where
  "demo_asked = projr (submit demo_said (2, 2) demo_fresh)"

definition demo_generating :: "json_tree session" where
  "demo_generating = snd (projr (begin_generation 7 (2, 3) demo_asked))"

definition demo_answer :: "json_tree task" where
  "demo_answer = (new_task False)\<lparr> t_state := Done, t_result := ''ok'', t_context_used := 3, t_context_size := 8,
     t_calls := [\<lparr> tc_id = ''1'', tc_name = ''run'', tc_arguments = J_object [] \<rparr>] \<rparr>"

definition demo_full :: "json_tree task" where
  "demo_full = (new_task False)\<lparr> t_state := Error, t_error_code := k_context_full \<rparr>"

definition demo_waiting :: "json_tree session" where
  "demo_waiting = complete_job tree_json demo_adapter 7 demo_answer (3, 4) demo_generating"

lemma demo_submit: "submit demo_said (2, 2) demo_fresh = Inr demo_asked"
  by (simp add: demo_asked_def demo_said_def submit_def accept_user_message_def demo_fresh_def configure_def
      new_session_def mark_updated_def generation_active_def Let_def)

lemma demo_asked_state: "sn_active_job demo_asked = None" "sn_state demo_asked = Idle"
  by (simp_all add: demo_asked_def demo_said_def submit_def accept_user_message_def demo_fresh_def configure_def
      new_session_def turn_defs)

lemma demo_begin: "begin_generation 7 (2, 3) demo_asked = Inr (generation_request demo_asked, demo_generating)"
  by (simp add: demo_generating_def begin_generation_def generation_active_def demo_asked_state)

lemma demo_reachable:
  "session_reachable tree_json demo_adapter demo_fresh" "session_reachable tree_json demo_adapter demo_waiting"
proof -
  show f: "session_reachable tree_json demo_adapter demo_fresh"
    unfolding demo_fresh_def by (rule created)
  have "session_step tree_json demo_adapter demo_fresh demo_asked"
    using demo_submit by (auto simp: submit_def demo_said_def intro: step_user)
  with f have "session_reachable tree_json demo_adapter demo_asked" by (rule stepped)
  then have "session_reachable tree_json demo_adapter demo_generating"
    by (rule stepped) (rule step_begin [OF demo_begin])
  then show "session_reachable tree_json demo_adapter demo_waiting"
    unfolding demo_waiting_def by (rule stepped) (rule step_complete)
qed

theorem session_state_is_consistent_witness:
  "sn_pending_tool_calls demo_waiting \<noteq> [] \<and> \<not> is_gc_idle demo_waiting"
proof -
  have "sn_state demo_waiting = AwaitingTools"
    using begin_view(2) [OF demo_begin]
    by (simp add: demo_waiting_def complete_job_def demo_answer_def to_status_def done_turn_def await_actions_def
        actions_from_status_def no_actions_def turn_defs)
  with session_state_is_consistent [OF demo_reachable(2)] show ?thesis by simp
qed

theorem context_full_rolls_the_turn_back_witness:
  "let s4 = complete_job tree_json demo_adapter 7 demo_full (3, 4) (touch (2, 5) demo_generating) in
     sn_messages s4 = [] \<and> sn_state s4 = Idle \<and> sn_error_code s4 = ''context_full''"
proof -
  have "(waiting_step tree_json demo_adapter 7)\<^sup>*\<^sup>* demo_generating (touch (2, 5) demo_generating)"
    by (intro r_into_rtranclp wait_touch)
  moreover have "t_state demo_full = Error" "t_error_code demo_full = k_context_full"
    by (simp_all add: demo_full_def)
  moreover have "role (submitted_message demo_fresh demo_said) = role_user"
    by (simp add: submitted_message_def demo_said_def text_message_def role_user_def)
  moreover have "kept_messages demo_fresh demo_said = []" "sn_state demo_fresh = Idle"
    by (simp_all add: kept_messages_def demo_said_def demo_fresh_def configure_def new_session_def
        mark_updated_def shrink_stored_tool_results_def demo_create_def)
  ultimately show ?thesis
    using context_full_rolls_the_turn_back [OF demo_submit demo_begin, of tree_json demo_adapter
        "touch (2, 5) demo_generating" demo_full "(3, 4)"]
    by (simp add: Let_def k_context_full_def)
qed


text \<open>
  A message under a role of its own is not rolled back: it stays in the conversation, and what the
  client had to answer before is lost.
\<close>

lemma other_role_stays:
  assumes "accept_user_message msg clk s = Inr s1" and "begin_generation key clk1 s1 = Inr (req, s2)"
    and "t_state t = Error" and "t_error_code t = k_context_full" and "sm_role msg \<noteq> role_user"
  shows "let s4 = complete_job js adapter key t clk2 s2 in
    sn_messages s4 = kept_messages s (Said msg) @ [text_message (sm_role msg) (sm_content msg)] \<and>
    sn_state s4 = Idle \<and> sn_pending_tool_calls s4 = []"
proof -
  have "submit (Said msg) clk s = Inr s1" using assms(1) by (simp add: submit_def)
  note v1 = submit_view [OF this]
  note v2 = begin_view [OF assms(2)]
  let ?s = "job_over key t clk2 s2"
  have v: "turn_view ?s = (kept_messages s (Said msg) @ [submitted_message s (Said msg)], True, sn_state s,
      sn_pending_tool_calls s, sn_pending_question s, sn_questions_enabled s)"
    using v1(1) v2(1) by (simp add: job_over_view)
  have "complete_job js adapter key t clk2 s2 = failed_turn (to_status key t) ?s"
    using v2(2) assms(3) by (simp add: complete_job_def to_status_def Let_def)
  then show ?thesis
    using v assms(4,5)
    by (simp add: failed_turn_def rollback_last_turn_def disarm_rollback_def clear_pending_def to_status_def
        turn_view_def submitted_message_def text_message_def Let_def)
qed

end
