(* ===== verification/Session_Wire.thy ===== *)
theory Session_Wire
  imports Session_Models
begin

text \<open>
  What \<open>Session_Models\<close> writes it reads back: calls, questions, messages, tools, the requests and
  the answers of the session interface, under the contract of the JSON library.
\<close>

section \<open>Members that were written\<close>

named_theorems wire \<open>reading back what was written\<close>

lemma value_of_object [wire]:
  assumes "json_contract js" and "distinct (map fst ms)"
  shows "value_of js get key d (j_object js ms) =
    (case map_of ms key of
       None \<Rightarrow> Inr d
     | Some v \<Rightarrow> (case get v of None \<Rightarrow> Inl (Thrown Json_exception) | Some a \<Rightarrow> Inr a))"
proof -
  obtain ns where ns: "j_members js (j_object js ms) = Some ns" "map_of ns = map_of ms"
    using assms unfolding json_contract_def by blast
  then show ?thesis by (simp add: value_of_def j_value_def split: option.split)
qed

lemma member_at_object [wire]:
  assumes "json_contract js" and "distinct (map fst ms)"
  shows "member_at js key (j_object js ms) = (case map_of ms key of None \<Rightarrow> Inl Undefined_read | Some v \<Rightarrow> Inr v)"
proof -
  obtain ns where "j_members js (j_object js ms) = Some ns" "map_of ns = map_of ms"
    using assms unfolding json_contract_def by blast
  then show ?thesis by (simp add: member_at_def)
qed

lemma array_of_object [wire]:
  assumes "json_contract js" and "distinct (map fst ms)"
  shows "array_of js key (j_object js ms) =
    Inr (case map_of ms key of None \<Rightarrow> [] | Some v \<Rightarrow> (case j_elements js v of None \<Rightarrow> [] | Some xs \<Rightarrow> xs))"
  using assms by (simp add: array_of_def value_of_object j_reads split: option.split)

declare j_get_object [wire] j_members_object [wire]

lemma when_set_keys [simp]: "map fst (when_set js key s) = (if s = [] then [] else [key])"
  by (simp add: when_set_def)

lemma when_set_of [simp]:
  "map_of (when_set js key s) k = (if k = key \<and> s \<noteq> [] then Some (j_string js s) else None)"
  by (simp add: when_set_def)

lemma call_list_keys [simp]: "map fst (call_list js key calls) = (if calls = [] then [] else [key])"
  by (simp add: call_list_def)

lemma call_list_of [simp]:
  "map_of (call_list js key calls) k =
     (if k = key \<and> calls \<noteq> [] then Some (j_array js (map (call_to_json js) calls)) else None)"
  by (simp add: call_list_def)

lemma question_member_keys [simp]: "map fst (question_member js key q) = (if q = None then [] else [key])"
  by (simp add: question_member_def split: option.split)

lemma question_member_of [simp]:
  "map_of (question_member js key q) k = (if k = key then map_option (question_to_json js) q else None)"
  by (simp add: question_member_def split: option.split)

lemma key_sets [simp]:
  "fst ` set (when_set js key s) = (if s = [] then {} else {key})"
  "fst ` set (call_list js key calls) = (if calls = [] then {} else {key})"
  "fst ` set (question_member js key q) = (if q = None then {} else {key})"
  by (simp_all add: when_set_def call_list_def) (cases q; simp add: question_member_def)

lemma get_string_back [simp]: "json_contract js \<Longrightarrow> get_string js (j_string js s) = Inr s"
  by (simp add: get_string_def j_reads)

lemma int32_id: "- (2 ^ 31) \<le> n \<Longrightarrow> n < 2 ^ 31 \<Longrightarrow> int32_of n = n"
  by (simp add: int32_of_def sint_sbintrunc' signed_take_bit_int_eq_self)

lemma int64_id: "- (2 ^ 63) \<le> n \<Longrightarrow> n < 2 ^ 63 \<Longrightarrow> sint (word_of_int n :: 64 word) = n"
  by (simp add: sint_sbintrunc' signed_take_bit_int_eq_self)

definition is_int32 :: "int \<Rightarrow> bool" where
  "is_int32 n \<longleftrightarrow> - (2 ^ 31) \<le> n \<and> n < 2 ^ 31"

definition is_u64 :: "nat \<Rightarrow> bool" where
  "is_u64 n \<longleftrightarrow> n < 2 ^ 64"

definition is_int64 :: "int \<Rightarrow> bool" where
  "is_int64 n \<longleftrightarrow> - (2 ^ 63) \<le> n \<and> n < 2 ^ 63"

lemma j_i32_back [simp]: "json_contract js \<Longrightarrow> is_int32 n \<Longrightarrow> j_i32 js (j_int js n) = Some n"
  by (simp add: j_i32_def j_reads is_int32_def int32_id)

lemma j_i64_back [simp]: "json_contract js \<Longrightarrow> is_int64 n \<Longrightarrow> j_i64 js (j_int js n) = Some n"
  by (simp add: j_i64_def j_reads is_int64_def int64_id)

lemma j_u64_back [simp]:
  assumes "json_contract js" and "is_u64 n"
  shows "j_u64 js (j_int js (int n)) = Some n"
proof -
  have "int n < 2 ^ 64" using assms(2) by (simp add: is_u64_def)
  then have "int n mod 2 ^ 64 = int n" by (intro mod_pos_pos_trivial) simp_all
  then show ?thesis using assms(1) by (simp add: j_u64_def j_reads)
qed

section \<open>Lists\<close>

lemma map_err_map: "map_err g (map f xs) = map_err (\<lambda>x. g (f x)) xs"
  by (induction xs) simp_all

lemma map_err_id: "(\<And>x. x \<in> set xs \<Longrightarrow> g x = Inr x) \<Longrightarrow> map_err g xs = Inr xs"
  by (induction xs) simp_all

text \<open>A list of elements that are written and read back is written and read back.\<close>

lemma list_comes_back:
  assumes "\<And>x. x \<in> set xs \<Longrightarrow> \<exists>v. f x = Inr v \<and> g v = Inr x"
  shows "\<exists>vs. map_err f xs = Inr vs \<and> map_err g vs = Inr xs"
  using assms
proof (induction xs)
  case (Cons x xs)
  then obtain vs where "map_err f xs = Inr vs" "map_err g vs = Inr xs" by auto
  moreover obtain v where "f x = Inr v" "g v = Inr x" using Cons.prems by auto
  ultimately show ?case by (intro exI [of _ "v # vs"]) simp
qed simp

section \<open>The parts of a conversation\<close>

lemma call_comes_back [wire]: "json_contract js \<Longrightarrow> call_from_json js (call_to_json js c) = Inr c"
  by (simp add: call_from_json_def call_to_json_def wire)

lemma calls_come_back [wire]:
  "json_contract js \<Longrightarrow> map_err (call_from_json js) (map (call_to_json js) calls) = Inr calls"
  by (simp add: map_err_map map_err_id wire)

lemma question_comes_back [wire]: "json_contract js \<Longrightarrow> question_from_json js (question_to_json js q) = Inr q"
  by (simp add: question_from_json_def question_to_json_def wire map_err_map map_err_id j_reads)

lemma map_of_app [wire]:
  "map_of (xs @ ys) k = (case map_of xs k of None \<Rightarrow> map_of ys k | Some v \<Rightarrow> Some v)"
  by (induction xs) (auto split: if_splits)

lemma message_keys: "distinct (map fst (message_members js m))"
  by (simp add: message_members_def)

lemma message_members_of:
  "map_of (message_members js m) ''role'' = Some (j_string js (role m))"
  "map_of (message_members js m) ''content'' = Some (j_string js (msg_content m))"
  "map_of (message_members js m) ''reasoning_content'' =
     (if reasoning_content m = [] then None else Some (j_string js (reasoning_content m)))"
  "map_of (message_members js m) ''tool_call_id'' =
     (if tool_call_id m = [] then None else Some (j_string js (tool_call_id m)))"
  "map_of (message_members js m) ''tool_name'' =
     (if tool_name m = [] then None else Some (j_string js (tool_name m)))"
  "map_of (message_members js m) ''tool_calls'' =
     (if tool_calls m = [] then None else Some (j_array js (map (call_to_json js) (tool_calls m))))"
  by (simp_all add: message_members_def map_of_app del: map_of_append)

lemma question_is_object: "json_contract js \<Longrightarrow> j_members js (question_to_json js q) \<noteq> None"
  unfolding question_to_json_def by (rule j_members_object) simp_all

lemma message_comes_back:
  assumes "json_contract js" and "role m \<noteq> []"
  shows "\<exists>v. message_to_json js m = Inr v \<and> message_from_json js v = Inr m"
proof -
  let ?j = "j_object js (message_members js m)"
  note kept = assms(1) message_keys message_members_of
  have "message_from_json js ?j = Inr m"
    using assms unfolding message_from_json_def
    by (simp add: value_of_object j_get_object kept j_reads calls_come_back validate_message_def Let_def)
  with assms(2) show ?thesis by (simp add: message_to_json_def validate_message_def)
qed

definition canonical_tool :: "('j, 'z) json_api_scheme \<Rightarrow> chat_tool \<Rightarrow> bool" where
  "canonical_tool js t \<longleftrightarrow> tool_spec_name t \<noteq> [] \<and>
     (case j_parse js (tool_parameters t) of
        Inl err \<Rightarrow> False
      | Inr v \<Rightarrow> tool_parameters t \<noteq> [] \<and> j_members js v \<noteq> None \<and> j_dump js v = tool_parameters t)"

lemma tool_comes_back:
  assumes "json_contract js" and "canonical_tool js t"
  shows "\<exists>v. tool_to_json js t = Inr v \<and> tool_from_json js v = Inr t"
proof -
  obtain p ms where p: "j_parse js (tool_parameters t) = Inr p" "j_members js p = Some ms" "j_dump js p = tool_parameters t"
    "tool_parameters t \<noteq> []" "tool_spec_name t \<noteq> []"
    using assms(2) by (auto simp: canonical_tool_def split: sum.splits)
  let ?fn = "[(''name'', j_string js (tool_spec_name t)), (''description'', j_string js (tool_description t)),
    (''parameters'', p)]"
  define fn where "fn = j_object js ?fn"
  define v where "v = j_object js [(''type'', j_string js ''function''), (''function'', fn)]"
  have keys: "distinct (map fst ?fn)" by simp
  have members: "j_members js fn \<noteq> None" unfolding fn_def using assms(1) keys by (rule j_members_object)
  have get: "j_get js ''function'' v = Some fn" "j_get js ''parameters'' fn = Some p"
    using assms(1) by (simp_all add: v_def fn_def j_get_object)
  have vals: "j_value js (j_string_of js) ''name'' [] fn = Inr (tool_spec_name t)"
    "j_value js (j_string_of js) ''description'' [] fn = Inr (tool_description t)"
    using value_of_object [OF assms(1) keys, of "j_string_of js" "''name''" "[]"]
      value_of_object [OF assms(1) keys, of "j_string_of js" "''description''" "[]"]
    by (simp_all add: value_of_def fn_def j_reads [OF assms(1)])
  have "\<not> j_is_null js p" "j_string_of js p = None"
    using assms(1) p(2) j_object_no_null j_members_no_string by fastforce+
  then have "chat_tool_from_json js v = Inr t"
    unfolding chat_tool_from_json_def Let_def get
    using p members by (simp add: vals get)
  with p show ?thesis by (simp add: tool_to_json_def tool_from_json_def v_def fn_def)
qed

section \<open>Requests and answers\<close>

definition good_messages :: "'j chat_message list \<Rightarrow> bool" where
  "good_messages ms \<longleftrightarrow> list_all (\<lambda>m. role m \<noteq> []) ms"

lemma messages_come_back:
  assumes "json_contract js" and "good_messages ms"
  shows "\<exists>vs. map_err (message_to_json js) ms = Inr vs \<and> map_err (message_from_json js) vs = Inr ms"
  using assms message_comes_back by (intro list_comes_back) (auto simp: good_messages_def list_all_iff)

lemma tools_come_back:
  assumes "json_contract js" and "list_all (canonical_tool js) ts"
  shows "\<exists>vs. map_err (tool_to_json js) ts = Inr vs \<and> map_err (tool_from_json js) vs = Inr ts"
  using assms tool_comes_back by (intro list_comes_back) (auto simp: list_all_iff)

definition good_create_request :: "('j, 'z) json_api_scheme \<Rightarrow> 'j create_request \<Rightarrow> bool" where
  "good_create_request js r \<longleftrightarrow> is_u64 (cr_id r) \<and> is_int32 (cr_max_tokens r) \<and>
     good_messages (cr_messages r) \<and> list_all (canonical_tool js) (cr_tools r)"

lemma create_request_comes_back:
  assumes "json_contract js" and "good_create_request js r"
  shows "\<exists>v. create_request_to_json js r = Inr v \<and> create_request_from_json js v = Inr r"
proof -
  obtain ms where ms: "map_err (message_to_json js) (cr_messages r) = Inr ms"
      "map_err (message_from_json js) ms = Inr (cr_messages r)"
    using messages_come_back [OF assms(1)] assms(2) by (auto simp: good_create_request_def)
  obtain ts where ts: "map_err (tool_to_json js) (cr_tools r) = Inr ts"
      "map_err (tool_from_json js) ts = Inr (cr_tools r)"
    using tools_come_back [OF assms(1)] assms(2) by (auto simp: good_create_request_def)
  let ?ms = "create_request_members js r ms ts"
  have keys: "distinct (map fst ?ms)" by (simp add: create_request_members_def)
  have of: "map_of ?ms ''system'' = Some (j_string js (cr_system r))" "map_of ?ms ''messages'' = Some (j_array js ms)"
    "map_of ?ms ''questions'' = Some (j_bool js (cr_questions r))"
    "map_of ?ms ''compress_tools'' = Some (j_bool js (cr_compress_tools r))"
    "map_of ?ms ''tools'' = Some (j_array js ts)" "map_of ?ms ''max_tokens'' = Some (j_int js (cr_max_tokens r))"
    "map_of ?ms ''id'' = (if cr_id r = 0 then None else Some (j_int js (int (cr_id r))))"
    by (simp_all add: create_request_members_def map_of_app del: map_of_append)
  have "create_request_from_json js (j_object js ?ms) = Inr r"
    using assms ms(2) ts(2) unfolding create_request_from_json_def
    by (simp add: value_of_object array_of_object keys of j_reads good_create_request_def)
  with ms ts show ?thesis by (simp add: create_request_to_json_def)
qed

lemma message_status_comes_back:
  assumes "json_contract js" and "is_u64 (ms_key r)" and "ms_state r \<noteq> Unknown"
  shows "\<exists>v. message_status_to_json js r = Inr v \<and> message_status_from_json js v = Inr r"
proof -
  obtain name where name: "job_state_name (ms_state r) = Inr name"
    using assms(3) by (cases "ms_state r") (simp_all add: job_state_name_def job_state_to_string_def)
  let ?ms = "message_status_members js r name"
  have keys: "distinct (map fst ?ms)" by (simp add: message_status_members_def)
  have of: "map_of ?ms ''key'' = Some (j_int js (int (ms_key r)))" "map_of ?ms ''state'' = Some (j_string js name)"
    "map_of ?ms ''done'' = Some (j_bool js (ms_done r))" "map_of ?ms ''content'' = Some (j_string js (ms_content r))"
    "map_of ?ms ''error'' = (if ms_error r = [] then None else Some (j_string js (ms_error r)))"
    "map_of ?ms ''error_code'' = (if ms_error_code r = [] then None else Some (j_string js (ms_error_code r)))"
    "map_of ?ms ''reasoning_content'' = (if ms_reasoning r = [] then None else Some (j_string js (ms_reasoning r)))"
    "map_of ?ms ''tool_calls'' = (if ms_calls r = [] then None else Some (j_array js (map (call_to_json js) (ms_calls r))))"
    "map_of ?ms ''question'' = map_option (question_to_json js) (ms_question r)"
    by (simp_all add: message_status_members_def map_of_app del: map_of_append split: option.split)
  have q: "object_question js ''question'' (j_object js ?ms) = Inr (ms_question r)"
    using assms(1) question_is_object [OF assms(1)]
    by (cases "ms_question r") (simp_all add: object_question_def j_get_object keys of question_comes_back)
  have "message_status_from_json js (j_object js ?ms) = Inr r"
    using assms q unfolding message_status_from_json_def
    by (simp add: value_of_object array_of_object j_get_object keys of j_reads calls_come_back job_state_name_back [OF name])
  with name show ?thesis by (simp add: message_status_to_json_def)
qed

definition good_session_response :: "'j session_response \<Rightarrow> bool" where
  "good_session_response r \<longleftrightarrow>
     sr_id r \<noteq> 0 \<and> is_u64 (sr_id r) \<and> sr_state r \<noteq> Unknown_state \<and>
     (case sr_active_job_key r of None \<Rightarrow> True | Some k \<Rightarrow> is_u64 k) \<and>
     is_int32 (sr_context_used r) \<and> is_int32 (sr_context_size r) \<and>
     (if sr_include_messages r then good_messages (sr_messages r) else sr_messages r = [])"

lemma state_has_name: "s \<noteq> Unknown_state \<Longrightarrow> \<exists>name. state_name s = Inr name"
  by (cases s) (simp_all add: state_name_def session_state_to_string_def)

lemma session_response_comes_back:
  assumes "json_contract js" and "good_session_response r"
  shows "\<exists>v. session_response_to_json js r = Inr v \<and> session_response_from_json js v = Inr r"
proof -
  note good = assms(2) [unfolded good_session_response_def]
  obtain name where name: "state_name (sr_state r) = Inr name"
    using good state_has_name by blast
  obtain ms where ms: "(if sr_include_messages r then map_err (message_to_json js) (sr_messages r) else Inr []) = Inr ms"
      "map_err (message_from_json js) ms = Inr (sr_messages r)"
  proof (cases "sr_include_messages r")
    case True
    with good messages_come_back [OF assms(1), of "sr_messages r"] that show thesis by auto
  next
    case False
    with good that [of "[]"] show thesis by simp
  qed
  let ?ms = "session_response_members js r name ms"
  let ?j = "j_object js ?ms"
  have keys: "distinct (map fst ?ms)" by (simp add: session_response_members_def split: option.split)
  have of: "map_of ?ms ''id'' = Some (j_int js (int (sr_id r)))"
    "map_of ?ms ''system'' = Some (j_string js (sr_system_prompt r))"
    "map_of ?ms ''state'' = Some (j_string js name)"
    "map_of ?ms ''questions'' = Some (j_bool js (sr_questions r))"
    "map_of ?ms ''compress_tools'' = Some (j_bool js (sr_compress_tools r))"
    "map_of ?ms ''context_used'' = Some (j_int js (sr_context_used r))"
    "map_of ?ms ''context_size'' = Some (j_int js (sr_context_size r))"
    "map_of ?ms ''messages'' = (if sr_include_messages r then Some (j_array js ms) else None)"
    "map_of ?ms ''error'' = (if sr_error r = [] then None else Some (j_string js (sr_error r)))"
    "map_of ?ms ''error_code'' = (if sr_error_code r = [] then None else Some (j_string js (sr_error_code r)))"
    "map_of ?ms ''active_job_key'' = map_option (\<lambda>k. j_int js (int k)) (sr_active_job_key r)"
    "map_of ?ms ''pending_tool_calls'' =
       (if sr_pending_tool_calls r = [] then None
        else Some (j_array js (map (call_to_json js) (sr_pending_tool_calls r))))"
    "map_of ?ms ''pending_question'' = map_option (question_to_json js) (sr_pending_question r)"
    by (simp_all add: session_response_members_def map_of_app del: map_of_append split: option.split)
  have active: "(case j_get js ''active_job_key'' ?j of
        None \<Rightarrow> Inr None
      | Some v \<Rightarrow> then_do (value_of js (j_u64 js) ''active_job_key'' 0 ?j) (\<lambda>k. Inr (Some k))) = Inr (sr_active_job_key r)"
    using assms(1) good
    by (cases "sr_active_job_key r") (simp_all add: j_get_object value_of_object keys of)
  have question: "(case j_get js ''pending_question'' ?j of
        None \<Rightarrow> Inr None
      | Some v \<Rightarrow> then_do (question_from_json js v) (\<lambda>q. Inr (Some q))) = Inr (sr_pending_question r)"
    using assms(1) by (cases "sr_pending_question r") (simp_all add: j_get_object keys of question_comes_back)
  have included: "(j_get js ''messages'' ?j \<noteq> None) = sr_include_messages r"
    using assms(1) by (simp add: j_get_object keys of)
  have messages: "then_do (array_of js ''messages'' ?j) (map_err (message_from_json js)) = Inr (sr_messages r)"
    using assms(1) ms(2) good by (cases "sr_include_messages r") (simp_all add: array_of_object keys of j_reads)
  have "session_response_from_json js ?j = Inr r"
    using assms(1) good unfolding session_response_from_json_def active question included messages
    by (simp add: value_of_object array_of_object keys of j_reads calls_come_back state_name_back [OF name])
  with name ms good show ?thesis by (simp add: session_response_to_json_def validate_session_def)
qed

text \<open>
  The list of \<open>GET /v1/sessions\<close> carries the headers: every session as it is, without its messages.
\<close>

lemma session_list_comes_back:
  assumes "json_contract js"
    and "list_all (\<lambda>r. good_session_response (r\<lparr> sr_include_messages := False, sr_messages := [] \<rparr>)) rs"
  shows "\<exists>v. session_list_to_json js rs = Inr v \<and>
    session_list_from_json js v = Inr (map (\<lambda>r. r\<lparr> sr_include_messages := False, sr_messages := [] \<rparr>) rs)"
proof -
  let ?hs = "map (\<lambda>r. r\<lparr> sr_include_messages := False, sr_messages := [] \<rparr>) rs"
  obtain vs where "map_err (session_response_to_json js) ?hs = Inr vs"
      "map_err (session_response_from_json js) vs = Inr ?hs"
    using list_comes_back [of ?hs "session_response_to_json js" "session_response_from_json js"]
      session_response_comes_back [OF assms(1)] assms(2) by (fastforce simp: list_all_iff)
  with assms(1) show ?thesis
    by (simp add: session_list_to_json_def session_list_from_json_def map_err_map array_of_object j_reads)
qed

text \<open>
  C36. The bodies of the session interface survive the wire: a request to create a session, the status of
  a job and a session with its conversation are read back as they were written, if their numbers have
  the width of the interface, no role is empty, and the parameters of a tool are printed JSON objects.
\<close>

theorem session_bodies_come_back:
  assumes "json_contract js"
  shows "(good_create_request js q \<longrightarrow>
      (\<exists>v. create_request_to_json js q = Inr v \<and> create_request_from_json js v = Inr q)) \<and>
    (is_u64 (ms_key m) \<and> ms_state m \<noteq> Unknown \<longrightarrow>
      (\<exists>v. message_status_to_json js m = Inr v \<and> message_status_from_json js v = Inr m)) \<and>
    (good_session_response r \<longrightarrow>
      (\<exists>v. session_response_to_json js r = Inr v \<and> session_response_from_json js v = Inr r))"
  using create_request_comes_back [OF assms] message_status_comes_back [OF assms]
    session_response_comes_back [OF assms] by blast

definition demo_body :: "json_tree session_response" where
  "demo_body = \<lparr> sr_id = 5, sr_system_prompt = ''s'', sr_messages = [], sr_active_job_key = Some 7,
     sr_state = Generating, sr_pending_tool_calls = [], sr_pending_question = None, sr_questions = True,
     sr_compress_tools = True, sr_error = [], sr_error_code = [], sr_context_used = 3, sr_context_size = 8,
     sr_include_messages = True \<rparr>"

theorem session_bodies_come_back_witness:
  "\<exists>v. session_response_to_json tree_json demo_body = Inr v \<and> session_response_from_json tree_json v = Inr demo_body"
proof -
  have "good_session_response demo_body"
    by (simp add: good_session_response_def demo_body_def is_u64_def is_int32_def good_messages_def)
  with session_bodies_come_back [OF tree_json_contract, of _ _ demo_body] show ?thesis by blast
qed

end
