(* ===== verification/Session_Disk.thy ===== *)
theory Session_Disk
  imports Session_Wire Session Session_Kv_Store
begin

text \<open>
  \<open>src/server/sessions/session_disk.cpp\<close>: the conversations as \<open><id>.json\<close> files of one directory and
  the plan that keeps them and the KV files within a size limit. The directory is the one of
  \<open>Session_Kv_Store\<close>, with the outcomes of its operations chosen by the environment; texts are stored
  as bytes.
\<close>

section \<open>Names\<close>

definition k_max_record_bytes :: nat where
  "k_max_record_bytes = 32 * 2 ^ 20"

text \<open>Evaluation compares against the bounds in binary.\<close>

lemma record_bytes_code [code_unfold]: "k_max_record_bytes < n \<longleftrightarrow> (33554432 :: int) < int n"
  by (simp add: k_max_record_bytes_def)

definition parse_id :: "string \<Rightarrow> nat option" where
  "parse_id txt =
     (if txt = [] \<or> 20 < length txt \<or> \<not> list_all is_digit_char txt then None
      else let n = digits_value 0 txt in if (18446744073709551616 :: int) \<le> int n \<or> n = 0 then None else Some n)"

definition record_path :: "nat \<Rightarrow> string" where
  "record_path sid = decimal sid @ ''.json''"

definition record_tmp_path :: "nat \<Rightarrow> string" where
  "record_tmp_path sid = decimal sid @ ''.json.tmp''"

definition strip_suffix :: "string \<Rightarrow> string \<Rightarrow> string option" where
  "strip_suffix name ending =
     (if suffix ending name then Some (take (length name - length ending) name) else None)"

definition record_name_id :: "string \<Rightarrow> nat option" where
  "record_name_id name = (case strip_suffix name ''.json'' of None \<Rightarrow> None | Some stem \<Rightarrow> parse_id stem)"

section \<open>Records as JSON\<close>

definition record_members ::
  "('j, 'z) json_api_scheme \<Rightarrow> 'j session_record \<Rightarrow> string \<Rightarrow> 'j list \<Rightarrow> 'j list \<Rightarrow> (string \<times> 'j) list" where
  "record_members js r name messages tools =
     [(''id'', j_int js (int (rec_id r))), (''system'', j_string js (rec_system_prompt r)),
      (''messages'', j_array js messages), (''tools'', j_array js tools),
      (''questions'', j_bool js (rec_questions r)), (''compress_tools'', j_bool js (rec_compress_tools r)),
      (''max_tokens'', j_int js (rec_max_tokens r)), (''state'', j_string js name),
      (''pending_tool_calls'', j_array js (map (call_to_json js) (rec_pending_tool_calls r))),
      (''error'', j_string js (rec_error r)), (''error_code'', j_string js (rec_error_code r)),
      (''context_used'', j_int js (rec_context_used r)), (''context_size'', j_int js (rec_context_size r)),
      (''updated_at'', j_int js (rec_updated_at r))] @
     question_member js ''pending_question'' (rec_pending_question r)"

definition record_to_json :: "('j, 'z) json_api_scheme \<Rightarrow> 'j session_record \<Rightarrow> api_error + 'j" where
  "record_to_json js r =
     then_do (map_err (message_to_json js) (rec_messages r)) (\<lambda>messages.
     then_do (map_err (tool_to_json js) (rec_tools r)) (\<lambda>tools.
     then_do (state_name (rec_state r)) (\<lambda>name.
     Inr (j_object js (record_members js r name messages tools)))))"

definition record_from_json ::
  "('j, 'z) json_api_scheme \<Rightarrow> 'j \<Rightarrow> nat \<Rightarrow> api_error + 'j session_record option" where
  "record_from_json js j sid =
     then_do (value_of js (j_u64 js) ''id'' 0 j) (\<lambda>stored. if stored \<noteq> sid then Inr None else
     then_do (value_of js (j_string_of js) ''system'' [] j) (\<lambda>system.
     then_do (then_do (array_of js ''messages'' j) (map_err (message_from_json js))) (\<lambda>messages.
     then_do (then_do (array_of js ''tools'' j) (map_err (tool_from_json js))) (\<lambda>tools.
     then_do (value_of js (j_bool_of js) ''questions'' True j) (\<lambda>questions.
     then_do (value_of js (j_bool_of js) ''compress_tools'' True j) (\<lambda>compress.
     then_do (value_of js (j_i32 js) ''max_tokens'' (-1) j) (\<lambda>tokens.
     then_do (then_do (value_of js (j_string_of js) ''state'' ''idle'' j) state_named) (\<lambda>state.
     then_do (then_do (array_of js ''pending_tool_calls'' j) (map_err (call_from_json js))) (\<lambda>calls.
     then_do (object_question js ''pending_question'' j) (\<lambda>question.
     then_do (value_of js (j_string_of js) ''error'' [] j) (\<lambda>err.
     then_do (value_of js (j_string_of js) ''error_code'' [] j) (\<lambda>code.
     then_do (value_of js (j_i32 js) ''context_used'' 0 j) (\<lambda>used.
     then_do (value_of js (j_i32 js) ''context_size'' 0 j) (\<lambda>ctx.
     then_do (value_of js (j_i64 js) ''updated_at'' 0 j) (\<lambda>updated.
     Inr (Some \<lparr> rec_id = sid, rec_system_prompt = system, rec_messages = messages, rec_tools = tools,
       rec_questions = questions, rec_compress_tools = compress, rec_max_tokens = tokens, rec_state = state,
       rec_pending_tool_calls = calls, rec_pending_question = question, rec_error = err,
       rec_error_code = code, rec_context_used = used, rec_context_size = ctx,
       rec_updated_at = (if 0 < updated then updated else 0) \<rparr>))))))))))))))))"

section \<open>Files\<close>

abbreviation bytes_of :: "string \<Rightarrow> byte list" where
  "bytes_of s \<equiv> map byte_of s"

definition text_of :: "byte list \<Rightarrow> string" where
  "text_of bs = map (\<lambda>b. char_of (unat b)) bs"

text \<open>
  \<open>dir_ok\<close>: the directory has a name; one that cannot be created counts as a refused write. A file
  that cannot be opened is left alone; one that cannot be written to the end is removed again.
\<close>

definition write_text :: "kv_store \<Rightarrow> string \<Rightarrow> string \<Rightarrow> bool \<times> kv_store" where
  "write_text d tmp body =
     (case fst (next_outcome d) of
        Fs_refused \<Rightarrow> write_file d tmp (bytes_of body)
      | _ \<Rightarrow> (let (written, d) = write_file d tmp (bytes_of body)
              in if written then (True, d) else (False, remove_file d tmp)))"

definition commit_record :: "kv_store \<Rightarrow> nat \<Rightarrow> bool \<times> kv_store" where
  "commit_record d sid =
     (let (renamed, d) = rename_file d (record_tmp_path sid) (record_path sid)
      in if renamed then (True, d) else (False, remove_file d (record_tmp_path sid)))"

definition write_session_record ::
  "('j, 'z) json_api_scheme \<Rightarrow> bool \<Rightarrow> 'j session_record \<Rightarrow> kv_store \<Rightarrow> bool \<times> kv_store" where
  "write_session_record js dir_ok r d =
     (if \<not> dir_ok \<or> rec_id r = 0 then (False, d)
      else case record_to_json js r of
             Inl err \<Rightarrow> (False, d)
           | Inr v \<Rightarrow>
               (let (written, d) = write_text d (record_tmp_path (rec_id r)) (j_dump js v)
                in if written then commit_record d (rec_id r) else (False, d)))"

definition remove_session_record :: "bool \<Rightarrow> nat \<Rightarrow> kv_store \<Rightarrow> kv_store" where
  "remove_session_record dir_ok sid d =
     (if \<not> dir_ok \<or> sid = 0 then d else remove_file (remove_file d (record_path sid)) (record_tmp_path sid))"

text \<open>
  Reading the directory. \<open>sized\<close> and \<open>readable\<close> say for which files \<open>file_size\<close> and the read succeed.
  The error code of a failed \<open>file_size\<close> is never cleared, so it ends the reading. The result is
  \<open>None\<close> where the JSON of a record runs into undefined behaviour.
\<close>

definition read_record ::
  "('j, 'z) json_api_scheme \<Rightarrow> nat \<Rightarrow> byte list \<Rightarrow> 'j session_record option option" where
  "read_record js sid bytes =
     (case j_parse js (text_of bytes) of
        Inl err \<Rightarrow> Some None
      | Inr v \<Rightarrow>
          (case record_from_json js v sid of
             Inl Undefined_read \<Rightarrow> None
           | Inl err \<Rightarrow> Some None
           | Inr found \<Rightarrow> Some found))"

fun read_entries ::
  "('j, 'z) json_api_scheme \<Rightarrow> (string \<Rightarrow> bool) \<Rightarrow> (string \<Rightarrow> bool) \<Rightarrow> (string \<times> kv_file) list \<Rightarrow>
    'j session_record list option" where
  "read_entries js sized readable [] = Some []"
| "read_entries js sized readable ((name, f) # rest) =
     (case record_name_id name of
        None \<Rightarrow> read_entries js sized readable rest
      | Some sid \<Rightarrow>
          if \<not> sized name then Some []
          else if k_max_record_bytes < length (kf_bytes f) \<or> \<not> readable name
          then read_entries js sized readable rest
          else (case read_record js sid (kf_bytes f) of
                  None \<Rightarrow> None
                | Some found \<Rightarrow>
                    (case read_entries js sized readable rest of
                       None \<Rightarrow> None
                     | Some rs \<Rightarrow> Some (case found of None \<Rightarrow> rs | Some r \<Rightarrow> r # rs))))"

definition read_session_records ::
  "('j, 'z) json_api_scheme \<Rightarrow> (string \<Rightarrow> bool) \<Rightarrow> (string \<Rightarrow> bool) \<Rightarrow> bool \<Rightarrow> kv_store \<Rightarrow>
    'j session_record list option" where
  "read_session_records js sized readable dir_ok d =
     (if \<not> dir_ok then Some []
      else map_option (sort_key (\<lambda>r. - int (rec_id r))) (read_entries js sized readable (files d)))"

section \<open>The size limit\<close>

record disk_row =
  dr_json_bytes :: u64
  dr_kv_bytes :: u64
  dr_mtime :: int
  dr_json :: bool
  dr_kv :: bool

definition empty_row :: disk_row where
  "empty_row = \<lparr> dr_json_bytes = 0, dr_kv_bytes = 0, dr_mtime = 0, dr_json = False, dr_kv = False \<rparr>"

text \<open>An entry of a directory: its name, its size and its time as far as the file system tells them.\<close>

type_synonym disk_entry = "string \<times> u64 option \<times> int option"

definition file_bytes :: "u64 option \<Rightarrow> u64" where
  "file_bytes found = (case found of None \<Rightarrow> 0 | Some n \<Rightarrow> n)"

definition file_mtime :: "int option \<Rightarrow> int" where
  "file_mtime found = (case found of None \<Rightarrow> 0 | Some t \<Rightarrow> t)"

definition row_of :: "(nat \<times> disk_row) list \<Rightarrow> nat \<Rightarrow> disk_row" where
  "row_of rows sid = (case map_of rows sid of None \<Rightarrow> empty_row | Some r \<Rightarrow> r)"

definition scan_entry :: "bool \<Rightarrow> bool \<Rightarrow> disk_entry \<Rightarrow> (nat \<times> disk_row) list \<Rightarrow> (nat \<times> disk_row) list" where
  "scan_entry want_json want_kv = (\<lambda>(name, bytes, mtime) rows.
     let json = suffix ''.json'' name; kv = suffix ''.kv'' name in
     if json \<and> \<not> want_json \<or> kv \<and> \<not> want_kv \<or> \<not> json \<and> \<not> kv then rows
     else (case parse_id (take (length name - (if json then 5 else 3)) name) of
             None \<Rightarrow> rows
           | Some sid \<Rightarrow>
               (let row = row_of rows sid;
                    row = (if json then row\<lparr> dr_json := True, dr_json_bytes := file_bytes bytes \<rparr>
                           else row\<lparr> dr_kv := True, dr_kv_bytes := file_bytes bytes \<rparr>)
                in AList.update sid (row\<lparr> dr_mtime := max (dr_mtime row) (file_mtime mtime) \<rparr>) rows)))"

definition scan_suffixes ::
  "bool \<Rightarrow> bool \<Rightarrow> disk_entry list option \<Rightarrow> (nat \<times> disk_row) list \<Rightarrow> (nat \<times> disk_row) list" where
  "scan_suffixes want_json want_kv folder rows =
     (case folder of None \<Rightarrow> rows | Some es \<Rightarrow> fold (scan_entry want_json want_kv) es rows)"

record cache_ref =
  cf_id :: nat
  cf_updated_at :: int
  cf_pinned :: bool

record cache_plan =
  drop_sessions :: "nat list"
  drop_orphan_kv :: "nat list"
  still_over :: bool

record candidate =
  cd_id :: nat
  cd_updated_at :: int
  cd_bytes :: u64
  cd_pinned :: bool

definition row_bytes :: "disk_row \<Rightarrow> u64" where
  "row_bytes r = dr_json_bytes r + dr_kv_bytes r"

fun loaded_candidates :: "(nat \<times> disk_row) list \<Rightarrow> nat list \<Rightarrow> cache_ref list \<Rightarrow> candidate list \<times> nat list" where
  "loaded_candidates rows seen [] = ([], seen)"
| "loaded_candidates rows seen (ref # refs) =
     (if cf_id ref = 0 \<or> cf_id ref \<in> set seen then loaded_candidates rows seen refs
      else let (cs, seen) = loaded_candidates rows (cf_id ref # seen) refs
           in (\<lparr> cd_id = cf_id ref, cd_updated_at = cf_updated_at ref,
                 cd_bytes = row_bytes (row_of rows (cf_id ref)), cd_pinned = cf_pinned ref \<rparr> # cs, seen))"

definition unloaded_sessions :: "nat list \<Rightarrow> (nat \<times> disk_row) list \<Rightarrow> candidate list" where
  "unloaded_sessions loaded rows =
     map (\<lambda>(sid, r). \<lparr> cd_id = sid, cd_updated_at = dr_mtime r, cd_bytes = row_bytes r, cd_pinned = False \<rparr>)
       (filter (\<lambda>(sid, r). sid \<notin> set loaded \<and> dr_json r) rows)"

definition orphan_files :: "nat list \<Rightarrow> (nat \<times> disk_row) list \<Rightarrow> candidate list" where
  "orphan_files loaded rows =
     map (\<lambda>(sid, r). \<lparr> cd_id = sid, cd_updated_at = dr_mtime r, cd_bytes = dr_kv_bytes r, cd_pinned = False \<rparr>)
       (filter (\<lambda>(sid, r). sid \<notin> set loaded \<and> \<not> dr_json r \<and> dr_kv r) rows)"

definition oldest_first :: "candidate list \<Rightarrow> candidate list" where
  "oldest_first cs = sort_key (\<lambda>c. (cd_updated_at c, cd_id c)) cs"

text \<open>Both loops that drop candidates; no orphan is pinned.\<close>

fun evict :: "candidate list \<Rightarrow> u64 \<Rightarrow> u64 \<Rightarrow> nat list \<times> u64" where
  "evict [] stored limit = ([], stored)"
| "evict (c # cs) stored limit =
     (if stored \<le> limit then ([], stored)
      else if cd_pinned c then evict cs stored limit
      else let (ids, rest) = evict cs (stored - min stored (cd_bytes c)) limit in (cd_id c # ids, rest))"

definition disk_rows ::
  "disk_entry list option \<Rightarrow> disk_entry list option \<Rightarrow> bool \<Rightarrow> bool \<Rightarrow> bool \<Rightarrow> (nat \<times> disk_row) list" where
  "disk_rows folder kv_folder has_dir has_kv_dir same =
     (if has_kv_dir \<and> \<not> (has_dir \<and> same)
      then scan_suffixes False True kv_folder (scan_suffixes True False (if has_dir then folder else None) [])
      else scan_suffixes True True (if has_dir then folder else kv_folder) [])"

definition plan_rows :: "(nat \<times> disk_row) list \<Rightarrow> cache_ref list \<Rightarrow> u64 \<Rightarrow> cache_plan" where
  "plan_rows rows refs limit =
     (let (sessions, loaded) = loaded_candidates rows [] refs;
          sessions = sessions @ unloaded_sessions loaded rows;
          orphans = orphan_files loaded rows;
          stored = sum_list (map (\<lambda>(sid, r). row_bytes r) rows)
      in if stored \<le> limit then \<lparr> drop_sessions = [], drop_orphan_kv = [], still_over = False \<rparr>
         else let (ids, rest) = evict (oldest_first sessions) stored limit;
                  (kvs, rest) = evict (oldest_first orphans) rest limit
              in \<lparr> drop_sessions = ids, drop_orphan_kv = kvs, still_over = limit < rest \<rparr>)"

text \<open>
  A folder is \<open>None\<close> where it is no directory. \<open>same\<close>: both directories exist and are the same one, or
  their normal forms agree.
\<close>

definition plan_session_cache ::
  "disk_entry list option \<Rightarrow> disk_entry list option \<Rightarrow> bool \<Rightarrow> bool \<Rightarrow> bool \<Rightarrow> cache_ref list \<Rightarrow> u64 \<Rightarrow> cache_plan" where
  "plan_session_cache folder kv_folder has_dir has_kv_dir same refs limit =
     (if limit = 0 \<or> (\<not> has_dir \<and> \<not> has_kv_dir)
      then \<lparr> drop_sessions = [], drop_orphan_kv = [], still_over = False \<rparr>
      else plan_rows (disk_rows folder kv_folder has_dir has_kv_dir same) refs limit)"

end
