(* ===== verification/Session_Disk_Proofs.thy ===== *)
theory Session_Disk_Proofs
  imports Session_Disk
begin

text \<open>
  The files of sessions: names and ids, records that come back as they were written, writing that is
  atomic under every failure, and what the size limit may remove.
\<close>

section \<open>Ids and names\<close>

lemma parse_id_decimal:
  assumes "n \<noteq> 0" and "n < 2 ^ 64"
  shows "parse_id (decimal n) = Some n"
proof -
  have "n < 10 ^ 20" using assms(2) by simp
  then have "length (decimal n) \<le> 20" by (rule decimal_length) simp
  moreover have "list_all is_digit_char (decimal n)" using decimal_digits by (auto simp: list_all_iff)
  ultimately show ?thesis
    using assms decimal_not_empty [of n] by (simp add: parse_id_def digits_value_decimal)
qed

lemma record_name_id_path: "n \<noteq> 0 \<Longrightarrow> n < 2 ^ 64 \<Longrightarrow> record_name_id (record_path n) = Some n"
  by (simp add: record_name_id_def strip_suffix_def record_path_def parse_id_decimal suffix_def)

lemma record_path_inject [simp]: "record_path m = record_path n \<longleftrightarrow> m = n"
  by (simp add: record_path_def)

lemma record_tmp_not_path [simp]: "record_tmp_path m \<noteq> record_path n" "record_path n \<noteq> record_tmp_path m"
proof -
  have "last (record_tmp_path m) \<noteq> last (record_path n)" by (simp add: record_tmp_path_def record_path_def)
  then show "record_tmp_path m \<noteq> record_path n" "record_path n \<noteq> record_tmp_path m" by metis+
qed

section \<open>Records come back\<close>

definition good_record :: "('j, 'z) json_api_scheme \<Rightarrow> 'j session_record \<Rightarrow> bool" where
  "good_record js r \<longleftrightarrow> rec_id r \<noteq> 0 \<and> is_u64 (rec_id r) \<and> good_messages (rec_messages r) \<and>
     list_all (canonical_tool js) (rec_tools r) \<and> is_int32 (rec_max_tokens r) \<and>
     rec_state r \<noteq> Unknown_state \<and> is_int32 (rec_context_used r) \<and> is_int32 (rec_context_size r) \<and>
     0 \<le> rec_updated_at r \<and> is_int64 (rec_updated_at r)"

lemma record_comes_back:
  assumes "json_contract js" and "good_record js r"
  shows "\<exists>v. record_to_json js r = Inr v \<and> record_from_json js v (rec_id r) = Inr (Some r)"
proof -
  note good = assms(2) [unfolded good_record_def]
  obtain ms where ms: "map_err (message_to_json js) (rec_messages r) = Inr ms"
      "map_err (message_from_json js) ms = Inr (rec_messages r)"
    using messages_come_back [OF assms(1)] good by blast
  obtain ts where ts: "map_err (tool_to_json js) (rec_tools r) = Inr ts"
      "map_err (tool_from_json js) ts = Inr (rec_tools r)"
    using tools_come_back [OF assms(1)] good by blast
  obtain name where name: "state_name (rec_state r) = Inr name" using good state_has_name by blast
  let ?ms = "record_members js r name ms ts"
  let ?j = "j_object js ?ms"
  have keys: "distinct (map fst ?ms)" by (simp add: record_members_def)
  have of: "map_of ?ms ''id'' = Some (j_int js (int (rec_id r)))"
    "map_of ?ms ''system'' = Some (j_string js (rec_system_prompt r))"
    "map_of ?ms ''messages'' = Some (j_array js ms)" "map_of ?ms ''tools'' = Some (j_array js ts)"
    "map_of ?ms ''questions'' = Some (j_bool js (rec_questions r))"
    "map_of ?ms ''compress_tools'' = Some (j_bool js (rec_compress_tools r))"
    "map_of ?ms ''max_tokens'' = Some (j_int js (rec_max_tokens r))"
    "map_of ?ms ''state'' = Some (j_string js name)"
    "map_of ?ms ''pending_tool_calls'' = Some (j_array js (map (call_to_json js) (rec_pending_tool_calls r)))"
    "map_of ?ms ''error'' = Some (j_string js (rec_error r))"
    "map_of ?ms ''error_code'' = Some (j_string js (rec_error_code r))"
    "map_of ?ms ''context_used'' = Some (j_int js (rec_context_used r))"
    "map_of ?ms ''context_size'' = Some (j_int js (rec_context_size r))"
    "map_of ?ms ''updated_at'' = Some (j_int js (rec_updated_at r))"
    "map_of ?ms ''pending_question'' = map_option (question_to_json js) (rec_pending_question r)"
    by (simp_all add: record_members_def map_of_app del: map_of_append)
  have q: "object_question js ''pending_question'' ?j = Inr (rec_pending_question r)"
    using assms(1) question_is_object [OF assms(1)]
    by (cases "rec_pending_question r") (simp_all add: object_question_def j_get_object keys of question_comes_back)
  have "record_from_json js ?j (rec_id r) = Inr (Some r)"
    using assms(1) good q ms(2) ts(2) unfolding record_from_json_def
    by (simp add: value_of_object array_of_object keys of j_reads calls_come_back state_name_back [OF name])
  with ms ts name show ?thesis by (simp add: record_to_json_def)
qed

section \<open>Writing\<close>

lemma write_text_effect:
  assumes "write_text d tmp body = (ok, d')"
  shows "same_device d d' \<and> (ok \<longrightarrow> file_at d' = (file_at d)(tmp \<mapsto> bytes_of body)) \<and>
    (\<forall>name. name \<noteq> tmp \<longrightarrow> file_at d' name = file_at d name) \<and> (calm d \<longrightarrow> ok)"
proof -
  obtain written t where w: "write_file d tmp (bytes_of body) = (written, t)" by fastforce
  have t: "same_device d t" "written \<longrightarrow> file_at t = (file_at d)(tmp \<mapsto> bytes_of body)"
    "\<And>name. name \<noteq> tmp \<Longrightarrow> file_at t name = file_at d name" "calm d \<longrightarrow> written"
    using write_file_effect [OF w] by (cases written; auto)+
  have "d' = t \<and> ok = written \<or> \<not> written \<and> \<not> ok \<and> d' = remove_file t tmp"
    using assms w by (auto simp: write_text_def split: fs_outcome.splits if_splits)
  with t show ?thesis by (auto simp: remove_file_other intro: same_device_trans)
qed

lemma commit_record_effect:
  assumes "commit_record d sid = (ok, d')" and "file_at d (record_tmp_path sid) = Some b"
  shows "same_device d d' \<and>
    (ok \<longrightarrow> file_at d' = (file_at d)(record_tmp_path sid := None, record_path sid \<mapsto> b)) \<and>
    (\<not> ok \<longrightarrow> (\<forall>name. name \<noteq> record_tmp_path sid \<longrightarrow> file_at d' name = file_at d name)) \<and> (calm d \<longrightarrow> ok)"
proof -
  obtain renamed t where rn: "rename_file d (record_tmp_path sid) (record_path sid) = (renamed, t)" by fastforce
  from rename_file_effect [OF rn] assms(2)
  have t: "same_device d t" "renamed \<longrightarrow> file_at t = (file_at d)(record_tmp_path sid := None, record_path sid \<mapsto> b)"
    "\<not> renamed \<longrightarrow> file_at t = file_at d" "calm d \<longrightarrow> renamed" by auto
  show ?thesis
  proof (cases renamed)
    case True
    with assms(1) rn t show ?thesis by (auto simp: commit_record_def)
  next
    case False
    with assms(1) rn have "d' = remove_file t (record_tmp_path sid)" "\<not> ok" by (auto simp: commit_record_def)
    with False t show ?thesis by (auto simp: remove_file_other intro: same_device_trans)
  qed
qed

lemma write_record_effect:
  assumes "write_session_record js dir_ok r d = (ok, d')"
  shows "same_device d d' \<and>
    (ok \<longrightarrow> (\<exists>v. record_to_json js r = Inr v \<and> file_at d' =
       (file_at d)(record_tmp_path (rec_id r) := None, record_path (rec_id r) \<mapsto> bytes_of (j_dump js v)))) \<and>
    (\<not> ok \<longrightarrow> (\<forall>name. name \<noteq> record_tmp_path (rec_id r) \<longrightarrow> file_at d' name = file_at d name)) \<and>
    (calm d \<and> dir_ok \<and> rec_id r \<noteq> 0 \<and> (\<exists>v. record_to_json js r = Inr v) \<longrightarrow> ok)"
proof (cases "dir_ok \<and> rec_id r \<noteq> 0 \<and> (\<exists>v. record_to_json js r = Inr v)")
  case True
  then obtain v where v: "record_to_json js r = Inr v" by blast
  let ?tmp = "record_tmp_path (rec_id r)"
  obtain written t where w: "write_text d ?tmp (j_dump js v) = (written, t)" by fastforce
  note t = write_text_effect [OF w]
  show ?thesis
  proof (cases written)
    case False
    with assms True v w t show ?thesis by (auto simp: write_session_record_def)
  next
    case written: True
    with assms True v w have c: "commit_record t (rec_id r) = (ok, d')" by (simp add: write_session_record_def)
    have "file_at t ?tmp = Some (bytes_of (j_dump js v))" using t written by simp
    from commit_record_effect [OF c this] t written v show ?thesis
      by (cases ok) (auto simp: same_device_def fun_eq_iff)
  qed
next
  case False
  with assms have "\<not> ok" "d' = d" by (auto simp: write_session_record_def split: sum.splits)
  with False show ?thesis by auto
qed

lemma byte_char: "char_of (unat (byte_of c)) = c"
  by (simp add: unat_byte_of)

lemma text_of_bytes [simp]: "text_of (bytes_of s) = s"
  using byte_char by (induction s) (simp_all add: text_of_def)

text \<open>
  C33. A conversation that is written to its file is there afterwards, whole, or its previous file still
  is: whatever call of the file system fails, no other file than the temporary one changes, and without
  a failure the record is stored and no temporary file is left.
\<close>

theorem session_record_write_is_atomic:
  assumes "write_session_record js dir_ok r d = (ok, d')"
  shows "(ok \<longrightarrow> (\<exists>v. record_to_json js r = Inr v \<and>
        file_at d' (record_path (rec_id r)) = Some (bytes_of (j_dump js v)) \<and>
        file_at d' (record_tmp_path (rec_id r)) = None)) \<and>
    (\<not> ok \<longrightarrow> file_at d' (record_path (rec_id r)) = file_at d (record_path (rec_id r))) \<and>
    (\<forall>name. name = record_path (rec_id r) \<or> name = record_tmp_path (rec_id r) \<or> file_at d' name = file_at d name) \<and>
    (calm d \<and> dir_ok \<and> json_contract js \<and> good_record js r \<longrightarrow> ok)"
proof -
  have "\<exists>v. record_to_json js r = Inr v" "rec_id r \<noteq> 0" if "json_contract js" "good_record js r"
    using record_comes_back [OF that] that(2) by (auto simp: good_record_def)
  with write_record_effect [OF assms] show ?thesis by (cases ok) (auto split: if_splits)
qed

section \<open>Reading\<close>

lemma read_entries_finds:
  assumes "read_entries js (\<lambda>n. True) (\<lambda>n. True) es = Some rs" and "(name, f) \<in> set es"
    and "record_name_id name = Some sid" and "length (kf_bytes f) \<le> k_max_record_bytes"
    and "read_record js sid (kf_bytes f) = Some (Some r)"
  shows "r \<in> set rs"
  using assms(1,2)
proof (induction es arbitrary: rs)
  case (Cons e es)
  obtain n g where e: "e = (n, g)" by fastforce
  show ?case
  proof (cases "e = (name, f)")
    case True
    with Cons.prems(1) assms(3-5) show ?thesis by (auto split: option.splits)
  next
    case False
    with Cons.prems(2) have m: "(name, f) \<in> set es" by simp
    from Cons.prems(1) e obtain rs' where "read_entries js (\<lambda>n. True) (\<lambda>n. True) es = Some rs'" "set rs' \<subseteq> set rs"
      by (fastforce split: option.splits if_splits)
    with Cons.IH [OF _ m] show ?thesis by blast
  qed
qed simp


section \<open>Examples\<close>

definition demo_record :: "json_tree session_record" where
  "demo_record = \<lparr> rec_id = 5, rec_system_prompt = ''s'', rec_messages = [text_message ''user'' ''hi''],
     rec_tools = [], rec_questions = True, rec_compress_tools = False, rec_max_tokens = -1, rec_state = Idle,
     rec_pending_tool_calls = [], rec_pending_question = None, rec_error = [], rec_error_code = [],
     rec_context_used = 2, rec_context_size = 8, rec_updated_at = 77 \<rparr>"

text \<open>A printer and a parser that agree on one value.\<close>

definition printing :: "json_tree \<Rightarrow> json_tree json_api" where
  "printing v = tree_json\<lparr> j_dump := (\<lambda>w. ''{v}''),
     j_parse := (\<lambda>s. if s = ''{v}'' then Inr v else Inl ''parse error'') \<rparr>"

definition demo_json :: "json_tree json_api" where
  "demo_json = printing (projr (record_to_json tree_json demo_record))"

definition demo_dir :: kv_store where
  "demo_dir = \<lparr> opened = True, files = [(''x.json'', \<lparr> kf_bytes = [], kf_mtime = 0 \<rparr>)], outcomes = [], now = 1 \<rparr>"

lemma demo_json_contract: "json_contract demo_json"
  using tree_json_contract by (simp add: demo_json_def printing_def json_contract_def)

lemma demo_record_good: "good_record demo_json demo_record"
  by (simp add: good_record_def demo_record_def is_u64_def good_messages_def text_message_def is_int32_def is_int64_def)

lemma demo_written: "fst (write_session_record demo_json True demo_record demo_dir)"
  by code_simp

theorem session_record_write_is_atomic_witness:
  "let (ok, d) = write_session_record demo_json True demo_record demo_dir
   in ok \<and> file_at d ''5.json'' = Some (bytes_of ''{v}'') \<and> file_at d ''5.json.tmp'' = None"
proof -
  obtain d where w: "write_session_record demo_json True demo_record demo_dir = (True, d)"
    using demo_written by (cases "write_session_record demo_json True demo_record demo_dir") simp
  have "record_path 5 = ''5.json''" "record_tmp_path 5 = ''5.json.tmp''" "rec_id demo_record = 5"
    "j_dump demo_json v = ''{v}''" for v
    by (simp_all add: record_path_def record_tmp_path_def decimal.simps demo_record_def demo_json_def printing_def
        char_of_def bit_nat_def)
  with session_record_write_is_atomic [OF w] w show ?thesis by auto
qed


text \<open>
  A \<open>file_size\<close> that fails ends the reading: the record behind it is there and can be read, but is
  not restored.
\<close>

definition demo_vanished :: "(string \<times> kv_file) list" where
  "demo_vanished = (''3.json'', \<lparr> kf_bytes = [], kf_mtime = 0 \<rparr>) #
     files (snd (write_session_record demo_json True demo_record demo_dir))"

lemma failed_size_ends_reading:
  "read_entries demo_json (\<lambda>name. name \<noteq> ''3.json'') (\<lambda>name. True) demo_vanished = Some [] \<and>
   map_option length (read_entries demo_json (\<lambda>name. True) (\<lambda>name. True) demo_vanished) = Some 1"
  by code_simp

text \<open>A stored call without a name reads a missing member of a constant object.\<close>

lemma nameless_call_is_undefined:
  "record_from_json tree_json (J_object [(''id'', J_int 5), (''pending_tool_calls'',
     J_array [J_object [(''id'', J_string ''1'')]])]) 5 = Inl Undefined_read"
  by code_simp

end
