(* ===== verification/Session_Disk_Plan.thy ===== *)
theory Session_Disk_Plan
  imports Session_Disk_Proofs
begin

text \<open>
  What the size limit of the session directory removes: the oldest sessions that are not in use, then
  the KV files without a session, each only while the files exceed the limit.
\<close>

definition cand_bytes :: "candidate list \<Rightarrow> nat" where
  "cand_bytes cs = sum_list (map (\<lambda>c. unat (cd_bytes c)) cs)"

lemma cand_bytes_Cons [simp]: "cand_bytes (c # cs) = unat (cd_bytes c) + cand_bytes cs" "cand_bytes [] = 0"
  by (simp_all add: cand_bytes_def)

abbreviation unpinned :: "candidate list \<Rightarrow> candidate list" where
  "unpinned cs \<equiv> filter (\<lambda>c. \<not> cd_pinned c) cs"

text \<open>The subtraction stops at 0 on both sides.\<close>

lemma unat_sub_min: "unat (x - min x y) = unat x - unat (y :: u64)"
  by (cases "x \<le> y") (auto simp: min_def unat_sub word_le_nat_alt not_le)

lemma evict_prefix:
  "evict cs stored limit = (ids, rest) \<Longrightarrow>
     \<exists>k \<le> length (unpinned cs). ids = map cd_id (take k (unpinned cs)) \<and>
       unat rest = unat stored - cand_bytes (take k (unpinned cs)) \<and>
       (\<forall>j < k. unat limit < unat stored - cand_bytes (take j (unpinned cs))) \<and>
       (k < length (unpinned cs) \<longrightarrow> rest \<le> limit)"
proof (induction cs stored limit arbitrary: ids rest rule: evict.induct)
  case (1 stored limit)
  then show ?case by simp
next
  case (2 c cs stored limit)
  show ?case
  proof (cases "stored \<le> limit")
    case True
    with 2(3) show ?thesis by (intro exI [of _ 0]) auto
  next
    case over: False
    show ?thesis
    proof (cases "cd_pinned c")
      case True
      with 2(1) [OF over True] 2(3) over show ?thesis by simp
    next
      case False
      let ?s = "stored - min stored (cd_bytes c)"
      obtain ids' where rec: "evict cs ?s limit = (ids', rest)" and ids: "ids = cd_id c # ids'"
        using 2(3) over False by (auto simp: Let_def split: prod.splits)
      from 2(2) [OF over False rec] obtain k where k: "k \<le> length (unpinned cs)"
        "ids' = map cd_id (take k (unpinned cs))"
        "unat rest = unat ?s - cand_bytes (take k (unpinned cs))"
        "\<forall>j < k. unat limit < unat ?s - cand_bytes (take j (unpinned cs))"
        "k < length (unpinned cs) \<longrightarrow> rest \<le> limit" by blast
      have "unat limit < unat stored - cand_bytes (take j (unpinned (c # cs)))" if "j < Suc k" for j
        using that over False k(4)
        by (cases j) (auto simp: unat_sub_min diff_diff_add word_le_nat_alt)
      with k ids False show ?thesis
        by (intro exI [of _ "Suc k"]) (auto simp: unat_sub_min diff_diff_add)
    qed
  qed
qed

lemma evict_unpinned: "evict cs stored limit = (ids, rest) \<Longrightarrow> set ids \<subseteq> cd_id ` set (unpinned cs)"
  using evict_prefix [of cs stored limit ids rest] set_take_subset by fastforce

text \<open>The sessions first, then the orphans with what is left.\<close>

lemma two_evictions:
  assumes "evict cs stored limit = (ids, rest)" and "evict os rest limit = (kvs, left)"
    and "unpinned os = os" and "unat stored = bytes"
  shows "\<exists>k \<le> length (unpinned cs). \<exists>m \<le> length os.
    ids = map cd_id (take k (unpinned cs)) \<and> kvs = map cd_id (take m os) \<and>
    (\<forall>j < k. unat limit < bytes - cand_bytes (take j (unpinned cs))) \<and>
    (\<forall>j < m. unat limit < bytes - cand_bytes (take k (unpinned cs)) - cand_bytes (take j os)) \<and>
    (limit < left \<longleftrightarrow> unat limit < bytes - cand_bytes (take k (unpinned cs)) - cand_bytes (take m os)) \<and>
    (limit < left \<longrightarrow> k = length (unpinned cs) \<and> m = length os)"
proof -
  from evict_prefix [OF assms(1)] assms(4) obtain k where k: "k \<le> length (unpinned cs)"
    "ids = map cd_id (take k (unpinned cs))" "unat rest = bytes - cand_bytes (take k (unpinned cs))"
    "\<forall>j < k. unat limit < bytes - cand_bytes (take j (unpinned cs))"
    "k < length (unpinned cs) \<longrightarrow> rest \<le> limit" by blast
  from evict_prefix [OF assms(2)] assms(3) obtain m where m: "m \<le> length os" "kvs = map cd_id (take m os)"
    "unat left = unat rest - cand_bytes (take m os)"
    "\<forall>j < m. unat limit < unat rest - cand_bytes (take j os)" "m < length os \<longrightarrow> left \<le> limit"
    by auto
  have "left \<le> rest" using m(3) by (simp add: word_le_nat_alt)
  then have all: "k = length (unpinned cs) \<and> m = length os" if "limit < left"
    using that k(1,5) m(1,5) by fastforce
  have left: "unat left = bytes - cand_bytes (take k (unpinned cs)) - cand_bytes (take m os)"
    using k(3) m(3) by simp
  show ?thesis
  proof (rule exI [of _ k], rule conjI [OF k(1)], rule exI [of _ m], intro conjI)
    show "\<forall>j < m. unat limit < bytes - cand_bytes (take k (unpinned cs)) - cand_bytes (take j os)"
      using m(4) k(3) by simp
    show "limit < left \<longrightarrow> k = length (unpinned cs) \<and> m = length os" using all by simp
    show "limit < left \<longleftrightarrow> unat limit < bytes - cand_bytes (take k (unpinned cs)) - cand_bytes (take m os)"
      using left by (simp add: word_less_nat_alt)
  qed (fact k m)+
qed

section \<open>The bytes of a directory\<close>

definition rows_bytes :: "(nat \<times> disk_row) list \<Rightarrow> nat" where
  "rows_bytes rows = sum_list (map (\<lambda>(sid, r). unat (dr_json_bytes r) + unat (dr_kv_bytes r)) rows)"

lemma rows_bytes_exact:
  "rows_bytes rows < 2 ^ 64 \<Longrightarrow> unat (sum_list (map (\<lambda>(sid, r). row_bytes r) rows)) = rows_bytes rows"
proof (induction rows)
  case (Cons x rows)
  obtain sid r where x: "x = (sid, r)" by fastforce
  let ?rest = "sum_list (map (\<lambda>(sid, r). row_bytes r) rows)"
  have bound: "unat (dr_json_bytes r) + unat (dr_kv_bytes r) + rows_bytes rows < 2 ^ 64"
    using Cons.prems x by (simp add: rows_bytes_def)
  then have row: "unat (row_bytes r) = unat (dr_json_bytes r) + unat (dr_kv_bytes r)"
    by (simp add: row_bytes_def unat_word_ariths)
  have "unat ?rest = rows_bytes rows" using Cons.IH bound by simp
  with row bound have "unat (row_bytes r + ?rest) = unat (row_bytes r) + rows_bytes rows"
    by (simp add: unat_word_ariths)
  with row x show ?case by (simp add: rows_bytes_def)
qed (simp add: rows_bytes_def)

section \<open>Sessions in use\<close>

lemma loaded_ids:
  "loaded_candidates rows seen refs = (cs, seen') \<Longrightarrow>
     set seen' = set seen \<union> cd_id ` set cs \<and> distinct (map cd_id cs) \<and> cd_id ` set cs \<inter> set seen = {}"
proof (induction rows seen refs arbitrary: cs seen' rule: loaded_candidates.induct)
  case (2 rows seen ref refs)
  show ?case
  proof (cases "cf_id ref = 0 \<or> cf_id ref \<in> set seen")
    case True
    with 2 show ?thesis by simp
  next
    case False
    obtain cs' where rec: "loaded_candidates rows (cf_id ref # seen) refs = (cs', seen')"
      and cs: "cs = \<lparr> cd_id = cf_id ref, cd_updated_at = cf_updated_at ref,
        cd_bytes = row_bytes (row_of rows (cf_id ref)), cd_pinned = cf_pinned ref \<rparr> # cs'"
      using 2(3) False by (auto simp: Let_def split: prod.splits)
    from 2(2) [OF False rec] cs False show ?thesis by auto
  qed
qed simp

lemma loaded_pinned:
  "loaded_candidates rows seen refs = (cs, seen') \<Longrightarrow> ref \<in> set refs \<Longrightarrow> cf_pinned ref \<Longrightarrow> cf_id ref \<noteq> 0 \<Longrightarrow>
   distinct (map cf_id refs) \<Longrightarrow> cf_id ref \<notin> set seen \<Longrightarrow> \<exists>c \<in> set cs. cd_id c = cf_id ref \<and> cd_pinned c"
proof (induction rows seen refs arbitrary: cs seen' rule: loaded_candidates.induct)
  case (2 rows seen r refs)
  show ?case
  proof (cases "cf_id r = 0 \<or> cf_id r \<in> set seen")
    case True
    with 2 show ?thesis by auto
  next
    case False
    obtain cs' where rec: "loaded_candidates rows (cf_id r # seen) refs = (cs', seen')"
      and cs: "cs = \<lparr> cd_id = cf_id r, cd_updated_at = cf_updated_at r,
        cd_bytes = row_bytes (row_of rows (cf_id r)), cd_pinned = cf_pinned r \<rparr> # cs'"
      using 2(3) False by (auto simp: Let_def split: prod.splits)
    show ?thesis
    proof (cases "ref = r")
      case True
      with cs 2(5) show ?thesis by simp
    next
      case other: False
      with 2(4) have m: "ref \<in> set refs" by simp
      then have "cf_id ref \<in> cf_id ` set refs" by simp
      with 2(7) have "cf_id ref \<noteq> cf_id r" by auto
      with 2(2) [OF False rec m] 2(5-8) cs show ?thesis by auto
    qed
  qed
qed simp

text \<open>The sessions and the orphans of a plan.\<close>

definition plan_sessions :: "(nat \<times> disk_row) list \<Rightarrow> cache_ref list \<Rightarrow> candidate list" where
  "plan_sessions rows refs =
     (let (sessions, loaded) = loaded_candidates rows [] refs in sessions @ unloaded_sessions loaded rows)"

definition plan_orphans :: "(nat \<times> disk_row) list \<Rightarrow> cache_ref list \<Rightarrow> candidate list" where
  "plan_orphans rows refs = orphan_files (snd (loaded_candidates rows [] refs)) rows"

lemma in_use_not_dropped:
  assumes "ref \<in> set refs" and "cf_pinned ref" and "cf_id ref \<noteq> 0" and "distinct (map cf_id refs)"
  shows "cf_id ref \<notin> cd_id ` set (unpinned (plan_sessions rows refs))" (is ?sessions)
    and "cf_id ref \<notin> cd_id ` set (plan_orphans rows refs)" (is ?orphans)
proof -
  obtain cs seen where l: "loaded_candidates rows [] refs = (cs, seen)" by fastforce
  note ids = loaded_ids [OF l]
  from loaded_pinned [OF l assms(1-4)] obtain c where c: "c \<in> set cs" "cd_id c = cf_id ref" "cd_pinned c" by auto
  have seen: "cf_id ref \<in> set seen" using c ids by force
  then show ?orphans using l by (auto simp: plan_orphans_def orphan_files_def)
  show ?sessions
  proof
    assume "cf_id ref \<in> cd_id ` set (unpinned (plan_sessions rows refs))"
    then obtain d where d: "d \<in> set (plan_sessions rows refs)" "\<not> cd_pinned d" "cd_id d = cf_id ref" by auto
    show False
    proof (cases "d \<in> set cs")
      case True
      with c d ids have "c = d" by (auto simp: distinct_map inj_on_def)
      with c d show False by simp
    next
      case False
      with d l seen show False by (auto simp: plan_sessions_def unloaded_sessions_def)
    qed
  qed
qed

lemma oldest_first_set [simp]: "set (oldest_first cs) = set cs"
  by (simp add: oldest_first_def)

lemma plan_keeps_pinned:
  assumes "ref \<in> set refs" and "cf_pinned ref" and "cf_id ref \<noteq> 0" and "distinct (map cf_id refs)"
  shows "cf_id ref \<notin> set (drop_sessions (plan_session_cache folder kv_folder has_dir has_kv_dir same refs limit)) \<and>
    cf_id ref \<notin> set (drop_orphan_kv (plan_session_cache folder kv_folder has_dir has_kv_dir same refs limit))"
proof -
  let ?rows = "disk_rows folder kv_folder has_dir has_kv_dir same"
  let ?plan = "plan_session_cache folder kv_folder has_dir has_kv_dir same refs limit"
  have "set (drop_sessions ?plan) \<subseteq> cd_id ` set (unpinned (plan_sessions ?rows refs)) \<and>
    set (drop_orphan_kv ?plan) \<subseteq> cd_id ` set (unpinned (plan_orphans ?rows refs))"
    using evict_unpinned
    by (force simp: plan_session_cache_def plan_rows_def plan_sessions_def plan_orphans_def Let_def split: prod.splits)
  with in_use_not_dropped [OF assms, of ?rows] show ?thesis by auto
qed

lemma orphans_unpinned: "unpinned (oldest_first (plan_orphans rows refs)) = oldest_first (plan_orphans rows refs)"
  by (rule filter_True) (auto simp: plan_orphans_def orphan_files_def)


definition demo_entries :: "disk_entry list" where
  "demo_entries = [(''7.json'', Some 6, Some 50), (''8.json'', Some 5, Some 60), (''9.kv'', Some 4, Some 10)]"

definition demo_refs :: "cache_ref list" where
  "demo_refs = [\<lparr> cf_id = 7, cf_updated_at = 50, cf_pinned = True \<rparr>]"

lemma demo_rows: "rows_bytes (disk_rows (Some demo_entries) None True False False) = 15"
  by code_simp


text \<open>
  Sessions go before files without a session, whatever their age: here the conversation of time 60 is
  dropped and the KV file of time 10, which no session can use, stays.
\<close>

lemma older_orphan_stays:
  "let plan = plan_session_cache (Some demo_entries) None True False False demo_refs 11
   in drop_sessions plan = [8] \<and> drop_orphan_kv plan = []"
  by code_simp

end
