(* ===== verification/Sessions.thy ===== *)
theory Sessions
  imports Session_Turns Session_Disk_Plan
begin

text \<open>
  \<open>Sessions\<close> of \<open>src/server/sessions/sessions.cpp\<close>: all conversations, their files, and what is asked of
  the job runner, kept as a list of requests in the order they are made. Each operation is its critical
  sections in sequence, run without another operation between them; what a running turn does to one
  session meanwhile is the subject of \<open>Session_Turns\<close>. The map is an association list, its order that
  of the library's iteration. New ids come from a clock and are arguments; so is what the file system
  shows to the size limit.
\<close>

section \<open>State\<close>

datatype 'j job_request =
    Release string
  | Clone string string
  | Cancel nat
  | Enqueue nat "'j messages_request"

record 'j sessions =
  sx_sessions :: "(nat \<times> 'j session) list"
  sx_has_dir :: bool
  sx_disk :: kv_store
  sx_cache_limit :: u64
  sx_requests :: "'j job_request list"

text \<open>
  What the size limit sees: both folders, whether a KV folder is set and is the same one, and the
  session whose turn the worker is in where the caller is the worker.
\<close>

record cache_view =
  cv_folder :: "disk_entry list option"
  cv_kv_folder :: "disk_entry list option"
  cv_has_kv_dir :: bool
  cv_same :: bool
  cv_worker_session :: "nat option"

definition k_max_sessions :: nat where
  "k_max_sessions = 256"

definition k_idle_ttl :: int where
  "k_idle_ttl = 600 * 1000000000"

definition get_session :: "nat \<Rightarrow> 'j sessions \<Rightarrow> 'j session option" where
  "get_session sid x = map_of (sx_sessions x) sid"

definition put_session :: "nat \<Rightarrow> 'j session \<Rightarrow> 'j sessions \<Rightarrow> 'j sessions" where
  "put_session sid s x = x\<lparr> sx_sessions := AList.update sid s (sx_sessions x) \<rparr>"

definition ask :: "'j job_request list \<Rightarrow> 'j sessions \<Rightarrow> 'j sessions" where
  "ask rs x = x\<lparr> sx_requests := sx_requests x @ rs \<rparr>"

definition forget_file :: "nat \<Rightarrow> 'j sessions \<Rightarrow> 'j sessions" where
  "forget_file sid x = x\<lparr> sx_disk := remove_session_record (sx_has_dir x) sid (sx_disk x) \<rparr>"

section \<open>Collecting idle sessions\<close>

definition gc_collects :: "int \<Rightarrow> 'j session \<Rightarrow> bool" where
  "gc_collects tick s \<longleftrightarrow> is_gc_idle s \<and> \<not> tick - sn_last_active s \<le> k_idle_ttl"

definition sessions_gc :: "int \<Rightarrow> 'j sessions \<Rightarrow> 'j sessions" where
  "sessions_gc tick x =
     (let gone = map fst (filter (\<lambda>(sid, s). gc_collects tick s) (sx_sessions x));
          x = x\<lparr> sx_sessions := filter (\<lambda>(sid, s). \<not> gc_collects tick s) (sx_sessions x) \<rparr>
      in fold (\<lambda>sid x. forget_file sid (ask [Release (decimal sid)] x)) gone x)"

section \<open>The size limit\<close>

definition cache_refs :: "nat \<Rightarrow> cache_view \<Rightarrow> 'j sessions \<Rightarrow> cache_ref list" where
  "cache_refs keep view x =
     map (\<lambda>(sid, s). \<lparr> cf_id = sid, cf_updated_at = sn_updated_at s,
            cf_pinned = (sid = keep \<or> \<not> is_gc_idle s \<or> cv_worker_session view = Some sid) \<rparr>) (sx_sessions x)"

definition drop_session :: "nat \<Rightarrow> 'j sessions \<Rightarrow> 'j sessions" where
  "drop_session sid x =
     (let s = get_session sid x;
          x = forget_file sid (x\<lparr> sx_sessions := AList.delete sid (sx_sessions x) \<rparr>)
      in ask ((case s of None \<Rightarrow> [] | Some s \<Rightarrow> (case sn_active_job s of None \<Rightarrow> [] | Some k \<Rightarrow> [Cancel k])) @
              [Release (decimal sid)]) x)"

definition enforce_cache_limit :: "nat \<Rightarrow> cache_view \<Rightarrow> 'j sessions \<Rightarrow> 'j sessions" where
  "enforce_cache_limit keep view x =
     (if sx_cache_limit x = 0 \<or> \<not> sx_has_dir x then x
      else
        let plan = plan_session_cache (cv_folder view) (cv_kv_folder view) True (cv_has_kv_dir view)
                     (cv_same view) (cache_refs keep view x) (sx_cache_limit x)
        in ask (map (\<lambda>sid. Release (decimal sid)) (drop_orphan_kv plan))
             (fold drop_session (drop_sessions plan) x))"

definition save_session ::
  "('j, 'z) json_api_scheme \<Rightarrow> cache_view \<Rightarrow> nat \<Rightarrow> 'j sessions \<Rightarrow> 'j sessions" where
  "save_session js view sid x =
     (if \<not> sx_has_dir x then x
      else case get_session sid x of
             None \<Rightarrow> x
           | Some s \<Rightarrow>
               (let (written, d) = write_session_record js True (record_of s) (sx_disk x);
                    x = x\<lparr> sx_disk := d \<rparr>
                in if written then enforce_cache_limit sid view x else x))"

section \<open>Requests\<close>

definition note_resume ::
  "('j, 'z) json_api_scheme \<Rightarrow> cache_view \<Rightarrow> nat \<Rightarrow> clocks \<Rightarrow> 'j sessions \<Rightarrow> (session_error + unit) \<times> 'j sessions" where
  "note_resume js view sid clk x =
     (case get_session sid x of
        None \<Rightarrow> (Inl (Not_found ''session not found''), x)
      | Some s \<Rightarrow> (Inr (), save_session js view sid (put_session sid (mark_updated clk s) x)))"

text \<open>The new session is added under the lock that also collects and counts.\<close>

definition add_session :: "clocks \<Rightarrow> 'j session \<Rightarrow> 'j sessions \<Rightarrow> (session_error + nat) \<times> 'j sessions" where
  "add_session clk s x =
     (let x = sessions_gc (snd clk) x
      in if k_max_sessions \<le> length (sx_sessions x) then (Inl (Busy ''too many sessions''), x)
         else (Inr (sn_id s), put_session (sn_id s) s x))"

definition create_session ::
  "('j, 'z) json_api_scheme \<Rightarrow> 'j model_adapter \<Rightarrow> cache_view \<Rightarrow> int \<Rightarrow> 'j create_request \<Rightarrow> nat \<Rightarrow> clocks \<Rightarrow>
    'j sessions \<Rightarrow> (session_error + nat) \<times> 'j sessions" where
  "create_session js adapter view ctx req fresh clk x =
     (if cr_id req \<noteq> 0
      then (case note_resume js view (cr_id req) clk x of
              (Inl e, x) \<Rightarrow> (Inl e, x)
            | (Inr u, x) \<Rightarrow> (Inr (cr_id req), x))
      else (case add_session clk (set_context_usage 0 ctx (configure adapter req clk (new_session fresh clk))) x of
              (Inl e, x) \<Rightarrow> (Inl e, x)
            | (Inr sid, x) \<Rightarrow> (Inr sid, save_session js view sid x)))"

definition snapshot_session ::
  "('j, 'z) json_api_scheme \<Rightarrow> cache_view \<Rightarrow> int \<Rightarrow> nat \<Rightarrow> nat \<Rightarrow> clocks \<Rightarrow> 'j sessions \<Rightarrow>
    (session_error + nat) \<times> 'j sessions" where
  "snapshot_session js view ctx sid fresh clk x =
     (case get_session sid x of
        None \<Rightarrow> (Inl (Not_found ''session not found''), x)
      | Some parent \<Rightarrow>
          if sn_active_job parent \<noteq> None then (Inl (Busy ''session is generating''), x)
          else
            let child = load_clone (capture_session [''sub_agent''] parent) clk (new_session fresh clk);
                child = set_context_usage (sn_context_used parent)
                  (if 0 < sn_context_size parent then sn_context_size parent else ctx) child
            in (case add_session clk child x of
                  (Inl e, x) \<Rightarrow> (Inl e, x)
                | (Inr c, x) \<Rightarrow> (Inr c, ask [Clone (decimal sid) (decimal c)] (save_session js view c x))))"

definition list_sessions :: "'j sessions \<Rightarrow> 'j session list" where
  "list_sessions x = sort_key (\<lambda>s. - int (sn_id s)) (map snd (sx_sessions x))"

definition destroy_session :: "nat \<Rightarrow> 'j sessions \<Rightarrow> 'j session option \<times> 'j sessions" where
  "destroy_session sid x =
     (case get_session sid x of None \<Rightarrow> (None, x) | Some s \<Rightarrow> (Some s, drop_session sid x))"

text \<open>The records are those \<open>read_session_records\<close> found in the directory.\<close>

fun load_records :: "clocks \<Rightarrow> 'j session_record list \<Rightarrow> 'j sessions \<Rightarrow> 'j sessions" where
  "load_records clk [] x = x"
| "load_records clk (r # rs) x =
     (if rec_id r \<in> fst ` set (sx_sessions x) then load_records clk rs x
      else if k_max_sessions \<le> length (sx_sessions x) then load_records clk rs x
      else load_records clk rs (put_session (rec_id r) (restore r clk (new_session (rec_id r) clk)) x))"

definition load_sessions ::
  "cache_view \<Rightarrow> bool \<Rightarrow> u64 \<Rightarrow> clocks \<Rightarrow> 'j session_record list \<Rightarrow> 'j sessions \<Rightarrow> 'j sessions" where
  "load_sessions view has_dir limit clk records x =
     (let x = x\<lparr> sx_has_dir := has_dir, sx_cache_limit := limit \<rparr>
      in if \<not> has_dir then x else enforce_cache_limit 0 view (load_records clk records x))"

section \<open>Turns\<close>

definition enqueue_generation ::
  "nat \<Rightarrow> clocks \<Rightarrow> nat \<Rightarrow> 'j session \<Rightarrow> 'j sessions \<Rightarrow> (session_error + nat) \<times> 'j sessions" where
  "enqueue_generation key clk sid s x =
     (case begin_generation key clk s of
        Inl e \<Rightarrow> (Inl e, x)
      | Inr (req, s) \<Rightarrow> (Inr key, ask [Enqueue key req] (x\<lparr> sx_sessions := AList.map_entry sid (\<lambda>u. s) (sx_sessions x) \<rparr>)))"

text \<open>Both ways to submit a turn end alike: the session is saved and a job is queued.\<close>

definition submit_turn ::
  "('j, 'z) json_api_scheme \<Rightarrow> cache_view \<Rightarrow> nat \<Rightarrow> clocks \<Rightarrow> nat \<Rightarrow> session_error + 'j session \<Rightarrow>
    'j sessions \<Rightarrow> (session_error + nat) \<times> 'j sessions" where
  "submit_turn js view key clk sid submitted x =
     (case submitted of
        Inl e \<Rightarrow> (Inl e, x)
      | Inr s \<Rightarrow> enqueue_generation key clk sid s (save_session js view sid (put_session sid s x)))"

definition post_message ::
  "('j, 'z) json_api_scheme \<Rightarrow> cache_view \<Rightarrow> nat \<Rightarrow> clocks \<Rightarrow> nat \<Rightarrow> session_message \<Rightarrow> 'j sessions \<Rightarrow>
    (session_error + nat) \<times> 'j sessions" where
  "post_message js view key clk sid msg x =
     (case get_session sid x of
        None \<Rightarrow> (Inl (Not_found ''session not found''), x)
      | Some s \<Rightarrow>
          if sm_content msg = [] then (Inl (Bad_body ''content is required''), x)
          else submit_turn js view key clk sid (accept_user_message msg clk s) x)"

definition post_tool_results ::
  "('j, 'z) json_api_scheme \<Rightarrow> cache_view \<Rightarrow> nat \<Rightarrow> clocks \<Rightarrow> nat \<Rightarrow> tool_result_item list \<Rightarrow> 'j sessions \<Rightarrow>
    (session_error + nat) \<times> 'j sessions" where
  "post_tool_results js view key clk sid results x =
     (case get_session sid x of
        None \<Rightarrow> (Inl (Not_found ''session not found''), x)
      | Some s \<Rightarrow>
          if results = [] then (Inl (Bad_body ''tool_results must be a non-empty array''), x)
          else submit_turn js view key clk sid (accept_tool_results results clk s) x)"

text \<open>
  The callback of a finished task holds the session weakly: a session that is no longer in the map is
  gone, as no operation is between its critical sections here.
\<close>

definition on_job_finished ::
  "('j, 'z) json_api_scheme \<Rightarrow> 'j model_adapter \<Rightarrow> cache_view \<Rightarrow> nat \<Rightarrow> 'j task \<Rightarrow> clocks \<Rightarrow> nat \<Rightarrow>
    'j sessions \<Rightarrow> 'j sessions" where
  "on_job_finished js adapter view key t clk sid x =
     (case get_session sid x of
        None \<Rightarrow> x
      | Some s \<Rightarrow> save_session js view sid (put_session sid (complete_job js adapter key t clk s) x))"

end
