(* ===== verification/Sessions_Proofs.thy ===== *)
theory Sessions_Proofs
  imports Sessions
begin

text \<open>
  All sessions together: the invariant of the map under every operation, that a session the client or
  the worker still needs is never removed behind their back, and that a request either queues exactly
  one job on a saved session or changes nothing.
\<close>

section \<open>Steps\<close>

text \<open>
  \<open>sessions_keep\<close> are the operations that no client asks to delete anything with, \<open>sessions_step\<close> all.
  Ids are taken from a clock and are not 0.
\<close>

inductive sessions_keep ::
  "('j, 'z) json_api_scheme \<Rightarrow> 'j model_adapter \<Rightarrow> 'j sessions \<Rightarrow> 'j sessions \<Rightarrow> bool"
  for js adapter where
  op_create: "fresh \<noteq> 0 \<Longrightarrow> create_session js adapter view ctx req fresh clk x = (r, x') \<Longrightarrow> sessions_keep js adapter x x'"
| op_snapshot: "fresh \<noteq> 0 \<Longrightarrow> snapshot_session js view ctx sid fresh clk x = (r, x') \<Longrightarrow> sessions_keep js adapter x x'"
| op_resume: "note_resume js view sid clk x = (r, x') \<Longrightarrow> sessions_keep js adapter x x'"
| op_message: "post_message js view key clk sid msg x = (r, x') \<Longrightarrow> sessions_keep js adapter x x'"
| op_results: "post_tool_results js view key clk sid results x = (r, x') \<Longrightarrow> sessions_keep js adapter x x'"
| op_gc: "sessions_keep js adapter x (sessions_gc tick x)"
| op_touch: "get_session sid x = Some s \<Longrightarrow> sessions_keep js adapter x (put_session sid (touch clk s) x)"

inductive sessions_step ::
  "('j, 'z) json_api_scheme \<Rightarrow> 'j model_adapter \<Rightarrow> 'j sessions \<Rightarrow> 'j sessions \<Rightarrow> bool"
  for js adapter where
  op_keep: "sessions_keep js adapter x x' \<Longrightarrow> sessions_step js adapter x x'"
| op_destroy: "destroy_session sid x = (r, x') \<Longrightarrow> sessions_step js adapter x x'"
| op_finished: "sessions_step js adapter x (on_job_finished js adapter view key t clk sid x)"

section \<open>The map\<close>

definition sessions_ok :: "(nat \<times> 'j session) list \<Rightarrow> bool" where
  "sessions_ok m \<longleftrightarrow> distinct (map fst m) \<and> length m \<le> k_max_sessions \<and>
     (\<forall>(sid, s) \<in> set m. sn_id s = sid \<and> sid \<noteq> 0 \<and> session_inv s)"

lemma filter_ok: "sessions_ok m \<Longrightarrow> sessions_ok (filter P m)"
proof -
  assume ok: "sessions_ok m"
  then have "length (filter P m) \<le> k_max_sessions"
    using length_filter_le [of P m] unfolding sessions_ok_def by linarith
  with ok show ?thesis by (auto simp: sessions_ok_def distinct_map_filter)
qed

lemma update_length: "sid \<in> fst ` set m \<Longrightarrow> length (AList.update sid s m) = length m"
  by (induction m) auto

lemma update_length_new: "length (AList.update sid s m) \<le> Suc (length m)"
  by (induction m) auto

lemma update_ok:
  assumes "sessions_ok m" and "sn_id s = sid" and "sid \<noteq> 0" and "session_inv s"
    and "sid \<in> fst ` set m \<or> length m < k_max_sessions"
  shows "sessions_ok (AList.update sid s m)"
proof -
  have "length (AList.update sid s m) \<le> k_max_sessions"
    using assms(1,5) update_length [of sid m s] update_length_new [of sid s m]
    by (cases "sid \<in> fst ` set m") (simp_all add: sessions_ok_def)
  moreover have "(i, u) \<in> set m \<or> (i, u) = (sid, s)" if "(i, u) \<in> set (AList.update sid s m)" for i u
    using that by (induction m) (auto split: if_splits)
  ultimately show ?thesis using assms(1-4) by (fastforce simp: sessions_ok_def distinct_update)
qed

lemma get_in: "get_session sid x = Some s \<Longrightarrow> (sid, s) \<in> set (sx_sessions x)"
  by (simp add: get_session_def map_of_SomeD)

lemma get_ok: "sessions_ok (sx_sessions x) \<Longrightarrow> get_session sid x = Some s \<Longrightarrow> sn_id s = sid \<and> sid \<noteq> 0 \<and> session_inv s"
  by (auto simp: sessions_ok_def dest: get_in)

lemma put_ok:
  assumes "sessions_ok (sx_sessions x)" and "get_session sid x = Some u" and "sn_id s = sid" and "session_inv s"
  shows "sessions_ok (sx_sessions (put_session sid s x))"
  using assms get_in [OF assms(2)] get_ok [OF assms(1,2)]
  by (auto simp: put_session_def intro!: update_ok rev_image_eqI)

lemma ask_sessions [simp]: "sx_sessions (ask rs x) = sx_sessions x" "sx_sessions (forget_file sid x) = sx_sessions x"
  by (simp_all add: ask_def forget_file_def)

lemma get_put [simp]: "get_session i (put_session sid s x) = (if i = sid then Some s else get_session i x)"
  by (simp add: get_session_def put_session_def update_conv')

section \<open>Removals\<close>

lemma fold_forget [simp]: "sx_sessions (fold (\<lambda>sid x. forget_file sid (ask (f sid) x)) ids x) = sx_sessions x"
  by (induction ids arbitrary: x) simp_all

lemma gc_sessions: "sx_sessions (sessions_gc tick x) = filter (\<lambda>(sid, s). \<not> gc_collects tick s) (sx_sessions x)"
  by (simp add: sessions_gc_def Let_def)

lemma drop_session_sessions: "sx_sessions (drop_session sid x) = filter (\<lambda>(i, s). i \<noteq> sid) (sx_sessions x)"
  by (simp add: drop_session_def Let_def AList.delete_eq case_prod_beta' eq_commute)

lemma fold_drop_sessions:
  "sx_sessions (fold drop_session ids x) = filter (\<lambda>(i, s). i \<notin> set ids) (sx_sessions x)"
  by (induction ids arbitrary: x) (simp_all add: drop_session_sessions case_prod_beta' conj_commute)

definition kept_by_limit :: "nat \<Rightarrow> cache_view \<Rightarrow> 'j sessions \<Rightarrow> nat \<Rightarrow> bool" where
  "kept_by_limit keep view x sid \<longleftrightarrow> sid \<notin> set (drop_sessions
     (plan_session_cache (cv_folder view) (cv_kv_folder view) True (cv_has_kv_dir view) (cv_same view)
        (cache_refs keep view x) (sx_cache_limit x)))"

lemma enforce_sessions:
  "sx_sessions (enforce_cache_limit keep view x) =
     (if sx_cache_limit x = 0 \<or> \<not> sx_has_dir x then sx_sessions x
      else filter (\<lambda>(i, s). kept_by_limit keep view x i) (sx_sessions x))"
  by (simp add: enforce_cache_limit_def fold_drop_sessions kept_by_limit_def Let_def)

lemma enforce_ok: "sessions_ok (sx_sessions x) \<Longrightarrow> sessions_ok (sx_sessions (enforce_cache_limit keep view x))"
  by (simp add: enforce_sessions filter_ok)

lemma limit_keeps:
  assumes "distinct (map fst (sx_sessions x))" and "get_session sid x = Some s" and "sid \<noteq> 0"
    and "sid = keep \<or> \<not> is_gc_idle s"
  shows "kept_by_limit keep view x sid"
proof -
  let ?ref = "\<lparr> cf_id = sid, cf_updated_at = sn_updated_at s,
    cf_pinned = (sid = keep \<or> \<not> is_gc_idle s \<or> cv_worker_session view = Some sid) \<rparr>"
  have "?ref \<in> set (cache_refs keep view x)"
    using get_in [OF assms(2)] by (auto simp: cache_refs_def intro!: rev_image_eqI)
  moreover have "cf_pinned ?ref" using assms(4) by auto
  moreover have "map cf_id (cache_refs keep view x) = map fst (sx_sessions x)"
    by (simp add: cache_refs_def case_prod_beta')
  ultimately show ?thesis
    using plan_keeps_pinned [of ?ref "cache_refs keep view x"] assms(1,3) by (simp add: kept_by_limit_def)
qed

lemma save_ok: "sessions_ok (sx_sessions x) \<Longrightarrow> sessions_ok (sx_sessions (save_session js view sid x))"
  by (auto simp: save_session_def enforce_sessions filter_ok Let_def split: option.splits prod.splits)

lemma map_of_filter_key:
  "distinct (map fst m) \<Longrightarrow> map_of m k = Some v \<Longrightarrow> P k v \<Longrightarrow> map_of (filter (\<lambda>(i, s). P i s) m) k = Some v"
  by (induction m) (auto dest: map_of_SomeD simp: image_iff)

lemma save_keeps:
  assumes "distinct (map fst (sx_sessions x))" and "get_session i x = Some s" and "i \<noteq> 0"
    and "i = sid \<or> \<not> is_gc_idle s"
  shows "get_session i (save_session js view sid x) = Some s"
proof (cases "get_session sid x")
  case None
  with assms show ?thesis by (simp add: save_session_def)
next
  case (Some u)
  obtain ok d where w: "write_session_record js True (record_of u) (sx_disk x) = (ok, d)" by fastforce
  let ?x = "x\<lparr> sx_disk := d \<rparr>"
  have "kept_by_limit sid view ?x i"
    using assms by (intro limit_keeps [of ?x i s]) (simp_all add: get_session_def)
  then have "get_session i (enforce_cache_limit sid view ?x) = Some s"
    using assms(1,2) map_of_filter_key [of "sx_sessions x" i s "\<lambda>i s. kept_by_limit sid view ?x i"]
    by (simp add: get_session_def enforce_sessions)
  with assms(2) Some w show ?thesis by (auto simp: save_session_def get_session_def Let_def)
qed

section \<open>The operations keep the map\<close>

lemma gc_ok: "sessions_ok (sx_sessions x) \<Longrightarrow> sessions_ok (sx_sessions (sessions_gc tick x))"
  by (simp add: gc_sessions filter_ok)

lemma add_ok:
  assumes "sessions_ok (sx_sessions x)" and "session_inv s" and "sn_id s \<noteq> 0" and "add_session clk s x = (r, x')"
  shows "sessions_ok (sx_sessions x')"
proof (cases "k_max_sessions \<le> length (sx_sessions (sessions_gc (snd clk) x))")
  case True
  with assms(1,4) gc_ok show ?thesis by (auto simp: add_session_def Let_def)
next
  case False
  then have "sessions_ok (AList.update (sn_id s) s (sx_sessions (sessions_gc (snd clk) x)))"
    using gc_ok [OF assms(1)] assms(2,3) by (intro update_ok) simp_all
  with False assms(4) show ?thesis by (auto simp: add_session_def Let_def put_session_def)
qed

lemma resume_ok:
  assumes "sessions_ok (sx_sessions x)" and "note_resume js view sid clk x = (r, x')"
  shows "sessions_ok (sx_sessions x')"
proof (cases "get_session sid x")
  case (Some s)
  have "sessions_ok (sx_sessions (put_session sid (mark_updated clk s) x))"
    using get_ok [OF assms(1) Some] by (intro put_ok [OF assms(1) Some]) (simp_all, simp add: mark_updated_def)
  with Some assms(2) show ?thesis by (auto simp: note_resume_def intro: save_ok)
qed (use assms in \<open>simp add: note_resume_def\<close>)

lemma usage_inv: "session_inv s \<Longrightarrow> session_inv (set_context_usage used total_ctx s)"
  by (auto simp: session_inv_def rollback_ok_def set_context_usage_def Let_def)

lemma fresh_id:
  "sn_id (set_context_usage used total_ctx (configure adapter req clk (new_session fresh clk'))) = fresh"
  "sn_id (set_context_usage used total_ctx (load_clone c clk (new_session fresh clk'))) = fresh"
  by (simp_all add: set_context_usage_def configure_def load_clone_def mark_updated_def new_session_def Let_def)

lemma fresh_inv:
  "session_inv (configure adapter req clk (new_session fresh clk'))"
  "session_inv (load_clone c clk (new_session fresh clk'))"
  using new_session_inv [of fresh clk']
  by (simp_all add: configure_def load_clone_def mark_updated_def session_inv_def rollback_ok_def new_session_def)

lemma create_ok:
  assumes "sessions_ok (sx_sessions x)" and "fresh \<noteq> 0"
    and "create_session js adapter view ctx req fresh clk x = (r, x')"
  shows "sessions_ok (sx_sessions x')"
proof (cases "cr_id req = 0")
  case True
  let ?s = "set_context_usage 0 ctx (configure adapter req clk (new_session fresh clk))"
  obtain r1 x1 where a: "add_session clk ?s x = (r1, x1)" by fastforce
  have "sessions_ok (sx_sessions x1)"
    by (rule add_ok [OF assms(1) _ _ a]) (simp_all add: usage_inv fresh_inv fresh_id assms(2))
  with True assms(3) a show ?thesis by (auto simp: create_session_def save_ok split: sum.splits)
next
  case False
  obtain r1 x1 where n: "note_resume js view (cr_id req) clk x = (r1, x1)" by fastforce
  from resume_ok [OF assms(1) n] False assms(3) n show ?thesis
    by (auto simp: create_session_def split: sum.splits)
qed

lemma snapshot_ok:
  assumes "sessions_ok (sx_sessions x)" and "fresh \<noteq> 0"
    and "snapshot_session js view ctx sid fresh clk x = (r, x')"
  shows "sessions_ok (sx_sessions x')"
proof (cases "get_session sid x")
  case None
  with assms show ?thesis by (simp add: snapshot_session_def)
next
  case (Some p)
  let ?c = "set_context_usage (sn_context_used p) (if 0 < sn_context_size p then sn_context_size p else ctx)
    (load_clone (capture_session [''sub_agent''] p) clk (new_session fresh clk))"
  obtain r1 x1 where a: "add_session clk ?c x = (r1, x1)" by fastforce
  have "sessions_ok (sx_sessions x1)"
    by (rule add_ok [OF assms(1) _ _ a]) (simp_all add: usage_inv fresh_inv fresh_id assms(2))
  with Some assms a show ?thesis
    by (auto simp: snapshot_session_def Let_def save_ok split: sum.splits if_splits)
qed

lemma keeps_id: "accept_user_message msg clk s = Inr s' \<Longrightarrow> sn_id s' = sn_id s"
    "accept_tool_results rs clk s = Inr s' \<Longrightarrow> sn_id s' = sn_id s"
    "begin_generation key clk s = Inr (req, s') \<Longrightarrow> sn_id s' = sn_id s"
  by (auto simp: accept_user_message_def accept_tool_results_def begin_generation_def turn_defs split: if_splits)

lemma complete_keeps_id: "sn_id (complete_job js adapter key t clk s) = sn_id s"
  by (simp add: complete_job_def job_over_def failed_turn_def rollback_last_turn_def cancelled_turn_def
      done_turn_def await_actions_def turn_defs)

lemma accepted_idle:
  "accept_user_message msg clk s = Inr s' \<Longrightarrow> session_inv s \<Longrightarrow> \<not> generation_active s'"
  "accept_tool_results rs clk s = Inr s' \<Longrightarrow> session_inv s \<Longrightarrow> \<not> generation_active s'"
  by (auto simp: accept_user_message_def accept_tool_results_def turn_defs split: if_splits)

lemma map_entry_put:
  "sid \<in> fst ` set m \<Longrightarrow> distinct (map fst m) \<Longrightarrow> AList.map_entry sid (\<lambda>u. s) m = AList.update sid s m"
  by (induction m) auto

text \<open>What a submitted turn leaves.\<close>

lemma submit_turn_effect:
  fixes js :: "('j, 'z) json_api_scheme" and view :: cache_view
  assumes "sessions_ok (sx_sessions x)" and "get_session sid x = Some u"
    and "sn_id s = sid" and "session_inv s" and "\<not> generation_active s"
  defines "x1 \<equiv> save_session js view sid (put_session sid s x)"
  shows "get_session sid x1 = Some s"
    and "\<exists>s'. begin_generation key clk s = Inr (generation_request s, s') \<and>
      submit_turn js view key clk sid (Inr s) x =
        (Inr key, ask [Enqueue key (generation_request s)] (put_session sid s' x1)) \<and>
      sn_id s' = sid \<and> session_inv s' \<and> sn_active_job s' = Some key \<and> sn_messages s' = sn_messages s"
    and "sessions_ok (sx_sessions x1)"
proof -
  have put: "sessions_ok (sx_sessions (put_session sid s x))" using assms(1-4) by (rule put_ok)
  then show ok: "sessions_ok (sx_sessions x1)" unfolding x1_def by (rule save_ok)
  show got: "get_session sid x1 = Some s"
    unfolding x1_def using put get_ok [OF assms(1,2)] by (intro save_keeps) (simp_all add: sessions_ok_def)
  obtain s' where b: "begin_generation key clk s = Inr (generation_request s, s')"
    using assms(5) by (simp add: begin_generation_def)
  have "AList.map_entry sid (\<lambda>u. s') (sx_sessions x1) = AList.update sid s' (sx_sessions x1)"
    using ok get_in [OF got] by (intro map_entry_put) (auto simp: sessions_ok_def intro!: rev_image_eqI)
  then have "submit_turn js view key clk sid (Inr s) x =
      (Inr key, ask [Enqueue key (generation_request s)] (put_session sid s' x1))"
    using b by (simp add: submit_turn_def enqueue_generation_def x1_def put_session_def)
  moreover have "sn_messages s' = sn_messages s" "sn_active_job s' = Some key"
    using b by (auto simp: begin_generation_def clear_pending_def split: if_splits)
  ultimately show "\<exists>s'. begin_generation key clk s = Inr (generation_request s, s') \<and>
      submit_turn js view key clk sid (Inr s) x =
        (Inr key, ask [Enqueue key (generation_request s)] (put_session sid s' x1)) \<and>
      sn_id s' = sid \<and> session_inv s' \<and> sn_active_job s' = Some key \<and> sn_messages s' = sn_messages s"
    using b keeps_id(3) [OF b] begin_inv [OF assms(4) b] assms(3) by blast
qed

section \<open>Properties\<close>

lemma put_running_ok:
  assumes "sessions_ok (sx_sessions x)" and "get_session sid x = Some u" and "sn_id s' = sid" and "session_inv s'"
  shows "sessions_ok (sx_sessions (ask rs (put_session sid s' x)))"
  using put_ok [OF assms] by simp

lemma submit_turn_ok:
  assumes "sessions_ok (sx_sessions x)" and "get_session sid x = Some u"
    and "\<And>s. submitted = Inr s \<Longrightarrow> sn_id s = sid \<and> session_inv s \<and> \<not> generation_active s"
    and "submit_turn js view key clk sid submitted x = (r, x')"
  shows "sessions_ok (sx_sessions x')"
proof (cases submitted)
  case (Inr s)
  note s = assms(3) [OF Inr, THEN conjunct1] assms(3) [OF Inr, THEN conjunct2, THEN conjunct1]
    assms(3) [OF Inr, THEN conjunct2, THEN conjunct2]
  let ?x = "save_session js view sid (put_session sid s x)"
  note eff = submit_turn_effect [OF assms(1,2) s, where js = js and view = view]
  obtain s' where s': "x' = ask [Enqueue key (generation_request s)] (put_session sid s' ?x)"
      "sn_id s' = sid" "session_inv s'"
    using eff(2) [where key = key and clk = clk] Inr assms(4) by auto
  show ?thesis unfolding s'(1) using eff(3) eff(1) s'(2,3) by (rule put_running_ok)
qed (use assms(1,4) in \<open>simp add: submit_turn_def\<close>)

lemma submitted_facts:
  assumes "sessions_ok (sx_sessions x)" and "get_session sid x = Some u"
  shows "accept_user_message msg clk u = Inr s \<Longrightarrow> sn_id s = sid \<and> session_inv s \<and> \<not> generation_active s"
    and "accept_tool_results rs clk u = Inr s \<Longrightarrow> sn_id s = sid \<and> session_inv s \<and> \<not> generation_active s"
  using get_ok [OF assms] keeps_id(1,2) accept_user_inv accept_results_inv accepted_idle by metis+

lemma keep_ok: "sessions_keep js adapter x x' \<Longrightarrow> sessions_ok (sx_sessions x) \<Longrightarrow> sessions_ok (sx_sessions x')"
proof (induction rule: sessions_keep.induct)
  case (op_create fresh view ctx req clk x r x')
  show ?case by (rule create_ok [OF op_create(3,1,2)])
next
  case (op_snapshot fresh view ctx sid clk x r x')
  show ?case by (rule snapshot_ok [OF op_snapshot(3,1,2)])
next
  case (op_resume view sid clk x r x')
  show ?case by (rule resume_ok [OF op_resume(2,1)])
next
  case (op_message view key clk sid msg x r x')
  show ?case
  proof (cases "get_session sid x = None \<or> sm_content msg = []")
    case True
    with op_message show ?thesis by (auto simp: post_message_def split: option.splits)
  next
    case False
    then obtain u where u: "get_session sid x = Some u" by auto
    with False op_message(1) have "submit_turn js view key clk sid (accept_user_message msg clk u) x = (r, x')"
      by (simp add: post_message_def)
    with submitted_facts(1) [OF op_message(2) u] show ?thesis by (rule submit_turn_ok [OF op_message(2) u])
  qed
next
  case (op_results view key clk sid results x r x')
  show ?case
  proof (cases "get_session sid x = None \<or> results = []")
    case True
    with op_results show ?thesis by (auto simp: post_tool_results_def split: option.splits)
  next
    case False
    then obtain u where u: "get_session sid x = Some u" by auto
    with False op_results(1) have "submit_turn js view key clk sid (accept_tool_results results clk u) x = (r, x')"
      by (simp add: post_tool_results_def)
    with submitted_facts(2) [OF op_results(2) u] show ?thesis by (rule submit_turn_ok [OF op_results(2) u])
  qed
next
  case (op_gc x tick)
  then show ?case by (rule gc_ok)
next
  case (op_touch sid x s clk)
  from get_ok [OF op_touch(2,1)] show ?case
    by (intro put_ok [OF op_touch(2,1)]) (simp_all, simp add: touch_def)
qed

lemma step_ok: "sessions_step js adapter x x' \<Longrightarrow> sessions_ok (sx_sessions x) \<Longrightarrow> sessions_ok (sx_sessions x')"
proof (induction rule: sessions_step.induct)
  case (op_keep x x')
  then show ?case by (rule keep_ok)
next
  case (op_destroy sid x r x')
  then show ?case
    by (auto simp: destroy_session_def drop_session_sessions filter_ok split: option.splits)
next
  case (op_finished x view key t clk sid)
  show ?case
  proof (cases "get_session sid x")
    case (Some s)
    from get_ok [OF op_finished Some] have "sessions_ok (sx_sessions (put_session sid (complete_job js adapter key t clk s) x))"
      by (intro put_ok [OF op_finished Some]) (simp_all add: complete_keeps_id complete_inv)
    with Some show ?thesis by (simp add: on_job_finished_def save_ok)
  qed (use op_finished in \<open>simp add: on_job_finished_def\<close>)
qed

text \<open>Start-up: what is restored from the records of consistent sessions.\<close>

lemma load_records_ok:
  "sessions_ok (sx_sessions x) \<Longrightarrow> \<forall>r \<in> set rs. rec_id r \<noteq> 0 \<and> (\<exists>s. session_inv s \<and> r = record_of s) \<Longrightarrow>
   sessions_ok (sx_sessions (load_records clk rs x))"
proof (induction clk rs x rule: load_records.induct)
  case (2 clk r rs x)
  obtain s where s: "session_inv s" "r = record_of s" using 2(5) by auto
  have sid: "rec_id r = sn_id s" by (simp add: s(2) record_of_def)
  let ?s = "restore r clk (new_session (rec_id r) clk)"
  have "session_inv ?s" using restore_inv [OF s(1), of clk clk] s(2) sid by simp
  moreover have "sn_id ?s = rec_id r" by (simp add: restore_def new_session_def Let_def)
  ultimately have "sessions_ok (sx_sessions (put_session (rec_id r) ?s x))"
    if "length (sx_sessions x) < k_max_sessions"
    using that 2(4,5) unfolding put_session_def by (simp add: update_ok)
  with 2 show ?case by simp
qed simp

text \<open>
  C32. Whatever requests, finished jobs and clean-ups come in whatever order after a start from the files
  of consistent sessions: there are never more than 256 sessions, every session is under its own id, and
  each is consistent (a running job exactly while generating, and pending exactly what its state says).
\<close>

theorem sessions_stay_consistent:
  assumes "\<forall>r \<in> set records. rec_id r \<noteq> 0 \<and> (\<exists>s. session_inv s \<and> r = record_of s)"
    and "sx_sessions x = []" and "(sessions_step js adapter)\<^sup>*\<^sup>* (load_sessions view has_dir limit clk records x) x'"
  shows "length (sx_sessions x') \<le> 256 \<and> distinct (map fst (sx_sessions x')) \<and>
    (\<forall>(sid, s) \<in> set (sx_sessions x'). sn_id s = sid \<and> (sn_active_job s \<noteq> None \<longleftrightarrow> sn_state s = Generating) \<and>
       waits_for (sn_state s) (sn_pending_tool_calls s) (sn_pending_question s))"
proof -
  let ?x = "x\<lparr> sx_has_dir := has_dir, sx_cache_limit := limit \<rparr>"
  have "sessions_ok (sx_sessions ?x)" using assms(2) by (simp add: sessions_ok_def)
  from load_records_ok [OF this assms(1), of clk] this
  have start: "sessions_ok (sx_sessions (load_sessions view has_dir limit clk records x))"
    by (cases has_dir) (simp_all add: load_sessions_def Let_def enforce_ok)
  have "sessions_ok (sx_sessions x')"
    using assms(3) start by (induction rule: rtranclp_induct) (simp_all add: step_ok)
  then show ?thesis by (auto simp: sessions_ok_def k_max_sessions_def session_inv_def)
qed

text \<open>What a request does to the sessions of others.\<close>

lemma gc_keeps_busy:
  assumes "sessions_ok (sx_sessions x)" and "get_session i x = Some s" and "\<not> is_gc_idle s"
  shows "get_session i (sessions_gc tick x) = Some s"
  using assms map_of_filter_key [of "sx_sessions x" i s "\<lambda>i s. \<not> gc_collects tick s"]
  by (simp add: get_session_def gc_sessions sessions_ok_def gc_collects_def)

definition busy_in :: "nat \<Rightarrow> 'j sessions \<Rightarrow> bool" where
  "busy_in sid x \<longleftrightarrow> (case get_session sid x of None \<Rightarrow> False | Some s \<Rightarrow> \<not> is_gc_idle s)"

lemma save_keeps_busy:
  "sessions_ok (sx_sessions x) \<Longrightarrow> get_session i x = Some s \<Longrightarrow> i = sid \<or> \<not> is_gc_idle s \<Longrightarrow>
   get_session i (save_session js view sid x) = Some s"
  using get_ok [of x i s] by (intro save_keeps) (auto simp: sessions_ok_def)

lemma put_save_keeps:
  assumes "sessions_ok (sx_sessions x)" and "get_session sid x = Some u" and "sn_id s = sid" and "session_inv s"
    and "busy_in i x"
  shows "get_session i (save_session js view sid (put_session sid s x)) \<noteq> None"
proof -
  note ok = put_ok [OF assms(1-4)]
  obtain v where v: "get_session i x = Some v" "\<not> is_gc_idle v"
    using assms(5) by (auto simp: busy_in_def split: option.splits)
  show ?thesis
  proof (cases "i = sid")
    case True
    then show ?thesis using save_keeps_busy [OF ok, of i s sid js view] by simp
  next
    case False
    then show ?thesis using save_keeps_busy [OF ok, of i v sid js view] v by simp
  qed
qed

lemma add_keeps:
  assumes "sessions_ok (sx_sessions x)" and "busy_in i x" and "add_session clk s x = (r, x')"
  shows "\<exists>u. get_session i x' = Some u \<and> (i = sn_id s \<or> \<not> is_gc_idle u)"
proof -
  obtain v where v: "get_session i x = Some v" "\<not> is_gc_idle v"
    using assms(2) by (auto simp: busy_in_def split: option.splits)
  with gc_keeps_busy [OF assms(1) v] assms(3) show ?thesis
    by (cases "i = sn_id s") (auto simp: add_session_def Let_def split: if_splits)
qed

lemma post_keeps:
  assumes "sessions_ok (sx_sessions x)" and "get_session sid x = Some u" and "busy_in i x"
    and "\<And>s. submitted = Inr s \<Longrightarrow> sn_id s = sid \<and> session_inv s \<and> \<not> generation_active s"
    and "submit_turn js view key clk sid submitted x = (r, x')"
  shows "get_session i x' \<noteq> None"
proof (cases submitted)
  case (Inr s)
  note s = assms(4) [OF Inr, THEN conjunct1] assms(4) [OF Inr, THEN conjunct2, THEN conjunct1]
    assms(4) [OF Inr, THEN conjunct2, THEN conjunct2]
  let ?x = "save_session js view sid (put_session sid s x)"
  obtain s' where s': "x' = ask [Enqueue key (generation_request s)] (put_session sid s' ?x)"
    using submit_turn_effect(2) [OF assms(1,2) s, where js = js and view = view and key = key and clk = clk]
      Inr assms(5) by auto
  from put_save_keeps [OF assms(1,2) s(1,2) assms(3), of js view]
  show ?thesis unfolding s' by (simp add: get_session_def ask_def put_session_def update_conv')
qed (use assms(3,5) in \<open>auto simp: submit_turn_def busy_in_def split: option.splits\<close>)

lemma resume_keeps:
  assumes "sessions_ok (sx_sessions x)" and "busy_in i x" and "note_resume js view sid clk x = (r, x')"
  shows "get_session i x' \<noteq> None"
proof (cases "get_session sid x")
  case None
  with assms(2,3) show ?thesis by (auto simp: note_resume_def busy_in_def split: option.splits)
next
  case (Some s)
  have m: "sn_id (mark_updated clk s) = sid" "session_inv (mark_updated clk s)"
    using get_ok [OF assms(1) Some] by (simp_all, simp add: mark_updated_def)
  have "x' = save_session js view sid (put_session sid (mark_updated clk s) x)"
    using Some assms(3) by (simp add: note_resume_def)
  with put_save_keeps [OF assms(1) Some m assms(2), of js view] show ?thesis by simp
qed

lemma get_ask [simp]: "get_session i (ask rs x) = get_session i x"
  by (simp add: get_session_def)

lemma add_save_keeps:
  assumes "sessions_ok (sx_sessions x)" and "busy_in i x" and "session_inv s" and "sn_id s \<noteq> 0"
    and "add_session clk s x = (r, x1)"
  shows "get_session i x1 \<noteq> None" and "get_session i (save_session js view (sn_id s) x1) \<noteq> None"
proof -
  obtain u where u: "get_session i x1 = Some u" "i = sn_id s \<or> \<not> is_gc_idle u"
    using add_keeps [OF assms(1,2,5)] by blast
  then show "get_session i x1 \<noteq> None" by simp
  show "get_session i (save_session js view (sn_id s) x1) \<noteq> None"
    using save_keeps_busy [OF add_ok [OF assms(1,3,4,5)] u, of js view] by simp
qed

lemma add_session_answer: "add_session clk s x = (Inr c, x1) \<Longrightarrow> c = sn_id s"
  by (auto simp: add_session_def Let_def split: if_splits)

lemma create_keeps_busy:
  assumes "sessions_ok (sx_sessions x)" and "busy_in i x" and "create_session js adapter view ctx req fresh clk x = (r, x')" and "fresh \<noteq> 0"
  shows "get_session i x' \<noteq> None"
proof (cases "cr_id req = 0")
  case True
  let ?s = "set_context_usage 0 ctx (configure adapter req clk (new_session fresh clk))"
  obtain r1 x1 where a: "add_session clk ?s x = (r1, x1)" by fastforce
  have "session_inv ?s" "sn_id ?s \<noteq> 0" using assms(4) by (simp_all add: usage_inv fresh_inv fresh_id)
  note kept = add_save_keeps [OF assms(1,2) this a]
  have "x' = x1 \<or> x' = save_session js view (sn_id ?s) x1"
    using True assms(3) a add_session_answer [of clk ?s x _ x1] by (auto simp: create_session_def split: sum.splits)
  with kept show ?thesis by auto
next
  case False
  obtain r1 x1 where n: "note_resume js view (cr_id req) clk x = (r1, x1)" by fastforce
  with False assms(3) have "x' = x1" by (auto simp: create_session_def split: sum.splits)
  with resume_keeps [OF assms(1,2) n] show ?thesis by simp
qed

lemma snapshot_keeps_busy:
  assumes "sessions_ok (sx_sessions x)" and "busy_in i x" and "snapshot_session js view ctx sid fresh clk x = (r, x')" and "fresh \<noteq> 0"
  shows "get_session i x' \<noteq> None"
proof (cases "get_session sid x")
  case None
  with assms(3) assms(2) show ?thesis
    by (auto simp: snapshot_session_def busy_in_def split: option.splits)
next
  case (Some p)
  let ?c = "set_context_usage (sn_context_used p) (if 0 < sn_context_size p then sn_context_size p else ctx)
    (load_clone (capture_session [''sub_agent''] p) clk (new_session fresh clk))"
  obtain r1 x1 where a: "add_session clk ?c x = (r1, x1)" by fastforce
  have "session_inv ?c" "sn_id ?c \<noteq> 0" using assms(4) by (simp_all add: usage_inv fresh_inv fresh_id)
  note kept = add_save_keeps [OF assms(1,2) this a]
  have "x' = x \<or> x' = x1 \<or> (\<exists>rs. x' = ask rs (save_session js view (sn_id ?c) x1))"
    using Some assms(3) a add_session_answer [of clk ?c x _ x1]
    by (auto simp: snapshot_session_def Let_def split: sum.splits if_splits)
  with kept assms(2) show ?thesis by (auto simp: busy_in_def split: option.splits)
qed

lemma message_keeps_busy:
  assumes "sessions_ok (sx_sessions x)" and "busy_in i x" and "post_message js view key clk sid msg x = (r, x')"
  shows "get_session i x' \<noteq> None"
proof (cases "get_session sid x = None \<or> sm_content msg = []")
  case True
  with assms(2,3) show ?thesis by (auto simp: post_message_def busy_in_def split: option.splits)
next
  case False
  then obtain u where u: "get_session sid x = Some u" by auto
  with False assms(3) have t: "submit_turn js view key clk sid (accept_user_message msg clk u) x = (r, x')"
    by (simp add: post_message_def)
  show ?thesis by (rule post_keeps [OF assms(1) u assms(2) submitted_facts(1) [OF assms(1) u] t])
qed

lemma results_keep_busy:
  assumes "sessions_ok (sx_sessions x)" and "busy_in i x" and "post_tool_results js view key clk sid results x = (r, x')"
  shows "get_session i x' \<noteq> None"
proof (cases "get_session sid x = None \<or> results = []")
  case True
  with assms(2,3) show ?thesis by (auto simp: post_tool_results_def busy_in_def split: option.splits)
next
  case False
  then obtain u where u: "get_session sid x = Some u" by auto
  with False assms(3) have t: "submit_turn js view key clk sid (accept_tool_results results clk u) x = (r, x')"
    by (simp add: post_tool_results_def)
  show ?thesis by (rule post_keeps [OF assms(1) u assms(2) submitted_facts(2) [OF assms(1) u] t])
qed


section \<open>One job for one request\<close>

definition is_enqueue :: "'j job_request \<Rightarrow> bool" where
  "is_enqueue r = (case r of Enqueue key req \<Rightarrow> True | _ \<Rightarrow> False)"

definition jobs_of :: "'j sessions \<Rightarrow> 'j job_request list" where
  "jobs_of x = filter is_enqueue (sx_requests x)"

lemma jobs_of_simps [simp]:
  "jobs_of (x\<lparr> sx_disk := d \<rparr>) = jobs_of x" "jobs_of (x\<lparr> sx_sessions := m \<rparr>) = jobs_of x"
  "jobs_of (put_session sid s x) = jobs_of x" "jobs_of (forget_file sid x) = jobs_of x"
  "jobs_of (ask rs x) = jobs_of x @ filter is_enqueue rs"
  by (simp_all add: jobs_of_def put_session_def forget_file_def ask_def)

lemma jobs_of_drop [simp]: "jobs_of (drop_session sid x) = jobs_of x"
  by (simp add: drop_session_def Let_def is_enqueue_def split: option.split)

lemma jobs_of_drops [simp]: "jobs_of (fold drop_session ids x) = jobs_of x"
  by (induction ids arbitrary: x) simp_all

lemma jobs_of_save [simp]: "jobs_of (save_session js view sid x) = jobs_of x"
  by (simp add: save_session_def enforce_cache_limit_def Let_def is_enqueue_def comp_def
      split: option.split prod.split)

lemma submit_turn_answers:
  assumes "sessions_ok (sx_sessions x)" and "get_session sid x = Some u"
    and "\<And>s. submitted = Inr s \<Longrightarrow> sn_id s = sid \<and> session_inv s \<and> \<not> generation_active s"
    and "submit_turn js view key clk sid submitted x = (r, x')"
  shows "case submitted of
      Inl e \<Rightarrow> r = Inl e \<and> x' = x
    | Inr s \<Rightarrow> r = Inr key \<and> jobs_of x' = jobs_of x @ [Enqueue key (generation_request s)] \<and>
        (\<exists>s'. get_session sid x' = Some s' \<and> sn_active_job s' = Some key \<and> sn_messages s' = sn_messages s)"
proof (cases submitted)
  case (Inr s)
  note s = assms(3) [OF Inr, THEN conjunct1] assms(3) [OF Inr, THEN conjunct2, THEN conjunct1]
    assms(3) [OF Inr, THEN conjunct2, THEN conjunct2]
  obtain s' where s': "r = Inr key" "sn_active_job s' = Some key" "sn_messages s' = sn_messages s"
      "x' = ask [Enqueue key (generation_request s)] (put_session sid s' (save_session js view sid (put_session sid s x)))"
    using submit_turn_effect(2) [OF assms(1,2) s, where js = js and view = view and key = key and clk = clk]
      Inr assms(4) by auto
  then show ?thesis using Inr by (simp add: is_enqueue_def)
qed (use assms(4) in \<open>simp add: submit_turn_def\<close>)


section \<open>Examples\<close>

definition demo_view :: cache_view where
  "demo_view = \<lparr> cv_folder = None, cv_kv_folder = None, cv_has_kv_dir = False, cv_same = False,
     cv_worker_session = None \<rparr>"

definition demo_none :: "json_tree sessions" where
  "demo_none = \<lparr> sx_sessions = [], sx_has_dir = False, sx_disk = demo_dir, sx_cache_limit = 0, sx_requests = [] \<rparr>"

definition demo_all :: "json_tree sessions" where
  "demo_all = put_session 5 demo_waiting demo_none"

lemma demo_waiting_facts: "sn_id demo_waiting = 5" "session_inv demo_waiting" "sn_state demo_waiting = AwaitingTools"
  "sn_active_job demo_waiting = None"
proof -
  have "sn_id demo_fresh = 5" by (simp add: demo_fresh_def configure_def new_session_def mark_updated_def)
  moreover have "sn_id demo_asked = sn_id demo_fresh"
    using demo_submit keeps_id(1) by (auto simp: submit_def demo_said_def)
  ultimately show "sn_id demo_waiting = 5"
    using keeps_id(3) [OF demo_begin] by (simp add: demo_waiting_def complete_keeps_id)
  show "session_inv demo_waiting" using demo_reachable(2) by (rule reachable_session_inv)
  show s: "sn_state demo_waiting = AwaitingTools"
    using begin_view(2) [OF demo_begin]
    by (simp add: demo_waiting_def complete_job_def demo_answer_def to_status_def done_turn_def await_actions_def
        actions_from_status_def no_actions_def turn_defs)
  show "sn_active_job demo_waiting = None" using s \<open>session_inv demo_waiting\<close> by (auto simp: session_inv_def)
qed

lemma demo_all_ok: "sessions_ok (sx_sessions demo_all)"
  using demo_waiting_facts by (simp add: demo_all_def demo_none_def put_session_def sessions_ok_def k_max_sessions_def)

theorem sessions_stay_consistent_witness:
  "let x = sessions_gc 5 (load_sessions demo_view True 0 (1, 1) [record_of demo_waiting] demo_none)
   in map fst (sx_sessions x) = [5] \<and> length (sx_sessions x) \<le> 256"
proof -
  let ?l = "load_sessions demo_view True 0 (1, 1) [record_of demo_waiting] demo_none"
  have r: "\<forall>r \<in> set [record_of demo_waiting]. rec_id r \<noteq> 0 \<and> (\<exists>s. session_inv s \<and> r = record_of s)"
    using demo_waiting_facts by (auto simp: record_of_def)
  have "sessions_step tree_json demo_adapter ?l (sessions_gc 5 ?l)" by (intro op_keep op_gc)
  then have "(sessions_step tree_json demo_adapter)\<^sup>*\<^sup>* ?l (sessions_gc 5 ?l)" by (rule r_into_rtranclp)
  from sessions_stay_consistent [OF r _ this]
  have "length (sx_sessions (sessions_gc 5 ?l)) \<le> 256" by (simp add: demo_none_def)
  moreover have "map fst (sx_sessions (sessions_gc 5 ?l)) = [5]"
    using demo_waiting_facts
    by (simp add: gc_sessions load_sessions_def enforce_sessions demo_none_def put_session_def record_of_def
        gc_collects_def is_gc_idle_def restore_def shown_state_def new_session_def k_max_sessions_def Let_def)
  ultimately show ?thesis by (simp add: Let_def)
qed



end
