(* ===== verification/Options.thy ===== *)
theory Options
  imports Decimal Response_Turn
begin

text \<open>
  \<open>src/server/options.cpp\<close>: the command line and the config files. A setting is a field and the value read
  for it; the chains of comparisons of the code are the rows of two tables, one for the flags and one
  for the keys of a config file. Reading a decimal fraction (\<open>std::from_chars\<close> on \<open>float\<close>) and the
  files are arguments.
\<close>

section \<open>Options\<close>

record server_options =
  so_model_path :: string
  so_template_path :: string
  so_reasoning :: bool
  so_n_ctx :: int
  so_n_batch :: int
  so_n_gpu_layers :: int
  so_n_threads :: int
  so_n_threads_batch :: int
  so_flash_attn :: string
  so_cache_type_k :: string
  so_cache_type_v :: string
  so_temperature :: rat
  so_top_p :: rat
  so_top_k :: int
  so_min_p :: rat
  so_presence_penalty :: rat
  so_frequency_penalty :: rat
  so_repetition_penalty :: rat
  so_penalty_last_n :: int
  so_seed :: u32
  so_max_tokens :: int
  so_session_memory_bytes :: u64
  so_session_disk_max_age_days :: int
  so_session_disk_max_bytes :: u64
  so_session_dir :: string
  so_kv_dir :: string
  so_host :: string
  so_port :: int
  so_api_key :: string

definition default_options :: server_options where
  "default_options = \<lparr> so_model_path = [], so_template_path = [], so_reasoning = True, so_n_ctx = 4096,
     so_n_batch = 2048, so_n_gpu_layers = 99, so_n_threads = 0, so_n_threads_batch = 0,
     so_flash_attn = ''auto'', so_cache_type_k = ''f16'', so_cache_type_v = ''f16'', so_temperature = 1,
     so_top_p = 95 / 100, so_top_k = 20, so_min_p = 0, so_presence_penalty = 0, so_frequency_penalty = 0,
     so_repetition_penalty = 1, so_penalty_last_n = 64, so_seed = 0xFFFFFFFF, so_max_tokens = -1,
     so_session_memory_bytes = 0, so_session_disk_max_age_days = -1, so_session_disk_max_bytes = 0,
     so_session_dir = [], so_kv_dir = [], so_host = ''127.0.0.1'', so_port = 8080, so_api_key = [] \<rparr>"

datatype field =
    Model_path | Template_path | Reasoning | N_ctx | N_batch | N_gpu_layers | N_threads | N_threads_batch
  | Flash_attn | Cache_type_k | Cache_type_v | Temperature | Top_p | Top_k | Min_p | Presence_penalty
  | Frequency_penalty | Repetition_penalty | Penalty_last_n | Seed | Max_tokens | Session_memory_bytes
  | Disk_max_age_days | Disk_max_bytes | Session_dir | Host | Port | Api_key

datatype opt_value = V_text string | V_int int | V_float rat | V_bool bool | V_u32 u32 | V_u64 u64

definition v_text :: "opt_value \<Rightarrow> string" where "v_text v = (case v of V_text s \<Rightarrow> s | _ \<Rightarrow> [])"
definition v_int :: "opt_value \<Rightarrow> int" where "v_int v = (case v of V_int n \<Rightarrow> n | _ \<Rightarrow> 0)"
definition v_float :: "opt_value \<Rightarrow> rat" where "v_float v = (case v of V_float x \<Rightarrow> x | _ \<Rightarrow> 0)"
definition v_bool :: "opt_value \<Rightarrow> bool" where "v_bool v = (case v of V_bool b \<Rightarrow> b | _ \<Rightarrow> False)"
definition v_u32 :: "opt_value \<Rightarrow> u32" where "v_u32 v = (case v of V_u32 w \<Rightarrow> w | _ \<Rightarrow> 0)"
definition v_u64 :: "opt_value \<Rightarrow> u64" where "v_u64 v = (case v of V_u64 w \<Rightarrow> w | _ \<Rightarrow> 0)"

definition set_field :: "field \<Rightarrow> opt_value \<Rightarrow> server_options \<Rightarrow> server_options" where
  "set_field f v o' = (case f of
       Model_path \<Rightarrow> o'\<lparr> so_model_path := v_text v \<rparr>
     | Template_path \<Rightarrow> o'\<lparr> so_template_path := v_text v \<rparr>
     | Reasoning \<Rightarrow> o'\<lparr> so_reasoning := v_bool v \<rparr>
     | N_ctx \<Rightarrow> o'\<lparr> so_n_ctx := v_int v \<rparr>
     | N_batch \<Rightarrow> o'\<lparr> so_n_batch := v_int v \<rparr>
     | N_gpu_layers \<Rightarrow> o'\<lparr> so_n_gpu_layers := v_int v \<rparr>
     | N_threads \<Rightarrow> o'\<lparr> so_n_threads := v_int v \<rparr>
     | N_threads_batch \<Rightarrow> o'\<lparr> so_n_threads_batch := v_int v \<rparr>
     | Flash_attn \<Rightarrow> o'\<lparr> so_flash_attn := v_text v \<rparr>
     | Cache_type_k \<Rightarrow> o'\<lparr> so_cache_type_k := v_text v \<rparr>
     | Cache_type_v \<Rightarrow> o'\<lparr> so_cache_type_v := v_text v \<rparr>
     | Temperature \<Rightarrow> o'\<lparr> so_temperature := v_float v \<rparr>
     | Top_p \<Rightarrow> o'\<lparr> so_top_p := v_float v \<rparr>
     | Top_k \<Rightarrow> o'\<lparr> so_top_k := v_int v \<rparr>
     | Min_p \<Rightarrow> o'\<lparr> so_min_p := v_float v \<rparr>
     | Presence_penalty \<Rightarrow> o'\<lparr> so_presence_penalty := v_float v \<rparr>
     | Frequency_penalty \<Rightarrow> o'\<lparr> so_frequency_penalty := v_float v \<rparr>
     | Repetition_penalty \<Rightarrow> o'\<lparr> so_repetition_penalty := v_float v \<rparr>
     | Penalty_last_n \<Rightarrow> o'\<lparr> so_penalty_last_n := v_int v \<rparr>
     | Seed \<Rightarrow> o'\<lparr> so_seed := v_u32 v \<rparr>
     | Max_tokens \<Rightarrow> o'\<lparr> so_max_tokens := v_int v \<rparr>
     | Session_memory_bytes \<Rightarrow> o'\<lparr> so_session_memory_bytes := v_u64 v \<rparr>
     | Disk_max_age_days \<Rightarrow> o'\<lparr> so_session_disk_max_age_days := v_int v \<rparr>
     | Disk_max_bytes \<Rightarrow> o'\<lparr> so_session_disk_max_bytes := v_u64 v \<rparr>
     | Session_dir \<Rightarrow> o'\<lparr> so_session_dir := v_text v \<rparr>
     | Host \<Rightarrow> o'\<lparr> so_host := v_text v \<rparr>
     | Port \<Rightarrow> o'\<lparr> so_port := v_int v \<rparr>
     | Api_key \<Rightarrow> o'\<lparr> so_api_key := v_text v \<rparr>)"

definition get_field :: "field \<Rightarrow> server_options \<Rightarrow> opt_value" where
  "get_field f o' = (case f of
       Model_path \<Rightarrow> V_text (so_model_path o') | Template_path \<Rightarrow> V_text (so_template_path o')
     | Reasoning \<Rightarrow> V_bool (so_reasoning o') | N_ctx \<Rightarrow> V_int (so_n_ctx o') | N_batch \<Rightarrow> V_int (so_n_batch o')
     | N_gpu_layers \<Rightarrow> V_int (so_n_gpu_layers o') | N_threads \<Rightarrow> V_int (so_n_threads o')
     | N_threads_batch \<Rightarrow> V_int (so_n_threads_batch o') | Flash_attn \<Rightarrow> V_text (so_flash_attn o')
     | Cache_type_k \<Rightarrow> V_text (so_cache_type_k o') | Cache_type_v \<Rightarrow> V_text (so_cache_type_v o')
     | Temperature \<Rightarrow> V_float (so_temperature o') | Top_p \<Rightarrow> V_float (so_top_p o') | Top_k \<Rightarrow> V_int (so_top_k o')
     | Min_p \<Rightarrow> V_float (so_min_p o') | Presence_penalty \<Rightarrow> V_float (so_presence_penalty o')
     | Frequency_penalty \<Rightarrow> V_float (so_frequency_penalty o')
     | Repetition_penalty \<Rightarrow> V_float (so_repetition_penalty o') | Penalty_last_n \<Rightarrow> V_int (so_penalty_last_n o')
     | Seed \<Rightarrow> V_u32 (so_seed o') | Max_tokens \<Rightarrow> V_int (so_max_tokens o')
     | Session_memory_bytes \<Rightarrow> V_u64 (so_session_memory_bytes o')
     | Disk_max_age_days \<Rightarrow> V_int (so_session_disk_max_age_days o')
     | Disk_max_bytes \<Rightarrow> V_u64 (so_session_disk_max_bytes o') | Session_dir \<Rightarrow> V_text (so_session_dir o')
     | Host \<Rightarrow> V_text (so_host o') | Port \<Rightarrow> V_int (so_port o') | Api_key \<Rightarrow> V_text (so_api_key o'))"

section \<open>Numbers and sizes\<close>

definition digits :: "string \<Rightarrow> int option" where
  "digits s = (if s \<noteq> [] \<and> list_all is_digit_char s
     then Some (int (digits_value 0 s)) else None)"

definition drop_plus :: "string \<Rightarrow> string" where
  "drop_plus s = (if s \<noteq> [] \<and> hd s = CHR ''+'' then tl s else s)"

text \<open>\<open>std::from_chars\<close> on the whole text, for a signed type of 32 bits and an unsigned one of \<open>w\<close> bits.\<close>

definition from_chars_int :: "string \<Rightarrow> int option" where
  "from_chars_int s =
     (case (if s \<noteq> [] \<and> hd s = CHR ''-'' then map_option uminus (digits (tl s)) else digits s) of
        None \<Rightarrow> None
      | Some n \<Rightarrow> if - (2 ^ 31) \<le> n \<and> n < 2 ^ 31 then Some n else None)"

definition from_chars_unsigned :: "nat \<Rightarrow> string \<Rightarrow> int option" where
  "from_chars_unsigned w s = (case digits s of None \<Rightarrow> None | Some n \<Rightarrow> if n < 2 ^ w then Some n else None)"

definition parse_whole_int :: "string \<Rightarrow> int option" where
  "parse_whole_int s = from_chars_int (drop_plus s)"

definition parse_whole_unsigned :: "nat \<Rightarrow> string \<Rightarrow> int option" where
  "parse_whole_unsigned w s = from_chars_unsigned w (drop_plus s)"

definition parse_float :: "(string \<Rightarrow> rat option) \<Rightarrow> string \<Rightarrow> rat option" where
  "parse_float from_chars s = (if drop_plus s = [] then None else from_chars (drop_plus s))"

definition is_blank_char :: "char \<Rightarrow> bool" where
  "is_blank_char c \<longleftrightarrow> c = CHR '' '' \<or> c = CHR 0x09"

definition trim_view :: "string \<Rightarrow> string" where
  "trim_view s = rev (dropWhile is_blank_char (rev (dropWhile is_blank_char s)))"

definition is_letter_char :: "char \<Rightarrow> bool" where
  "is_letter_char c \<longleftrightarrow> is_upper_char c \<or> is_lower_char c"

definition upper_char :: "char \<Rightarrow> char" where
  "upper_char c = (if is_lower_char c then char_of (code_of c - 32) else c)"

definition mega :: u64 where "mega = 1024 * 1024"
definition giga :: u64 where "giga = 1024 * 1024 * 1024"

definition mb_to_bytes :: "u64 \<Rightarrow> u64 option" where
  "mb_to_bytes megabytes = (if u64_max div mega < megabytes then None else Some (megabytes * mega))"

definition size_scale :: "string \<Rightarrow> u64 option" where
  "size_scale ending =
     (if ending = [] \<or> ending = ''MB'' then Some mega else if ending = ''GB'' then Some giga else None)"

definition parse_size :: "string \<Rightarrow> u64 option" where
  "parse_size txt =
     (let s = trim_view txt; ending = rev (takeWhile is_letter_char (rev s));
          number = trim_view (take (length s - length ending) s)
      in if s = [] then None
         else case size_scale (map upper_char ending) of
                None \<Rightarrow> None
              | Some scale \<Rightarrow>
                  (case parse_whole_unsigned 64 number of
                     None \<Rightarrow> None
                   | Some count \<Rightarrow>
                       if u64_max div scale < word_of_int count then None else Some (word_of_int count * scale)))"

definition parse_disk_limit :: "string \<Rightarrow> (int \<times> u64) option" where
  "parse_disk_limit txt =
     (case cut_at '','' (trim_view txt) of
        None \<Rightarrow> None
      | Some (days_text, size_text) \<Rightarrow>
          (case parse_whole_int (trim_view days_text) of
             None \<Rightarrow> None
           | Some days \<Rightarrow>
               if days < 0 then None
               else (case parse_size size_text of None \<Rightarrow> None | Some bytes \<Rightarrow> Some (days, bytes))))"

section \<open>Flags\<close>

datatype reader = Read_text | Read_int | Read_float | Read_seed | Read_size | Read_disk_limit

definition flag_table :: "(string \<times> reader \<times> field) list" where
  "flag_table = [(''-m'', Read_text, Model_path), (''-c'', Read_int, N_ctx), (''-b'', Read_int, N_batch),
     (''-ngl'', Read_int, N_gpu_layers), (''-t'', Read_float, Temperature), (''--top-p'', Read_float, Top_p),
     (''--top-k'', Read_int, Top_k), (''--min-p'', Read_float, Min_p),
     (''--presence-penalty'', Read_float, Presence_penalty),
     (''--frequency-penalty'', Read_float, Frequency_penalty),
     (''--repetition-penalty'', Read_float, Repetition_penalty), (''--penalty-last-n'', Read_int, Penalty_last_n),
     (''--seed'', Read_seed, Seed), (''--max-tokens'', Read_int, Max_tokens), (''--threads'', Read_int, N_threads),
     (''--threads-batch'', Read_int, N_threads_batch), (''--flash-attn'', Read_text, Flash_attn),
     (''--cache-type-k'', Read_text, Cache_type_k), (''--cache-type-v'', Read_text, Cache_type_v),
     (''--chat-template'', Read_text, Template_path), (''--session-dir'', Read_text, Session_dir),
     (''--session-memory-mb'', Read_size, Session_memory_bytes),
     (''--session-disk-limit'', Read_disk_limit, Disk_max_bytes), (''--host'', Read_text, Host),
     (''-p'', Read_int, Port), (''--port'', Read_int, Port), (''--api-key'', Read_text, Api_key)]"

definition takes_value :: "string \<Rightarrow> bool" where
  "takes_value arg \<longleftrightarrow> arg \<in> fst ` set flag_table"

definition is_help :: "string \<Rightarrow> bool" where
  "is_help arg \<longleftrightarrow> arg = ''-h'' \<or> arg = ''--help''"

definition is_bare_flag :: "string \<Rightarrow> bool" where
  "is_bare_flag arg \<longleftrightarrow> arg = ''--reasoning'' \<or> arg = ''--no-reasoning'' \<or> is_help arg"

definition option_map_value :: "('a \<Rightarrow> opt_value) \<Rightarrow> field \<Rightarrow> 'a option \<Rightarrow> (field \<times> opt_value) list option" where
  "option_map_value mk f r = map_option (\<lambda>x. [(f, mk x)]) r"

definition read_arg ::
  "(string \<Rightarrow> rat option) \<Rightarrow> reader \<Rightarrow> field \<Rightarrow> string \<Rightarrow> (field \<times> opt_value) list option" where
  "read_arg from_chars r f txt = (case r of
       Read_text \<Rightarrow> Some [(f, V_text txt)]
     | Read_int \<Rightarrow> option_map_value V_int f (parse_whole_int txt)
     | Read_float \<Rightarrow> option_map_value V_float f (parse_float from_chars txt)
     | Read_seed \<Rightarrow> option_map_value (\<lambda>n. V_u32 (word_of_int n)) f (parse_whole_unsigned 32 txt)
     | Read_size \<Rightarrow> option_map_value V_u64 f (parse_size txt)
     | Read_disk_limit \<Rightarrow>
         (case parse_disk_limit txt of
            None \<Rightarrow> None
          | Some (days, bytes) \<Rightarrow> Some [(Disk_max_age_days, V_int days), (Disk_max_bytes, V_u64 bytes)]))"

definition assign :: "(field \<times> opt_value) list \<Rightarrow> server_options \<Rightarrow> server_options" where
  "assign vs o' = fold (\<lambda>(f, v). set_field f v) vs o'"

record server_arg_parse =
  sap_help :: bool
  sap_usage :: bool
  sap_error :: string
  sap_options :: server_options

definition no_status :: server_arg_parse where
  "no_status = \<lparr> sap_help = False, sap_usage = False, sap_error = [], sap_options = default_options \<rparr>"

definition invalid_value :: "reader \<Rightarrow> string \<Rightarrow> string \<Rightarrow> string" where
  "invalid_value r arg txt =
     (if r = Read_disk_limit then ''invalid --session-disk-limit''
      else ''invalid value for '' @ arg @ '': '' @ txt)"

text \<open>The result and whether the arguments were applied to the end.\<close>

fun apply_args ::
  "(string \<Rightarrow> rat option) \<Rightarrow> string list \<Rightarrow> server_arg_parse \<Rightarrow> bool \<times> server_arg_parse" where
  "apply_args from_chars [] st = (True, st)"
| "apply_args from_chars (arg # rest) st =
     (case map_of flag_table arg of
        Some (r, f) \<Rightarrow>
          (case rest of
             [] \<Rightarrow> (False, st\<lparr> sap_error := ''missing value for '' @ arg \<rparr>)
           | txt # rest' \<Rightarrow>
               (case read_arg from_chars r f txt of
                  None \<Rightarrow> (False, st\<lparr> sap_error := invalid_value r arg txt \<rparr>)
                | Some vs \<Rightarrow> apply_args from_chars rest' (st\<lparr> sap_options := assign vs (sap_options st) \<rparr>)))
      | None \<Rightarrow>
          if arg = ''--reasoning'' \<or> arg = ''--no-reasoning''
          then apply_args from_chars rest
                 (st\<lparr> sap_options := assign [(Reasoning, V_bool (arg = ''--reasoning''))] (sap_options st) \<rparr>)
          else if is_help arg then (False, st\<lparr> sap_help := True \<rparr>)
          else (False, st\<lparr> sap_error := ''unknown argument: '' @ arg, sap_usage := True \<rparr>))"

section \<open>Config files\<close>

datatype json_reader = Key_text | Key_int | Key_uint32 | Key_float | Key_bool | Key_memory | Key_disk_limit

definition key_table :: "(string \<times> json_reader \<times> field) list" where
  "key_table = [(''model'', Key_text, Model_path), (''context'', Key_int, N_ctx), (''batch'', Key_int, N_batch),
     (''gpu-layers'', Key_int, N_gpu_layers), (''temperature'', Key_float, Temperature),
     (''top-p'', Key_float, Top_p), (''top-k'', Key_int, Top_k), (''min-p'', Key_float, Min_p),
     (''presence-penalty'', Key_float, Presence_penalty), (''frequency-penalty'', Key_float, Frequency_penalty),
     (''repetition-penalty'', Key_float, Repetition_penalty), (''penalty-last-n'', Key_int, Penalty_last_n),
     (''seed'', Key_uint32, Seed), (''max-tokens'', Key_int, Max_tokens), (''threads'', Key_int, N_threads),
     (''threads-batch'', Key_int, N_threads_batch), (''flash-attn'', Key_text, Flash_attn),
     (''cache-type-k'', Key_text, Cache_type_k), (''cache-type-v'', Key_text, Cache_type_v),
     (''chat-template'', Key_text, Template_path), (''reasoning'', Key_bool, Reasoning),
     (''session-dir'', Key_text, Session_dir), (''session-memory-mb'', Key_memory, Session_memory_bytes),
     (''session-disk-limit'', Key_disk_limit, Disk_max_bytes), (''host'', Key_text, Host),
     (''port'', Key_int, Port), (''api-key'', Key_text, Api_key)]"

definition int64_of :: "int \<Rightarrow> int" where
  "int64_of n = sint (word_of_int n :: 64 word)"

text \<open>\<open>get<std::int64_t>\<close> converts an unsigned number of the file with wrap-around.\<close>

definition json_int :: "('j, 'z) json_api_scheme \<Rightarrow> string \<Rightarrow> 'j \<Rightarrow> string + int" where
  "json_int js key v =
     (case j_int_of js v of
        None \<Rightarrow> Inl (key @ '' must be an integer'')
      | Some n \<Rightarrow>
          (let number = int64_of n in
           if number < - (2 ^ 31) \<or> 2 ^ 31 - 1 < number then Inl (''invalid value for '' @ key) else Inr number))"

definition json_uint32 :: "('j, 'z) json_api_scheme \<Rightarrow> string \<Rightarrow> 'j \<Rightarrow> string + u32" where
  "json_uint32 js key v =
     (case j_int_of js v of
        None \<Rightarrow> Inl (key @ '' must be an integer'')
      | Some n \<Rightarrow>
          (let number = int64_of n in
           if number < 0 \<or> 2 ^ 32 - 1 < number then Inl (''invalid value for '' @ key) else Inr (word_of_int number)))"

definition json_memory :: "('j, 'z) json_api_scheme \<Rightarrow> string \<Rightarrow> 'j \<Rightarrow> string + u64" where
  "json_memory js key v =
     (case j_string_of js v of
        Some s \<Rightarrow> (case parse_size s of None \<Rightarrow> Inl ''invalid session-memory-mb'' | Some bytes \<Rightarrow> Inr bytes)
      | None \<Rightarrow>
          then_do (json_int js key v) (\<lambda>megabytes.
            if megabytes < 0 then Inl ''invalid session-memory-mb''
            else (case mb_to_bytes (word_of_int megabytes) of
                    None \<Rightarrow> Inl ''invalid session-memory-mb'' | Some bytes \<Rightarrow> Inr bytes)))"

definition read_key ::
  "('j, 'z) json_api_scheme \<Rightarrow> json_reader \<Rightarrow> field \<Rightarrow> string \<Rightarrow> 'j \<Rightarrow> string + (field \<times> opt_value) list" where
  "read_key js r f key v = (case r of
       Key_text \<Rightarrow> (case j_string_of js v of None \<Rightarrow> Inl (key @ '' must be a string'') | Some s \<Rightarrow> Inr [(f, V_text s)])
     | Key_int \<Rightarrow> then_do (json_int js key v) (\<lambda>n. Inr [(f, V_int n)])
     | Key_uint32 \<Rightarrow> then_do (json_uint32 js key v) (\<lambda>n. Inr [(f, V_u32 n)])
     | Key_float \<Rightarrow>
         (case j_number_of js v of None \<Rightarrow> Inl (key @ '' must be a number'') | Some x \<Rightarrow> Inr [(f, V_float x)])
     | Key_bool \<Rightarrow>
         (case j_bool_of js v of None \<Rightarrow> Inl ''reasoning must be a boolean'' | Some b \<Rightarrow> Inr [(f, V_bool b)])
     | Key_memory \<Rightarrow> then_do (json_memory js key v) (\<lambda>n. Inr [(f, V_u64 n)])
     | Key_disk_limit \<Rightarrow>
         (case j_string_of js v of
            None \<Rightarrow> Inl ''session-disk-limit must be DAYS,SIZE''
          | Some s \<Rightarrow>
              (case parse_disk_limit s of
                 None \<Rightarrow> Inl ''invalid session-disk-limit''
               | Some (days, bytes) \<Rightarrow> Inr [(Disk_max_age_days, V_int days), (Disk_max_bytes, V_u64 bytes)])))"

definition apply_json_key ::
  "('j, 'z) json_api_scheme \<Rightarrow> string \<Rightarrow> 'j \<Rightarrow> server_arg_parse \<Rightarrow> bool \<times> server_arg_parse" where
  "apply_json_key js key v st =
     (if key = ''config-file''
      then (False, st\<lparr> sap_error := ''config-file cannot be set inside a config file'' \<rparr>)
      else case map_of key_table key of
             None \<Rightarrow> (False, st\<lparr> sap_error := ''unknown argument: '' @ key, sap_usage := True \<rparr>)
           | Some (r, f) \<Rightarrow>
               (case read_key js r f key v of
                  Inl err \<Rightarrow> (False, st\<lparr> sap_error := err \<rparr>)
                | Inr vs \<Rightarrow> (True, st\<lparr> sap_options := assign vs (sap_options st) \<rparr>)))"

fun apply_members ::
  "('j, 'z) json_api_scheme \<Rightarrow> string \<Rightarrow> (string \<times> 'j) list \<Rightarrow> server_arg_parse \<Rightarrow> bool \<times> server_arg_parse" where
  "apply_members js path [] st = (True, st)"
| "apply_members js path ((key, v) # ms) st =
     (let (ok, st) = apply_json_key js key v st in
      if ok then apply_members js path ms st
      else (False, st\<lparr> sap_error := ''config file '' @ path @ '': '' @ sap_error st \<rparr>))"

definition load_config_file ::
  "('j, 'z) json_api_scheme \<Rightarrow> (string \<Rightarrow> string option) \<Rightarrow> string \<Rightarrow> server_arg_parse \<Rightarrow> bool \<times> server_arg_parse" where
  "load_config_file js file_text path st =
     (case file_text path of
        None \<Rightarrow> (False, st\<lparr> sap_error := ''cannot read config file: '' @ path \<rparr>)
      | Some txt \<Rightarrow>
          (case j_parse js txt of
             Inl what \<Rightarrow> (False, st\<lparr> sap_error := ''config file '' @ path @ '': '' @ what \<rparr>)
           | Inr doc \<Rightarrow>
               (case j_members js doc of
                  None \<Rightarrow> (False, st\<lparr> sap_error := ''config file '' @ path @ '': expected a JSON object'' \<rparr>)
                | Some ms \<Rightarrow> apply_members js path ms st)))"

fun load_config_files ::
  "('j, 'z) json_api_scheme \<Rightarrow> (string \<Rightarrow> string option) \<Rightarrow> string list \<Rightarrow> server_arg_parse \<Rightarrow> bool \<times> server_arg_parse" where
  "load_config_files js file_text [] st = (True, st)"
| "load_config_files js file_text (path # paths) st =
     (let (ok, st) = load_config_file js file_text path st in
      if ok then load_config_files js file_text paths st else (False, st))"

section \<open>The whole command line\<close>

text \<open>The first pass: the arguments of the second pass and the config files, or how it ended.\<close>

fun split_args :: "string list \<Rightarrow> string list \<Rightarrow> string list \<Rightarrow> server_arg_parse + string list \<times> string list" where
  "split_args [] cli paths = Inr (cli, paths)"
| "split_args (arg # rest) cli paths =
     (if is_help arg then Inl (no_status\<lparr> sap_help := True \<rparr>)
      else if arg = ''--config-file''
      then (case rest of
              [] \<Rightarrow> Inl (no_status\<lparr> sap_error := ''missing value for --config-file'' \<rparr>)
            | path # rest' \<Rightarrow> split_args rest' cli (paths @ [path]))
      else if takes_value arg
      then (case rest of
              [] \<Rightarrow> Inr (cli @ [arg], paths)
            | txt # rest' \<Rightarrow> split_args rest' (cli @ [arg, txt]) paths)
      else if \<not> is_bare_flag arg
      then Inl (no_status\<lparr> sap_error := ''unknown argument: '' @ arg, sap_usage := True \<rparr>)
      else split_args rest (cli @ [arg]) paths)"

definition parse_server_args ::
  "('j, 'z) json_api_scheme \<Rightarrow> (string \<Rightarrow> rat option) \<Rightarrow> (string \<Rightarrow> string option) \<Rightarrow> string list \<Rightarrow> server_arg_parse" where
  "parse_server_args js from_chars file_text args =
     (case split_args args [] [] of
        Inl st \<Rightarrow> st
      | Inr (cli, paths) \<Rightarrow>
          (let (ok, st) = load_config_files js file_text paths no_status in
           if \<not> ok then st
           else let (ok, st) = apply_args from_chars cli st in
                if \<not> ok then st
                else if so_model_path (sap_options st) = [] then st\<lparr> sap_usage := True \<rparr> else st))"

section \<open>The key\<close>

definition hex_digit :: "nat \<Rightarrow> char" where
  "hex_digit n = (''0123456789abcdef'' ! n)"

text \<open>\<open>None\<close> where the kernel supplies no random bytes.\<close>

definition generate_api_key :: "byte list option \<Rightarrow> string option" where
  "generate_api_key entropy =
     map_option (\<lambda>bs. concat (map (\<lambda>b. [hex_digit (unat (drop_bit 4 b)), hex_digit (unat (b AND 15))]) bs)) entropy"

text \<open>\<open>main\<close>: the key of the command line, else of the environment, else a generated one.\<close>

definition choose_key :: "string \<Rightarrow> string option \<Rightarrow> byte list option \<Rightarrow> string option" where
  "choose_key given from_env entropy =
     (if given \<noteq> [] then Some given
      else case from_env of
             Some k \<Rightarrow> if k \<noteq> [] then Some k else generate_api_key entropy
           | None \<Rightarrow> generate_api_key entropy)"

end
