(* ===== verification/Options_Proofs.thy ===== *)
theory Options_Proofs
  imports Options
begin

text \<open>
  The settings of the server: sizes are read exactly or refused, every setting is of the type of its
  field and of its range, and the last setting of a field wins, a flag over every file.
\<close>

section \<open>Trimming and digits\<close>

lemma trim_view_put:
  assumes "list_all is_blank_char p" and "list_all is_blank_char q"
    and "s \<noteq> []" and "\<not> is_blank_char (hd s)" and "\<not> is_blank_char (last s)"
  shows "trim_view (p @ s @ q) = s"
proof -
  have "dropWhile is_blank_char (p @ s @ q) = s @ q"
    using assms by (intro dropWhile_pre) simp_all
  moreover have "dropWhile is_blank_char (rev q @ rev s) = rev s"
    using assms by (intro dropWhile_pre) (simp_all add: hd_rev)
  ultimately show ?thesis by (simp add: trim_view_def)
qed

lemma trim_view_id: "s \<noteq> [] \<Longrightarrow> \<not> is_blank_char (hd s) \<Longrightarrow> \<not> is_blank_char (last s) \<Longrightarrow> trim_view s = s"
  using trim_view_put [of "[]" "[]" s] by simp

lemma digit_kinds:
  "is_digit_char c \<Longrightarrow> \<not> is_blank_char c" "is_digit_char c \<Longrightarrow> \<not> is_letter_char c"
  "is_digit_char c \<Longrightarrow> c \<noteq> CHR ''+''" "is_digit_char c \<Longrightarrow> c \<noteq> CHR ''-''" "is_digit_char c \<Longrightarrow> c \<noteq> CHR '',''"
  "is_blank_char c \<Longrightarrow> \<not> is_letter_char c" "is_letter_char c \<Longrightarrow> \<not> is_blank_char c"
  by (auto simp: is_digit_char_def is_blank_char_def is_letter_char_def is_upper_char_def is_lower_char_def)

lemma decimal_ends: "is_digit_char (hd (decimal n))" "is_digit_char (last (decimal n))"
  using decimal_digits [of n] decimal_not_empty [of n] by (auto dest: list.set_sel(1) last_in_set)

lemma digits_decimal: "digits (decimal n) = Some (int n)"
  using decimal_digits [of n] by (auto simp: digits_def decimal_not_empty digits_value_decimal list_all_iff)

lemma drop_plus_decimal: "drop_plus (decimal n) = decimal n"
  using digit_kinds(3) [OF decimal_ends(1)] by (simp add: drop_plus_def)

lemma whole_unsigned_decimal:
  "parse_whole_unsigned w (decimal n) = (if n < 2 ^ w then Some (int n) else None)"
proof -
  have "int n < 2 ^ w \<longleftrightarrow> n < 2 ^ w" by (metis of_nat_less_iff of_nat_numeral of_nat_power)
  then show ?thesis
    by (simp add: parse_whole_unsigned_def drop_plus_decimal from_chars_unsigned_def digits_decimal)
qed

lemma whole_int_decimal: "parse_whole_int (decimal n) = (if n < 2 ^ 31 then Some (int n) else None)"
  using digit_kinds(4) [OF decimal_ends(1)]
  by (simp add: parse_whole_int_def drop_plus_decimal from_chars_int_def digits_decimal)

section \<open>Sizes\<close>

definition size_unit :: "string \<Rightarrow> nat option" where
  "size_unit u = (let U = map upper_char u in
     if U = [] \<or> U = ''MB'' then Some 1048576 else if U = ''GB'' then Some 1073741824 else None)"

lemma upper_char_letter: "is_upper_char (upper_char c) \<Longrightarrow> is_letter_char c"
  by (auto simp: upper_char_def is_letter_char_def split: if_splits)

lemma size_unit_letters: "size_unit u = Some scale \<Longrightarrow> list_all is_letter_char u"
proof -
  assume "size_unit u = Some scale"
  then have "list_all is_upper_char (map upper_char u)"
    by (auto simp: size_unit_def Let_def is_upper_char_def split: if_splits)
  then show ?thesis by (auto simp: list_all_iff intro: upper_char_letter)
qed

lemma size_unit_scale:
  assumes "size_unit u = Some scale"
  obtains w where "size_scale (map upper_char u) = Some w" and "unat w = scale" and "w = mega \<or> w = giga"
  using assms that by (auto simp: size_unit_def size_scale_def Let_def mega_def giga_def split: if_splits)

lemma scaled_or_none:
  assumes "w = mega \<or> w = giga"
  shows "(if c < 2 ^ 64 then
            (if u64_max div w < word_of_int (int c) then None else Some (word_of_int (int c) * w)) else None) =
         (if c * unat w < 2 ^ 64 then Some (of_nat (c * unat w) :: u64) else None)"
proof -
  have pos: "0 < unat w" using assms by (auto simp: mega_def giga_def)
  show ?thesis
  proof (cases "c < 2 ^ 64")
    case True
    then have c: "unat (word_of_int (int c) :: u64) = c" by (simp add: unat_of_nat take_bit_nat_eq_self)
    have "u64_max div w < word_of_int (int c) \<longleftrightarrow> (2 ^ 64 - 1) div unat w < c"
      by (simp only: word_less_nat_alt unat_div unat_u64_max c)
    also have "\<dots> \<longleftrightarrow> \<not> c * unat w < 2 ^ 64"
      using pos by (auto simp: div_less_iff_less_mult mult.commute)
    finally show ?thesis using True by (simp add: word_of_nat_eq_iff)
  next
    case False
    then have "\<not> c * unat w < 2 ^ 64" using pos mult_le_mono [of "2 ^ 64" c 1 "unat w"] by simp
    with False show ?thesis by simp
  qed
qed

lemma size_ending:
  assumes u: "list_all is_letter_char u" and m: "list_all is_blank_char m"
  shows "rev (takeWhile is_letter_char (rev (decimal c @ m @ u))) = u"
proof -
  have "\<not> is_letter_char (hd (rev m @ rev (decimal c)))"
    using m digit_kinds(2) [OF decimal_ends(2)]
    by (cases m rule: rev_cases) (auto simp: hd_rev decimal_not_empty digit_kinds)
  then show ?thesis using u takeWhile_pre [of is_letter_char "rev u" "rev m @ rev (decimal c)"] by simp
qed

lemma trimmed_size:
  assumes "list_all is_letter_char u" and "list_all is_blank_char p" "list_all is_blank_char m" "list_all is_blank_char q"
    and a: "a \<noteq> []" "\<not> is_blank_char (hd a)" "\<not> is_blank_char (last a)"
  obtains m' where "list_all is_blank_char m'" and "trim_view (p @ a @ m @ u @ q) = a @ m' @ u"
proof (cases "u = []")
  case True
  then have "trim_view (p @ a @ m @ u @ q) = a @ [] @ u"
    using trim_view_put [of p "m @ q" a] assms by simp
  with that [of "[]"] show ?thesis by simp
next
  case False
  moreover from this have "\<not> is_blank_char (last u)"
    using assms(1) by (auto simp: list_all_iff digit_kinds)
  ultimately have "trim_view (p @ (a @ m @ u) @ q) = a @ m @ u"
    using assms by (intro trim_view_put) simp_all
  with that [of m] assms(3) show ?thesis by simp
qed

lemma parse_size_written:
  assumes "size_unit u = Some scale" and "list_all is_blank_char p" "list_all is_blank_char m" "list_all is_blank_char q"
  shows "parse_size (p @ decimal c @ m @ u @ q) = (if c * scale < 2 ^ 64 then Some (of_nat (c * scale)) else None)"
proof -
  have u: "list_all is_letter_char u" by (rule size_unit_letters [OF assms(1)])
  have d: "decimal c \<noteq> []" "\<not> is_blank_char (hd (decimal c))" "\<not> is_blank_char (last (decimal c))"
    by (simp_all add: decimal_not_empty digit_kinds decimal_ends)
  obtain m' where m': "list_all is_blank_char m'"
    and t: "trim_view (p @ decimal c @ m @ u @ q) = decimal c @ m' @ u"
    using trimmed_size [OF u assms(2-4) d] by blast
  obtain w where w: "size_scale (map upper_char u) = Some w" "unat w = scale" "w = mega \<or> w = giga"
    by (rule size_unit_scale [OF assms(1)])
  have e: "rev (takeWhile is_letter_char (rev (decimal c @ m' @ u))) = u" by (rule size_ending [OF u m'])
  have n: "trim_view (decimal c @ m') = decimal c" using trim_view_put [of "[]" m' "decimal c"] d m' by simp
  have "parse_size (p @ decimal c @ m @ u @ q) =
      (case parse_whole_unsigned 64 (decimal c) of None \<Rightarrow> None
       | Some count \<Rightarrow> if u64_max div w < word_of_int count then None else Some (word_of_int count * w))"
    unfolding parse_size_def Let_def t e using d(1) by (simp add: w(1) n)
  also have "\<dots> = (if c * scale < 2 ^ 64 then Some (of_nat (c * scale)) else None)"
    using scaled_or_none [OF w(3), of c] w(2) by (simp add: whole_unsigned_decimal split: if_splits)
  finally show ?thesis .
qed


lemma upper_g: "map upper_char ''gB'' = ''GB''" "map upper_char ''GB'' = ''GB''"
  by code_simp+

lemma digit_chars:
  "char_of (48 :: nat) = CHR ''0''" "char_of (49 :: nat) = CHR ''1''" "char_of (50 :: nat) = CHR ''2''"
  "char_of (51 :: nat) = CHR ''3''" "char_of (52 :: nat) = CHR ''4''" "char_of (53 :: nat) = CHR ''5''"
  "char_of (54 :: nat) = CHR ''6''" "char_of (55 :: nat) = CHR ''7''" "char_of (56 :: nat) = CHR ''8''"
  "char_of (57 :: nat) = CHR ''9''"
  by code_simp+


section \<open>Fields\<close>

fun same_kind :: "opt_value \<Rightarrow> opt_value \<Rightarrow> bool" where
  "same_kind (V_text _) (V_text _) = True"
| "same_kind (V_int _) (V_int _) = True"
| "same_kind (V_float _) (V_float _) = True"
| "same_kind (V_bool _) (V_bool _) = True"
| "same_kind (V_u32 _) (V_u32 _) = True"
| "same_kind (V_u64 _) (V_u64 _) = True"
| "same_kind _ _ = False"

lemmas value_kinds = v_text_def v_int_def v_float_def v_bool_def v_u32_def v_u64_def

text \<open>A value of the type of the field; an \<open>int\<close> of 32 bits, and days that say \<open>off\<close> or count.\<close>

definition fits :: "field \<times> opt_value \<Rightarrow> bool" where
  "fits fv \<longleftrightarrow> (case fv of (f, v) \<Rightarrow> same_kind (get_field f default_options) v \<and>
     - (2 ^ 31) \<le> v_int v \<and> v_int v < 2 ^ 31 \<and> (f = Disk_max_age_days \<longrightarrow> - 1 \<le> v_int v))"

lemma get_field_set: "same_kind (get_field f default_options) v \<Longrightarrow> get_field f (set_field f v o') = v"
  by (cases v; cases f) (simp_all add: get_field_def set_field_def value_kinds)

lemma get_field_other: "f \<noteq> g \<Longrightarrow> get_field f (set_field g v o') = get_field f o'"
  by (cases g; cases f) (simp_all add: get_field_def set_field_def)

lemma assign_append: "assign (a @ b) o' = assign b (assign a o')"
  by (simp add: assign_def)

lemma assign_simps [simp]: "assign [] o' = o'" "assign ((f, v) # vs) o' = assign vs (set_field f v o')"
  by (simp_all add: assign_def)

lemma get_field_assign:
  "list_all fits vs \<Longrightarrow> get_field f (assign vs o') = (case map_of (rev vs) f of None \<Rightarrow> get_field f o' | Some v \<Rightarrow> v)"
proof (induction vs rule: rev_induct)
  case (snoc x vs)
  then show ?case
    by (cases x) (auto simp: assign_append fits_def get_field_set get_field_other)
qed simp

lemma whole_int_range: "parse_whole_int txt = Some n \<Longrightarrow> - (2 ^ 31) \<le> n \<and> n < 2 ^ 31"
  by (auto simp: parse_whole_int_def from_chars_int_def split: option.splits if_splits)

lemma disk_limit_range: "parse_disk_limit txt = Some (days, bytes) \<Longrightarrow> 0 \<le> days \<and> days < 2 ^ 31"
  by (auto simp: parse_disk_limit_def split: option.splits if_splits prod.splits dest: whole_int_range)

text \<open>The field of each row has the type that its reader reads.\<close>

fun reads_for :: "reader \<Rightarrow> field \<Rightarrow> bool" where
  "reads_for Read_text f = same_kind (get_field f default_options) (V_text [])"
| "reads_for Read_int f = (same_kind (get_field f default_options) (V_int 0) \<and> f \<noteq> Disk_max_age_days)"
| "reads_for Read_float f = same_kind (get_field f default_options) (V_float 0)"
| "reads_for Read_seed f = same_kind (get_field f default_options) (V_u32 0)"
| "reads_for Read_size f = same_kind (get_field f default_options) (V_u64 0)"
| "reads_for Read_disk_limit f = True"

fun key_reads_for :: "json_reader \<Rightarrow> field \<Rightarrow> bool" where
  "key_reads_for Key_text f = reads_for Read_text f"
| "key_reads_for Key_int f = reads_for Read_int f"
| "key_reads_for Key_uint32 f = reads_for Read_seed f"
| "key_reads_for Key_float f = reads_for Read_float f"
| "key_reads_for Key_bool f = same_kind (get_field f default_options) (V_bool True)"
| "key_reads_for Key_memory f = reads_for Read_size f"
| "key_reads_for Key_disk_limit f = True"

lemma flag_rows: "map_of flag_table arg = Some (r, f) \<Longrightarrow> reads_for r f"
proof -
  have "list_all (\<lambda>(a, r, f). reads_for r f) flag_table"
    by (simp add: flag_table_def get_field_def default_options_def)
  then show "map_of flag_table arg = Some (r, f) \<Longrightarrow> reads_for r f" by (auto simp: list_all_iff dest: map_of_SomeD)
qed

lemma key_rows: "map_of key_table key = Some (r, f) \<Longrightarrow> key_reads_for r f"
proof -
  have "list_all (\<lambda>(a, r, f). key_reads_for r f) key_table"
    by (simp add: key_table_def get_field_def default_options_def)
  then show "map_of key_table key = Some (r, f) \<Longrightarrow> key_reads_for r f" by (auto simp: list_all_iff dest: map_of_SomeD)
qed

lemma same_kind_any:
  "same_kind v (V_text a) = same_kind v (V_text b)" "same_kind v (V_int m) = same_kind v (V_int n)"
  "same_kind v (V_float x) = same_kind v (V_float y)" "same_kind v (V_bool c) = same_kind v (V_bool d)"
  "same_kind v (V_u32 k) = same_kind v (V_u32 l)" "same_kind v (V_u64 g) = same_kind v (V_u64 h)"
  by (cases v; simp)+

lemma disk_fits:
  "0 \<le> days \<Longrightarrow> days < 2 ^ 31 \<Longrightarrow> list_all fits [(Disk_max_age_days, V_int days), (Disk_max_bytes, V_u64 bytes)]"
  by (simp add: fits_def get_field_def default_options_def value_kinds)

lemma read_arg_fits:
  assumes "reads_for r f" and "read_arg from_chars r f txt = Some vs"
  shows "list_all fits vs"
proof (cases r)
  case Read_disk_limit
  with assms(2) show ?thesis
    by (auto simp: read_arg_def split: option.splits simp del: list.pred_inject dest!: disk_limit_range intro!: disk_fits)
qed (use assms in \<open>auto simp: read_arg_def option_map_value_def fits_def value_kinds dest!: whole_int_range
      intro: same_kind_any [THEN iffD1]\<close>)

lemma json_int_range: "json_int js key v = Inr n \<Longrightarrow> - (2 ^ 31) \<le> n \<and> n < 2 ^ 31"
  by (auto simp: json_int_def Let_def split: option.splits if_splits)

lemma read_key_fits:
  assumes "key_reads_for r f" and "read_key js r f key v = Inr vs"
  shows "list_all fits vs"
proof (cases r)
  case Key_disk_limit
  with assms(2) show ?thesis
    by (auto simp: read_key_def split: option.splits simp del: list.pred_inject dest!: disk_limit_range intro!: disk_fits)
qed (use assms in \<open>auto simp: read_key_def then_do_Inr_iff fits_def value_kinds split: option.splits
      dest!: json_int_range intro: same_kind_any [THEN iffD1]\<close>)

section \<open>Layers\<close>

text \<open>What a command line and a file set, as lists of settings in the order they take effect.\<close>

fun flag_settings :: "(string \<Rightarrow> rat option) \<Rightarrow> string list \<Rightarrow> (field \<times> opt_value) list" where
  "flag_settings from_chars [] = []"
| "flag_settings from_chars (arg # rest) =
     (case map_of flag_table arg of
        Some (r, f) \<Rightarrow>
          (case rest of
             [] \<Rightarrow> []
           | txt # rest' \<Rightarrow>
               (case read_arg from_chars r f txt of None \<Rightarrow> [] | Some vs \<Rightarrow> vs @ flag_settings from_chars rest'))
      | None \<Rightarrow> (Reasoning, V_bool (arg = ''--reasoning'')) # flag_settings from_chars rest)"

definition member_settings :: "('j, 'z) json_api_scheme \<Rightarrow> string \<times> 'j \<Rightarrow> (field \<times> opt_value) list" where
  "member_settings js kv =
     (case map_of key_table (fst kv) of
        None \<Rightarrow> []
      | Some (r, f) \<Rightarrow> (case read_key js r f (fst kv) (snd kv) of Inl _ \<Rightarrow> [] | Inr vs \<Rightarrow> vs))"

definition file_settings ::
  "('j, 'z) json_api_scheme \<Rightarrow> (string \<Rightarrow> string option) \<Rightarrow> string \<Rightarrow> (field \<times> opt_value) list" where
  "file_settings js file_text path =
     (case file_text path of
        None \<Rightarrow> []
      | Some txt \<Rightarrow>
          (case j_parse js txt of
             Inl _ \<Rightarrow> []
           | Inr doc \<Rightarrow> (case j_members js doc of None \<Rightarrow> [] | Some ms \<Rightarrow> concat (map (member_settings js) ms))))"

lemma reasoning_fits: "list_all fits [(Reasoning, V_bool b)]"
  by (simp add: fits_def get_field_def default_options_def value_kinds)

text \<open>
  \<open>layers vs ok st st'\<close>: the options of \<open>st'\<close> are those of \<open>st\<close> with the settings \<open>vs\<close>, and a step that
  fails says so.
\<close>

definition layers :: "(field \<times> opt_value) list \<Rightarrow> bool \<Rightarrow> server_arg_parse \<Rightarrow> server_arg_parse \<Rightarrow> bool" where
  "layers vs ok st st' \<longleftrightarrow> list_all fits vs \<and> sap_options st' = assign vs (sap_options st) \<and>
     (if ok then sap_help st' = sap_help st \<and> sap_error st' = sap_error st \<and> sap_usage st' = sap_usage st
      else sap_help st' \<or> sap_error st' \<noteq> [])"

lemma layers_refl: "layers [] True st st"
  by (simp add: layers_def)

lemma layers_failed: "sap_options st' = sap_options st \<Longrightarrow> sap_help st' \<or> sap_error st' \<noteq> [] \<Longrightarrow> layers [] False st st'"
  by (simp add: layers_def)

lemma layers_trans: "layers vs True st st' \<Longrightarrow> layers ws ok st' st'' \<Longrightarrow> layers (vs @ ws) ok st st''"
  by (cases ok) (simp_all add: layers_def assign_append)

lemma layers_assign: "list_all fits vs \<Longrightarrow> layers vs True st (st\<lparr> sap_options := assign vs (sap_options st) \<rparr>)"
  by (simp add: layers_def)

lemma invalid_value_not_empty: "invalid_value r arg given \<noteq> []"
  by (simp add: invalid_value_def)

lemma apply_args_layers:
  "apply_args from_chars args st = (ok, st') \<Longrightarrow>
   \<exists>vs. layers vs ok st st' \<and> (ok \<longrightarrow> vs = flag_settings from_chars args)"
proof (induction from_chars args st arbitrary: st' rule: apply_args.induct)
  case (1 from_chars st)
  then show ?case using layers_refl by auto
next
  case (2 from_chars arg rest st)
  show ?case
  proof (cases "map_of flag_table arg")
    case None
    let ?v = "[(Reasoning, V_bool (arg = ''--reasoning''))]"
    show ?thesis
    proof (cases "arg = ''--reasoning'' \<or> arg = ''--no-reasoning''")
      case True
      with 2 None obtain vs where "layers vs ok (st\<lparr> sap_options := assign ?v (sap_options st) \<rparr>) st'"
        and "ok \<longrightarrow> vs = flag_settings from_chars rest" by auto
      then have "layers (?v @ vs) ok st st'" "ok \<longrightarrow> ?v @ vs = flag_settings from_chars (arg # rest)"
        using layers_trans [OF layers_assign [OF reasoning_fits]] None by auto
      then show ?thesis by blast
    next
      case False
      with 2(3) None have "\<not> ok" "layers [] False st st'" by (auto split: if_splits intro!: layers_failed)
      then show ?thesis by auto
    qed
  next
    case (Some rf)
    then obtain r f where rf: "map_of flag_table arg = Some (r, f)" by (cases rf) simp
    show ?thesis
    proof (cases "\<exists>given rest' vs. rest = given # rest' \<and> read_arg from_chars r f given = Some vs")
      case True
      then obtain given rest' vs where c: "rest = given # rest'" "read_arg from_chars r f given = Some vs" by blast
      have fit: "list_all fits vs" by (rule read_arg_fits [OF flag_rows [OF rf] c(2)])
      from 2(3) rf c have run: "apply_args from_chars rest' (st\<lparr> sap_options := assign vs (sap_options st) \<rparr>) = (ok, st')"
        by simp
      obtain ws where "layers ws ok (st\<lparr> sap_options := assign vs (sap_options st) \<rparr>) st'"
        and "ok \<longrightarrow> ws = flag_settings from_chars rest'"
        using 2(2) [OF rf refl c run] by blast
      then have "layers (vs @ ws) ok st st'" "ok \<longrightarrow> vs @ ws = flag_settings from_chars (arg # rest)"
        using layers_trans [OF layers_assign [OF fit]] rf c by auto
      then show ?thesis by blast
    next
      case False
      with 2(3) rf have "\<not> ok" "layers [] False st st'"
        by (auto split: list.splits option.splits intro!: layers_failed simp: invalid_value_not_empty)
      then show ?thesis by auto
    qed
  qed
qed

lemma then_do_Inl: "then_do m f = Inl e \<longleftrightarrow> m = Inl e \<or> (\<exists>x. m = Inr x \<and> f x = Inl e)"
  by (cases m) simp_all

lemma json_int_error: "json_int js key v = Inl err \<Longrightarrow> err \<noteq> []"
  unfolding json_int_def Let_def by (cases "j_int_of js v") (simp_all split: if_split_asm, fastforce+)

lemma json_uint32_error: "json_uint32 js key v = Inl err \<Longrightarrow> err \<noteq> []"
  unfolding json_uint32_def Let_def by (cases "j_int_of js v") (simp_all split: if_split_asm, fastforce+)

lemmas json_errors = json_int_error json_uint32_error

lemma json_memory_error: "json_memory js key v = Inl err \<Longrightarrow> err \<noteq> []"
  by (auto simp: json_memory_def then_do_Inl split: option.splits if_splits dest: json_errors)

lemma read_key_error: "read_key js r f key v = Inl err \<Longrightarrow> err \<noteq> []"
  by (cases r) (auto simp: read_key_def then_do_Inl split: option.splits dest: json_errors json_memory_error)

lemma read_key_says: "read_key js r f key v \<noteq> Inl []"
proof
  assume "read_key js r f key v = Inl []"
  from read_key_error [OF this] show False by simp
qed

lemma apply_json_key_layers:
  assumes "apply_json_key js key v st = (ok, st')"
  shows "\<exists>vs. layers vs ok st st' \<and> (ok \<longrightarrow> vs = member_settings js (key, v))"
proof (cases "\<exists>r f vs. map_of key_table key = Some (r, f) \<and> read_key js r f key v = Inr vs \<and> key \<noteq> ''config-file''")
  case True
  then obtain r f vs where k: "map_of key_table key = Some (r, f)" "read_key js r f key v = Inr vs" "key \<noteq> ''config-file''"
    by blast
  have "list_all fits vs" by (rule read_key_fits [OF key_rows [OF k(1)] k(2)])
  with assms k layers_assign [of vs st] show ?thesis by (auto simp: apply_json_key_def member_settings_def)
next
  case False
  with assms have "\<not> ok" "layers [] False st st'"
    by (auto simp: apply_json_key_def split: if_splits option.splits sum.splits intro!: layers_failed simp: read_key_says)
  then show ?thesis by auto
qed

lemma apply_members_layers:
  "apply_members js path ms st = (ok, st') \<Longrightarrow>
   \<exists>vs. layers vs ok st st' \<and> (ok \<longrightarrow> vs = concat (map (member_settings js) ms))"
proof (induction js path ms st arbitrary: st' rule: apply_members.induct)
  case (1 js path st)
  then show ?case using layers_refl by auto
next
  case (2 js path key v ms st)
  obtain ok1 st1 where one: "apply_json_key js key v st = (ok1, st1)" by fastforce
  from apply_json_key_layers [OF one] obtain vs where vs: "layers vs ok1 st st1" "ok1 \<longrightarrow> vs = member_settings js (key, v)"
    by blast
  show ?case
  proof (cases ok1)
    case True
    with 2(2) one have "apply_members js path ms st1 = (ok, st')" by simp
    then obtain ws where "layers ws ok st1 st'" "ok \<longrightarrow> ws = concat (map (member_settings js) ms)"
      using 2(1) [OF one [symmetric] refl True] by blast
    with vs True have "layers (vs @ ws) ok st st'" "ok \<longrightarrow> vs @ ws = concat (map (member_settings js) ((key, v) # ms))"
      using layers_trans by auto
    then show ?thesis by blast
  next
    case False
    with 2(2) one have st': "\<not> ok" "st' = st1\<lparr> sap_error := ''config file '' @ path @ '': '' @ sap_error st1 \<rparr>"
      by simp_all
    from vs(1) False have "layers vs ok st st'" unfolding layers_def st'(2) using st'(1) by simp
    with st'(1) show ?thesis by blast
  qed
qed

lemma load_config_file_layers:
  "load_config_file js file_text path st = (ok, st') \<Longrightarrow>
   \<exists>vs. layers vs ok st st' \<and> (ok \<longrightarrow> vs = file_settings js file_text path)"
proof (cases "\<exists>given doc ms. file_text path = Some given \<and> j_parse js given = Inr doc \<and> j_members js doc = Some ms")
  case True
  then obtain given doc ms where "file_text path = Some given" "j_parse js given = Inr doc" "j_members js doc = Some ms"
    by blast
  then show "load_config_file js file_text path st = (ok, st') \<Longrightarrow> ?thesis"
    using apply_members_layers [of js path ms st ok st'] by (simp add: load_config_file_def file_settings_def)
next
  case False
  then show "load_config_file js file_text path st = (ok, st') \<Longrightarrow> ?thesis"
    by (intro exI [of _ "[]"]) (auto simp: load_config_file_def split: option.splits sum.splits intro: layers_failed)
qed

lemma load_config_files_layers:
  "load_config_files js file_text paths st = (ok, st') \<Longrightarrow>
   \<exists>vs. layers vs ok st st' \<and> (ok \<longrightarrow> vs = concat (map (file_settings js file_text) paths))"
proof (induction js file_text paths st arbitrary: st' rule: load_config_files.induct)
  case (1 js file_text st)
  then show ?case using layers_refl by auto
next
  case (2 js file_text path paths st)
  obtain ok1 st1 where one: "load_config_file js file_text path st = (ok1, st1)" by fastforce
  from load_config_file_layers [OF one] obtain vs where vs: "layers vs ok1 st st1" "ok1 \<longrightarrow> vs = file_settings js file_text path"
    by blast
  show ?case
  proof (cases ok1)
    case True
    with 2(2) one have "load_config_files js file_text paths st1 = (ok, st')" by simp
    then obtain ws where "layers ws ok st1 st'" "ok \<longrightarrow> ws = concat (map (file_settings js file_text) paths)"
      using 2(1) [OF one [symmetric] refl True] by blast
    with vs True have "layers (vs @ ws) ok st st'" "ok \<longrightarrow> vs @ ws = concat (map (file_settings js file_text) (path # paths))"
      using layers_trans by auto
    then show ?thesis by blast
  next
    case False
    with 2(2) one have "\<not> ok" "st' = st1" by simp_all
    with vs(1) False show ?thesis by auto
  qed
qed

lemma no_status_simps [simp]:
  "sap_help no_status = False" "sap_error no_status = []" "sap_usage no_status = False"
  "sap_options no_status = default_options"
  by (simp_all add: no_status_def)

lemma parse_server_args_layers:
  assumes "split_args args [] [] = Inr (cli, paths)"
    and "\<not> sap_help (parse_server_args js from_chars file_text args)"
    and "sap_error (parse_server_args js from_chars file_text args) = []"
  shows "\<exists>a b. a = concat (map (file_settings js file_text) paths) \<and> b = flag_settings from_chars cli \<and>
      list_all fits (a @ b) \<and> sap_options (parse_server_args js from_chars file_text args) = assign (a @ b) default_options \<and>
      (sap_usage (parse_server_args js from_chars file_text args) \<longleftrightarrow>
       so_model_path (sap_options (parse_server_args js from_chars file_text args)) = [])"
proof -
  obtain ok1 st1 where one: "load_config_files js file_text paths no_status = (ok1, st1)" by fastforce
  obtain ok2 st2 where two: "apply_args from_chars cli st1 = (ok2, st2)" by fastforce
  from load_config_files_layers [OF one] obtain a where
    a: "layers a ok1 no_status st1" "ok1 \<longrightarrow> a = concat (map (file_settings js file_text) paths)" by blast
  from apply_args_layers [OF two] obtain b where
    b: "layers b ok2 st1 st2" "ok2 \<longrightarrow> b = flag_settings from_chars cli" by blast
  have run: "parse_server_args js from_chars file_text args =
      (if \<not> ok1 then st1 else if \<not> ok2 then st2
       else if so_model_path (sap_options st2) = [] then st2\<lparr> sap_usage := True \<rparr> else st2)"
    using assms(1) one two by (simp add: parse_server_args_def)
  have ok: "ok1" "ok2" using assms(2,3) a(1) b(1) unfolding run layers_def by (auto split: if_splits)
  then have l: "layers (a @ b) True no_status st2" using layers_trans a b by auto
  then show ?thesis using a(2) b(2) ok unfolding run layers_def by auto
qed


definition file_json :: "json_tree json_api" where
  "file_json = tree_json\<lparr> j_parse := \<lambda>s. Inr (J_object [(''model'', J_string ''a''), (''port'', J_int 9000)]) \<rparr>"

abbreviation demo_args :: "string list" where
  "demo_args \<equiv> [''-m'', ''b'', ''--config-file'', ''cfg'']"

lemma demo_split: "split_args demo_args [] [] = Inr ([''-m'', ''b''], [''cfg''])"
  by code_simp

lemma demo_parse:
  "let st = parse_server_args file_json (\<lambda>s. None) (\<lambda>p. Some ''{}'') demo_args in
     \<not> sap_help st \<and> sap_error st = [] \<and> so_port (sap_options st) = 9000"
  by code_simp

lemma demo_layers:
  "map_of (rev (flag_settings (\<lambda>s. None) [''-m'', ''b''])) Model_path = Some (V_text ''b'')"
  by code_simp


lemma parse_server_args_fits:
  "\<exists>vs. list_all fits vs \<and> sap_options (parse_server_args js from_chars file_text args) = assign vs default_options"
proof (cases "split_args args [] []")
  case (Inl st)
  have "sap_options st = default_options" if "split_args as cli paths = Inl st" for as cli paths
    using that by (induction as cli paths rule: split_args.induct) (auto split: if_splits list.splits)
  with Inl show ?thesis by (intro exI [of _ "[]"]) (simp add: parse_server_args_def)
next
  case (Inr cp)
  then obtain cli paths where cp: "split_args args [] [] = Inr (cli, paths)" by (cases cp) simp
  obtain ok1 st1 where one: "load_config_files js file_text paths no_status = (ok1, st1)" by fastforce
  obtain ok2 st2 where two: "apply_args from_chars cli st1 = (ok2, st2)" by fastforce
  from load_config_files_layers [OF one] obtain a where a: "layers a ok1 no_status st1" by blast
  from apply_args_layers [OF two] obtain b where b: "layers b ok2 st1 st2" by blast
  show ?thesis
  proof (cases ok1)
    case True
    with a b have "list_all fits (a @ b)" "sap_options st2 = assign (a @ b) default_options"
      by (simp_all add: layers_def assign_append)
    with cp one two True show ?thesis
      by (intro exI [of _ "a @ b"]) (simp add: parse_server_args_def)
  next
    case False
    with a cp one show ?thesis
      by (intro exI [of _ a]) (simp add: parse_server_args_def layers_def)
  qed
qed

lemma default_fits: "fits (f, get_field f default_options)"
  by (cases f) (simp_all add: fits_def get_field_def default_options_def value_kinds)

lemma parsed_fits: "fits (f, get_field f (sap_options (parse_server_args js from_chars file_text args)))"
proof -
  obtain vs where vs: "list_all fits vs"
    "sap_options (parse_server_args js from_chars file_text args) = assign vs default_options"
    using parse_server_args_fits by blast
  show ?thesis
  proof (cases "map_of (rev vs) f")
    case None
    with vs show ?thesis by (simp add: get_field_assign default_fits)
  next
    case (Some v)
    then have "(f, v) \<in> set vs" using map_of_SomeD by fastforce
    with vs Some show ?thesis by (auto simp: get_field_assign list_all_iff)
  qed
qed

text \<open>
  C0. Whatever the arguments and files say, and also where they are refused half-way, every whole-number
  setting fits into an \<open>int\<close>, and the age limit of session files is -1 (off) or counts days.
\<close>

theorem settings_stay_in_range:
  shows "- (2 ^ 31) \<le> v_int (get_field f (sap_options (parse_server_args js from_chars file_text args)))"
    and "v_int (get_field f (sap_options (parse_server_args js from_chars file_text args))) < 2 ^ 31"
    and "- 1 \<le> so_session_disk_max_age_days (sap_options (parse_server_args js from_chars file_text args))"
  using parsed_fits [of f js from_chars file_text args] parsed_fits [of Disk_max_age_days js from_chars file_text args]
  by (auto simp: fits_def get_field_def value_kinds)

section \<open>The key\<close>

lemma hex_digit_range: "n < 16 \<Longrightarrow> hex_digit n \<in> set ''0123456789abcdef''"
  unfolding hex_digit_def by (rule nth_mem) simp

lemma hex_digit_inject: "m < 16 \<Longrightarrow> n < 16 \<Longrightarrow> hex_digit m = hex_digit n \<Longrightarrow> m = n"
  unfolding hex_digit_def by (subst (asm) nth_eq_iff_index_eq) simp_all

lemma nibble_values: "unat (drop_bit 4 (b :: byte)) = unat b div 16" "unat (b AND 15) = unat b mod 16"
proof -
  show "unat (drop_bit 4 b) = unat b div 16" using unsigned_less [of b, where ?'a = nat] by (simp add: unsigned_drop_bit_eq drop_bit_nat_def take_bit_nat_eq_self)
  have low: "b AND 15 = take_bit 4 b" by (simp add: take_bit_eq_mask mask_eq_exp_minus_1)
  show "unat (b AND 15) = unat b mod 16"
    unfolding low unsigned_take_bit_eq by (simp add: take_bit_eq_mod)
qed

lemma nibbles: "unat (drop_bit 4 (b :: byte)) < 16" "unat (b AND 15) < 16"
  using unsigned_less [of b, where ?'a = nat] by (simp_all add: nibble_values)

lemma byte_hex_inject:
  assumes "hex_digit (unat (drop_bit 4 a)) = hex_digit (unat (drop_bit 4 (b :: byte)))"
    and "hex_digit (unat (a AND 15)) = hex_digit (unat (b AND 15))"
  shows "a = b"
proof -
  have "unat a div 16 = unat b div 16" "unat a mod 16 = unat b mod 16"
    using hex_digit_inject [OF nibbles(1) nibbles(1) assms(1)] hex_digit_inject [OF nibbles(2) nibbles(2) assms(2)]
    by (simp_all only: nibble_values)
  then show ?thesis by (metis div_mod_decomp word_unat_eq_iff)
qed

text \<open>A key has two lower-case hexadecimal digits for each random byte, and other bytes give another key.\<close>

lemma generated_key_is_hex:
  "generate_api_key (Some bs) = Some k \<Longrightarrow> length k = 2 * length bs \<and> set k \<subseteq> set ''0123456789abcdef''"
proof (induction bs arbitrary: k)
  case (Cons b bs)
  obtain k' where k': "generate_api_key (Some bs) = Some k'" by (simp add: generate_api_key_def)
  have "k = hex_digit (unat (drop_bit 4 b)) # hex_digit (unat (b AND 15)) # k'"
    using Cons.prems k' by (simp add: generate_api_key_def)
  with Cons.IH [OF k'] nibbles [of b, THEN hex_digit_range] show ?case by simp
qed (simp add: generate_api_key_def)

lemma generated_keys_differ:
  "generate_api_key (Some as) = generate_api_key (Some bs) \<Longrightarrow> length as = length bs \<Longrightarrow> as = bs"
proof (induction as arbitrary: bs)
  case (Cons a as)
  then obtain b bs' where "bs = b # bs'" by (cases bs) simp_all
  with Cons show ?case using byte_hex_inject [of a b] by (simp add: generate_api_key_def)
qed simp

text \<open>An integer of a file is converted to 64 bits before its range is tested.\<close>

lemma config_int_wraps:
  "j_int_of js v = Some 18446744073709551615 \<Longrightarrow> json_int js ''port'' v = Inr (- 1)"
proof -
  have "int64_of 18446744073709551615 = - 1" by code_simp
  then show "j_int_of js v = Some 18446744073709551615 \<Longrightarrow> json_int js ''port'' v = Inr (- 1)"
    by (simp add: json_int_def)
qed

end
