(* ===== verification/Startup.thy ===== *)
theory Startup
  imports Options_Proofs Chat_Prompt
begin

text \<open>
  From the settings to a running engine: the directories of \<open>src/common/xdg.cpp\<close>, the context parameters
  of \<open>src/server/llm/context_params.hpp\<close>, \<open>LlamaEngine::create\<close> of \<open>src/server/llm/llm_engine.cpp\<close>, and what
  \<open>main\<close> makes of the arguments and of the exceptions of a handler. The environment, the files and the
  loading functions of llama.cpp are arguments.
\<close>

section \<open>Directories\<close>

datatype xdg_base = Config | Data | State | Cache

definition xdg_env :: "xdg_base \<Rightarrow> string" where
  "xdg_env kind = (case kind of Config \<Rightarrow> ''XDG_CONFIG_HOME'' | Data \<Rightarrow> ''XDG_DATA_HOME''
     | State \<Rightarrow> ''XDG_STATE_HOME'' | Cache \<Rightarrow> ''XDG_CACHE_HOME'')"

text \<open>\<open>operator/\<close> with a relative right side: a separator unless the left side ends in one.\<close>

definition path_join :: "string \<Rightarrow> string \<Rightarrow> string" where
  "path_join p q = (if p = [] \<or> last p = CHR ''/'' then p @ q else p @ ''/'' @ q)"

definition home_default :: "xdg_base \<Rightarrow> string \<Rightarrow> string" where
  "home_default kind home = (case kind of
       Config \<Rightarrow> path_join home ''.config''
     | Data \<Rightarrow> path_join (path_join home ''.local'') ''share''
     | State \<Rightarrow> path_join (path_join home ''.local'') ''state''
     | Cache \<Rightarrow> path_join home ''.cache'')"

definition base_dir :: "(string \<Rightarrow> string option) \<Rightarrow> xdg_base \<Rightarrow> string" where
  "base_dir env kind =
     (case env (xdg_env kind) of
        Some (c # cs) \<Rightarrow> c # cs
      | _ \<Rightarrow> (case env ''HOME'' of Some (c # cs) \<Rightarrow> home_default kind (c # cs) | _ \<Rightarrow> []))"

definition callisto_user_dir :: "(string \<Rightarrow> string option) \<Rightarrow> xdg_base \<Rightarrow> string" where
  "callisto_user_dir env kind =
     (let base = base_dir env kind in if base = [] then [] else path_join base ''callisto'')"

definition k_fallback_session_dir :: string where
  "k_fallback_session_dir = ''/tmp/callisto/sessions''"

definition sessions_dir :: "string \<Rightarrow> string" where
  "sessions_dir user_dir = (if user_dir = [] then k_fallback_session_dir else path_join user_dir ''sessions'')"

text \<open>The conversations and the KV files.\<close>

definition default_session_dirs :: "(string \<Rightarrow> string option) \<Rightarrow> string \<Rightarrow> string \<times> string" where
  "default_session_dirs env session_dir_override =
     (if session_dir_override \<noteq> [] then (session_dir_override, session_dir_override)
      else (sessions_dir (callisto_user_dir env State), sessions_dir (callisto_user_dir env Cache)))"

definition resolve_session_dirs :: "(string \<Rightarrow> string option) \<Rightarrow> server_options \<Rightarrow> server_options" where
  "resolve_session_dirs env o' =
     (if so_kv_dir o' = []
      then let (conversations, kv) = default_session_dirs env (so_session_dir o') in
           (if so_session_dir o' = [] then o'\<lparr> so_session_dir := conversations \<rparr> else o')\<lparr> so_kv_dir := kv \<rparr>
      else if so_session_dir o' = [] then o'\<lparr> so_session_dir := fst (default_session_dirs env []) \<rparr>
      else o')"

section \<open>Context parameters\<close>

datatype ggml_type =
  Type_f32 | Type_f16 | Type_bf16 | Type_q8_0 | Type_q4_0 | Type_q4_1 | Type_q5_0 | Type_q5_1 | Type_iq4_nl

datatype flash_attn_type = Flash_auto | Flash_enabled | Flash_disabled

record context_params =
  cp_n_ctx :: u32
  cp_n_batch :: u32
  cp_n_ubatch :: u32
  cp_n_threads :: int
  cp_n_threads_batch :: int
  cp_flash_attn :: flash_attn_type
  cp_type_k :: ggml_type
  cp_type_v :: ggml_type
  cp_no_perf :: bool

definition parse_cache_type :: "string \<Rightarrow> string + ggml_type" where
  "parse_cache_type name =
     (if name = ''f32'' then Inr Type_f32
      else if name = ''f16'' then Inr Type_f16
      else if name = ''bf16'' then Inr Type_bf16
      else if name = ''q8_0'' then Inr Type_q8_0
      else if name = ''q4_0'' then Inr Type_q4_0
      else if name = ''q4_1'' then Inr Type_q4_1
      else if name = ''q5_0'' then Inr Type_q5_0
      else if name = ''q5_1'' then Inr Type_q5_1
      else if name = ''iq4_nl'' then Inr Type_iq4_nl
      else Inl (''unknown cache type: '' @ name))"

definition parse_flash_attn :: "string \<Rightarrow> string + flash_attn_type" where
  "parse_flash_attn name =
     (if name = ''auto'' then Inr Flash_auto
      else if name = ''on'' then Inr Flash_enabled
      else if name = ''off'' then Inr Flash_disabled
      else Inl (''unknown flash attention mode: '' @ name))"

definition apply_context_knobs :: "server_options \<Rightarrow> context_params \<Rightarrow> string + context_params" where
  "apply_context_knobs o' p =
     (let n_batch = (word_of_int (max 1 (min (so_n_ctx o') (so_n_batch o'))) :: u32);
          p = p\<lparr> cp_n_ctx := word_of_int (max 1 (so_n_ctx o')), cp_n_batch := n_batch,
                 cp_n_ubatch := min n_batch (cp_n_ubatch p) \<rparr>;
          p = (if 0 < so_n_threads o' then p\<lparr> cp_n_threads := so_n_threads o' \<rparr> else p);
          p = (if 0 < so_n_threads_batch o' then p\<lparr> cp_n_threads_batch := so_n_threads_batch o' \<rparr> else p)
      in then_do (parse_flash_attn (so_flash_attn o')) (\<lambda>flash.
         then_do (parse_cache_type (so_cache_type_k o')) (\<lambda>k.
         then_do (parse_cache_type (so_cache_type_v o')) (\<lambda>v.
           Inr (p\<lparr> cp_flash_attn := flash, cp_type_k := k, cp_type_v := v, cp_no_perf := False \<rparr>)))))"

section \<open>Creating the engine\<close>

text \<open>
  The loading functions of llama.cpp, and the machine: making a directory answers the message of its
  exception, or that it is there; a directory of KV files is a \<open>kv_store\<close>; a template file is its text.
\<close>

record ('m, 'c, 't) loader =
  ld_model :: "string \<Rightarrow> int \<Rightarrow> 'm option"
  ld_is_hybrid :: "'m \<Rightarrow> bool"
  ld_is_recurrent :: "'m \<Rightarrow> bool"
  ld_chat_template :: "'m \<Rightarrow> string option"
  ld_templates :: "'m \<Rightarrow> string \<Rightarrow> string + 't"
  ld_default_params :: context_params
  ld_context :: "'m \<Rightarrow> context_params \<Rightarrow> 'c option"

record machine =
  mc_env :: "string \<Rightarrow> string option"
  mc_create_directories :: "string \<Rightarrow> string option"
  mc_kv_files :: "string \<Rightarrow> kv_store"
  mc_read_file :: "string \<Rightarrow> string option"
  mc_alloc_fails :: "bool list"

datatype start_error = Model_not_found string | Model_init string | Start_runtime string

definition config_of :: "server_options \<Rightarrow> llama_config" where
  "config_of o' = \<lparr> cfg_reasoning = so_reasoning o', cfg_n_ctx = so_n_ctx o', cfg_temperature = so_temperature o',
     cfg_top_p = so_top_p o', cfg_top_k = so_top_k o', cfg_min_p = so_min_p o',
     cfg_presence_penalty = so_presence_penalty o', cfg_frequency_penalty = so_frequency_penalty o',
     cfg_repetition_penalty = so_repetition_penalty o', cfg_penalty_last_n = so_penalty_last_n o',
     cfg_seed = so_seed o', cfg_max_tokens = so_max_tokens o',
     cfg_session_memory_bytes = so_session_memory_bytes o',
     cfg_session_disk_max_age_days = so_session_disk_max_age_days o',
     cfg_session_disk_max_bytes = so_session_disk_max_bytes o' \<rparr>"

definition kv_store_open :: "machine \<Rightarrow> string \<Rightarrow> string + kv_store" where
  "kv_store_open mc dir =
     (if dir = [] then Inl ''session directory is empty''
      else case mc_create_directories mc dir of
             Some what \<Rightarrow> Inl what
           | None \<Rightarrow> Inr ((mc_kv_files mc dir)\<lparr> opened := True \<rparr>))"

definition fresh_engine :: "machine \<Rightarrow> server_options \<Rightarrow> kv_store \<Rightarrow> ('c, 's) engine" where
  "fresh_engine mc o' s = \<lparr> config = config_of o', vocab_ready = False, ctx = None, smpl = None,
     merge_user_turns = False, keep_reasoning = True, hybrid_cache = False, active_session_id = [],
     active_tokens = [], message_ends = [], store = s, memory = session_memory_new (so_session_memory_bytes o'),
     alloc_fails = mc_alloc_fails mc \<rparr>"

definition read_template :: "machine \<Rightarrow> string \<Rightarrow> start_error + string" where
  "read_template mc path =
     (if path = [] then Inr []
      else case mc_read_file mc path of
             None \<Rightarrow> Inl (Model_init (''failed to read chat template from '' @ path))
           | Some source \<Rightarrow>
               if source = [] then Inl (Model_init (''chat template is empty: '' @ path)) else Inr source)"

definition make_context ::
  "('c, 's, 'z) llama_api_scheme \<Rightarrow> ('m, 'c, 't, 'y) loader_scheme \<Rightarrow> server_options \<Rightarrow> 'm \<Rightarrow> ('c, 's) engine \<Rightarrow>
   start_error + ('c, 's) engine" where
  "make_context api ld o' m e =
     (case apply_context_knobs o' (ld_default_params ld) of
        Inl what \<Rightarrow> Inl (Start_runtime what)
      | Inr p \<Rightarrow>
          (case ld_context ld m p of
             None \<Rightarrow> Inl (Model_init (''failed to create llama_context for '' @ so_model_path o'))
           | Some c \<Rightarrow>
               (case rebuild_sampler api (e\<lparr> ctx := Some c \<rparr>) (so_temperature o') of
                  Inl _ \<Rightarrow> Inl (Model_init ''failed to create sampler chain'')
                | Inr e \<Rightarrow> Inr e)))"

definition load_engine ::
  "('c, 's, 'z) llama_api_scheme \<Rightarrow> ('m, 'c, 't, 'y) loader_scheme \<Rightarrow> machine \<Rightarrow> server_options \<Rightarrow> ('c, 's) engine \<Rightarrow>
   start_error + ('c, 's) engine \<times> 't" where
  "load_engine api ld mc o' e =
     (case ld_model ld (so_model_path o') (so_n_gpu_layers o') of
        None \<Rightarrow> Inl (Model_not_found (''unable to load model from '' @ so_model_path o'))
      | Some m \<Rightarrow>
          then_do (read_template mc (so_template_path o')) (\<lambda>override_src.
            let source = (if override_src = []
                          then (case ld_chat_template ld m of None \<Rightarrow> [] | Some embedded \<Rightarrow> embedded)
                          else override_src);
                strict = template_requires_alternating_roles source;
                source = (if strict then relax_strict_role_template source else source);
                e = e\<lparr> vocab_ready := True, hybrid_cache := ld_is_hybrid ld m \<or> ld_is_recurrent ld m,
                       merge_user_turns := strict,
                       keep_reasoning := source = [] \<or> template_renders_reasoning source \<rparr>
            in case ld_templates ld m (if strict then source else override_src) of
                 Inl what \<Rightarrow> Inl (Start_runtime what)
               | Inr templates \<Rightarrow>
                   then_do (make_context api ld o' m e) (\<lambda>e. Inr (e, templates))))"

definition create ::
  "('c, 's, 'z) llama_api_scheme \<Rightarrow> ('m, 'c, 't, 'y) loader_scheme \<Rightarrow> machine \<Rightarrow> server_options \<Rightarrow>
   start_error + ('c, 's) engine \<times> 't" where
  "create api ld mc o' =
     (if so_n_ctx o' \<le> 0 then Inl (Model_init ''n_ctx must be positive'')
      else let o' = resolve_session_dirs (mc_env mc) o'
      in case mc_create_directories mc (so_session_dir o') of
           Some what \<Rightarrow> Inl (Model_init (''session directory '' @ so_session_dir o' @ '': '' @ what))
         | None \<Rightarrow>
             (case kv_store_open mc (so_kv_dir o') of
                Inl what \<Rightarrow> Inl (Model_init (''session kv directory '' @ so_kv_dir o' @ '': '' @ what))
              | Inr s \<Rightarrow> load_engine api ld mc o' (trim_session_disk (fresh_engine mc o' s))))"

section \<open>The process\<close>

text \<open>\<open>main\<close>, of the arguments: the exit code, or to go on.\<close>

definition exit_of_args :: "server_arg_parse \<Rightarrow> int option" where
  "exit_of_args st =
     (if sap_help st then Some 0 else if sap_error st \<noteq> [] \<or> sap_usage st then Some 1 else None)"

text \<open>The exceptions a handler may leave with, and the status and message of the answer.\<close>

datatype handler_exception =
    Ex_not_found string | Ex_busy string | Ex_bad_request string | Ex_json string
  | Ex_invalid_argument string | Ex_out_of_range string | Ex_other string

definition answer_exception :: "handler_exception \<Rightarrow> nat \<times> string" where
  "answer_exception ex = (case ex of
       Ex_not_found what \<Rightarrow> (404, what) | Ex_busy what \<Rightarrow> (503, what) | Ex_bad_request what \<Rightarrow> (400, what)
     | Ex_json what \<Rightarrow> (400, what) | Ex_invalid_argument _ \<Rightarrow> (400, ''invalid id'')
     | Ex_out_of_range _ \<Rightarrow> (400, ''invalid id'') | Ex_other what \<Rightarrow> (500, what))"

end
