(* ===== verification/Startup_Proofs.thy ===== *)
theory Startup_Proofs
  imports Startup Llm_Budget
begin

text \<open>
  What the settings become: context parameters that fit together, session directories that are never
  empty, and an engine that starts in the state which all its operations keep.
\<close>

section \<open>Context parameters\<close>

lemma uint_small: "0 \<le> n \<Longrightarrow> n < 2 ^ 32 \<Longrightarrow> uint (word_of_int n :: u32) = n"
  by (simp add: unsigned_of_int take_bit_int_eq_self)

lemma parsed_int_range:
  "so_n_ctx (sap_options (parse_server_args js from_chars file_text args)) < 2 ^ 31"
  using parsed_fits [of N_ctx js from_chars file_text args] by (simp add: fits_def get_field_def value_kinds)

text \<open>
  C26. The parameters the context is made with are those of the settings, without wrap-around: the
  context has the tokens asked for (at least one), a batch is never larger than the context and a
  micro-batch never larger than a batch or than llama.cpp's own default.
\<close>

theorem context_parameters_fit:
  assumes "sap_options (parse_server_args js from_chars file_text args) = o'"
    and "apply_context_knobs o' p = Inr q"
  shows "uint (cp_n_ctx q) = max 1 (so_n_ctx o') \<and>
    uint (cp_n_batch q) = max 1 (min (so_n_ctx o') (so_n_batch o')) \<and>
    cp_n_ubatch q \<le> cp_n_batch q \<and> cp_n_batch q \<le> cp_n_ctx q \<and> cp_n_ubatch q \<le> cp_n_ubatch p \<and>
    cp_n_threads q = (if 0 < so_n_threads o' then so_n_threads o' else cp_n_threads p)"
proof (intro conjI)
  have "so_n_ctx o' < 2 ^ 31" using parsed_int_range assms(1) by blast
  then have r: "0 \<le> max 1 (so_n_ctx o')" "max 1 (so_n_ctx o') < 2 ^ 32"
    "0 \<le> max 1 (min (so_n_ctx o') (so_n_batch o'))" "max 1 (min (so_n_ctx o') (so_n_batch o')) < 2 ^ 32"
    by auto
  from assms(2) have q: "cp_n_ctx q = word_of_int (max 1 (so_n_ctx o'))"
    "cp_n_batch q = word_of_int (max 1 (min (so_n_ctx o') (so_n_batch o')))"
    "cp_n_ubatch q = min (cp_n_batch q) (cp_n_ubatch p)"
    "cp_n_threads q = (if 0 < so_n_threads o' then so_n_threads o' else cp_n_threads p)"
    by (auto simp: apply_context_knobs_def Let_def then_do_Inr_iff)
  show c: "uint (cp_n_ctx q) = max 1 (so_n_ctx o')" and b: "uint (cp_n_batch q) = max 1 (min (so_n_ctx o') (so_n_batch o'))"
    using uint_small r by (simp_all only: q(1,2))
  show "cp_n_ubatch q \<le> cp_n_batch q" "cp_n_ubatch q \<le> cp_n_ubatch p" by (simp_all add: q(3))
  show "cp_n_batch q \<le> cp_n_ctx q" unfolding word_le_def b c by linarith
  show "cp_n_threads q = (if 0 < so_n_threads o' then so_n_threads o' else cp_n_threads p)" by (rule q(4))
qed

definition demo_params :: context_params where
  "demo_params = \<lparr> cp_n_ctx = 512, cp_n_batch = 2048, cp_n_ubatch = 512, cp_n_threads = 4, cp_n_threads_batch = 4,
     cp_flash_attn = Flash_auto, cp_type_k = Type_f16, cp_type_v = Type_f16, cp_no_perf = True \<rparr>"

abbreviation small_context :: server_options where
  "small_context \<equiv> sap_options (parse_server_args file_json (\<lambda>s. None) (\<lambda>p. None) [''-m'', ''a'', ''-c'', ''100''])"

lemma demo_knobs: "\<not> isl (apply_context_knobs small_context demo_params)"
  by code_simp

lemma demo_n_ctx: "so_n_ctx small_context = 100 \<and> so_n_batch small_context = 2048"
  by code_simp

theorem context_parameters_fit_witness:
  "\<exists>q. apply_context_knobs small_context demo_params = Inr q \<and> uint (cp_n_ctx q) = 100 \<and> uint (cp_n_batch q) = 100 \<and>
     cp_n_ubatch q \<le> cp_n_batch q"
proof -
  obtain q where q: "apply_context_knobs small_context demo_params = Inr q" using demo_knobs by (metis sum.collapse(2))
  from context_parameters_fit [OF refl q] q demo_n_ctx show ?thesis by auto
qed

section \<open>Directories\<close>

lemma path_join_not_empty: "q \<noteq> [] \<Longrightarrow> path_join p q \<noteq> []"
  by (simp add: path_join_def)

lemma sessions_dir_not_empty: "sessions_dir d \<noteq> []"
  by (simp add: sessions_dir_def k_fallback_session_dir_def path_join_not_empty)

lemma resolved_dirs_not_empty:
  "so_session_dir (resolve_session_dirs env o') \<noteq> []" "so_kv_dir (resolve_session_dirs env o') \<noteq> []"
  by (auto simp: resolve_session_dirs_def default_session_dirs_def sessions_dir_not_empty)

text \<open>A directory that was given keeps conversations and KV files together; without a home both are under /tmp.\<close>

lemma given_dir_holds_both:
  "so_kv_dir o' = [] \<Longrightarrow> so_session_dir o' \<noteq> [] \<Longrightarrow>
   so_session_dir (resolve_session_dirs env o') = so_session_dir o' \<and>
   so_kv_dir (resolve_session_dirs env o') = so_session_dir o'"
  by (simp add: resolve_session_dirs_def default_session_dirs_def)

lemma no_home_uses_tmp:
  "(\<And>v. env v = None) \<Longrightarrow> default_session_dirs env [] = (k_fallback_session_dir, k_fallback_session_dir)"
  by (simp add: default_session_dirs_def callisto_user_dir_def base_dir_def sessions_dir_def)

lemma resolved_same:
  "config_of (resolve_session_dirs env o') = config_of o'" "so_n_ctx (resolve_session_dirs env o') = so_n_ctx o'"
  "so_session_memory_bytes (resolve_session_dirs env o') = so_session_memory_bytes o'"
  by (simp_all add: resolve_session_dirs_def config_of_def split: prod.splits)

section \<open>The engine at its start\<close>

lemma make_context_keeps:
  assumes "make_context api ld o' m e = Inr e'"
  shows "\<exists>p c. ld_context ld m p = Some c \<and> ctx e' = Some c \<and> smpl e' \<noteq> None \<and> active_tokens e' = active_tokens e \<and>
    active_session_id e' = active_session_id e \<and> memory e' = memory e \<and> store e' = store e \<and> config e' = config e"
proof -
  from assms obtain p c where c: "ld_context ld m p = Some c"
    and r: "rebuild_sampler api (e\<lparr> ctx := Some c \<rparr>) (so_temperature o') = Inr e'"
    by (auto simp: make_context_def split: option.splits sum.splits)
  from rebuild_sampler_keeps [OF r] c show ?thesis by auto
qed

lemma load_engine_keeps:
  assumes "load_engine api ld mc o' e = Inr (e', t)"
  shows "\<exists>m p c. ld_context ld m p = Some c \<and> ctx e' = Some c \<and> smpl e' \<noteq> None \<and> active_tokens e' = active_tokens e \<and>
    active_session_id e' = active_session_id e \<and> memory e' = memory e \<and> store e' = store e \<and> config e' = config e"
proof -
  from assms obtain m where m: "ld_model ld (so_model_path o') (so_n_gpu_layers o') = Some m"
    by (auto simp: load_engine_def split: option.splits)
  from assms m obtain src where "read_template mc (so_template_path o') = Inr src"
    by (auto simp: load_engine_def then_do_Inr_iff)
  with assms m obtain b where r: "make_context api ld o' m b = Inr e'"
    and b: "active_tokens b = active_tokens e" "active_session_id b = active_session_id e"
      "memory b = memory e" "store b = store e" "config b = config e"
    by (fastforce simp: load_engine_def Let_def then_do_Inr_iff split: sum.splits)
  from make_context_keeps [OF r] b show ?thesis by auto
qed

lemma fresh_engine_ok:
  assumes "good_files fi (mc_kv_files mc dir)"
  shows "parked_ok ri fi (fresh_engine mc o' ((mc_kv_files mc dir)\<lparr> opened := True \<rparr>))"
  using assms by (simp add: parked_ok_def good_memory_def good_files_def fresh_engine_def session_memory_new_def
      memory_keys_def memory_find_def find_entry_def kv_files_def file_at_def)

lemma created_engine:
  fixes e :: "('c, 's) engine"
  assumes "create api ld mc o' = Inr (e, t)" and "\<And>m p c. ld_context ld m p = Some c \<Longrightarrow> cells c = []"
    and "\<And>dir. good_files fi (mc_kv_files mc dir)"
  shows "engine_ok cells ri fi e" and "mem_budget (memory e)" and "0 < so_n_ctx o'"
    and "ctx e \<noteq> None" "smpl e \<noteq> None" "active_session_id e = []" "active_tokens e = []"
    "memory e = session_memory_new (so_session_memory_bytes o')" "config e = config_of o'"
proof -
  let ?o = "resolve_session_dirs (mc_env mc) o'"
  show "0 < so_n_ctx o'" using assms(1) by (simp add: create_def split: if_splits)
  let ?f = "fresh_engine mc ?o ((mc_kv_files mc (so_kv_dir ?o))\<lparr> opened := True \<rparr>) :: ('c, 's) engine"
  from assms(1) have l: "load_engine api ld mc ?o (trim_session_disk ?f) = Inr (e, t)"
    by (auto simp: create_def kv_store_open_def Let_def split: if_splits option.splits)
  have pk: "parked_ok ri fi (trim_session_disk ?f)" by (rule parked_ok_trimmed [OF fresh_engine_ok [OF assms(3)]])
  have f: "live_part (trim_session_disk ?f) = live_part ?f" using trim_session_disk_parks [of ?f] by (simp add: only_parks_def)
  from load_engine_keeps [OF l] obtain m p c where k: "ld_context ld m p = Some c" "ctx e = Some c" "smpl e \<noteq> None"
    "active_tokens e = active_tokens (trim_session_disk ?f)" "active_session_id e = active_session_id (trim_session_disk ?f)"
    "memory e = memory (trim_session_disk ?f)" "store e = store (trim_session_disk ?f)"
    "config e = config (trim_session_disk ?f)" by blast
  show "ctx e \<noteq> None" "smpl e \<noteq> None" by (simp_all add: k)
  show s: "active_session_id e = []" "active_tokens e = []" "config e = config_of o'"
    using f k by (simp_all add: live_part_def fresh_engine_def resolved_same)
  show m: "memory e = session_memory_new (so_session_memory_bytes o')"
    using k by (simp add: fresh_engine_def resolved_same)
  then show "mem_budget (memory e)" using new_memory_ok by (simp add: mem_budget_def session_memory_new_def held_total_def)
  show "engine_ok cells ri fi e"
    using pk k assms(2) s(2) by (simp add: engine_ok_def live_ok_def parked_ok_def)
qed

text \<open>
  C27. An engine that starts has a context, a sampler, no live session and nothing parked in RAM, and
  whatever sessions are then switched, cloned, released, flushed or reset, in any order and with any
  disk and allocation failures, its context holds exactly the tokens it believes in and the sessions
  in RAM stay within the configured number of bytes. The context that llama.cpp makes is empty, and
  the files found at the start are images of sequences.
\<close>

theorem started_engine_works:
  assumes "create api ld mc o' = Inr (e, t)" and "contracts api cells ri fi"
    and "\<And>m p c. ld_context ld m p = Some c \<Longrightarrow> cells c = []" and "\<And>dir. good_files fi (mc_kv_files mc dir)"
  shows "0 < so_n_ctx o' \<and> ctx e \<noteq> None \<and> smpl e \<noteq> None \<and> active_session_id e = [] \<and>
    active_tokens e = [] \<and> entries (memory e) = [] \<and> config e = config_of o' \<and>
    engine_ok cells ri fi (fold (run_op api) xs e) \<and>
    used_bytes (memory (fold (run_op api) xs e)) \<le> limit_bytes (memory (fold (run_op api) xs e))"
proof (intro conjI)
  note made = created_engine [of api ld mc o' e t cells fi, OF assms(1,3,4)]
  show "0 < so_n_ctx o'" by (rule made(3))
  show "ctx e \<noteq> None" by (rule made(4))
  show "smpl e \<noteq> None" by (rule made(5))
  show "active_session_id e = []" by (rule made(6))
  show "active_tokens e = []" by (rule made(7))
  show "config e = config_of o'" by (rule made(9))
  show "entries (memory e) = []" using made(8) by (simp add: session_memory_new_def)
  note run = run_ops_ok [OF assms(2) made(1,2)]
  show "engine_ok cells ri fi (fold (run_op api) xs e)" by (rule run(1))
  show "used_bytes (memory (fold (run_op api) xs e)) \<le> limit_bytes (memory (fold (run_op api) xs e))"
    by (rule mem_budget_used [OF run(2)])
qed

definition demo_loader :: "(unit, token list, unit) loader" where
  "demo_loader = \<lparr> ld_model = (\<lambda>path n. Some ()), ld_is_hybrid = (\<lambda>m. False), ld_is_recurrent = (\<lambda>m. False),
     ld_chat_template = (\<lambda>m. None), ld_templates = (\<lambda>m source. Inr ()), ld_default_params = demo_params,
     ld_context = (\<lambda>m p. Some []) \<rparr>"

definition demo_machine :: machine where
  "demo_machine = \<lparr> mc_env = (\<lambda>v. None), mc_create_directories = (\<lambda>dir. None),
     mc_kv_files = (\<lambda>dir. empty_store []), mc_read_file = (\<lambda>path. None), mc_alloc_fails = [] \<rparr>"

lemma demo_create: "\<not> isl (create (list_cache 8 4 0) demo_loader demo_machine default_options)"
  by code_simp

theorem started_engine_works_witness:
  "\<exists>e. create (list_cache 8 4 0) demo_loader demo_machine default_options = Inr (e, ()) \<and>
     active_session_id e = [] \<and>
     used_bytes (memory (fold (run_op (list_cache 8 4 0)) [Op_activate ''b''] e))
       \<le> limit_bytes (memory (fold (run_op (list_cache 8 4 0)) [Op_activate ''b''] e))"
proof -
  obtain e where e: "create (list_cache 8 4 0) demo_loader demo_machine default_options = Inr (e, ())"
    using demo_create
    by (cases "create (list_cache 8 4 0) demo_loader demo_machine default_options") auto
  have ctx: "cells = []" if "ld_context demo_loader m p = Some cells" for m p cells
    using that by (simp add: demo_loader_def)
  have files: "good_files fi (mc_kv_files demo_machine dir)" for fi dir
    by (simp add: good_files_def demo_machine_def empty_store_def kv_files_def file_at_def)
  let ?run = "fold (run_op (list_cache 8 4 0)) [Op_activate ''b''] e"
  have "active_session_id e = [] \<and> used_bytes (memory ?run) \<le> limit_bytes (memory ?run)"
    using started_engine_works [where xs = "[Op_activate ''b'']", OF e demo_contracts] ctx files by blast
  with e show ?thesis by blast
qed

end
