(* ===== verification/Tool_Edit.thy ===== *)
theory Tool_Edit
  imports Json_Api Text_Scan Decimal
begin

text \<open>
  \<open>src/common/tools/tool_edit_file.cpp\<close>: a file is changed by a unified diff. The patch is parsed into
  hunks, each hunk is found in the file by its context lines, and the changed part of each becomes a
  span; the spans replace their lines from the last to the first, the file is written through a
  temporary file, and the answer is the diff of what was done. A position in a line is the rest of the
  line from it.

  The numbers of a hunk header are added up in an \<open>int\<close> without a check; a value that does not fit is
  undefined behaviour and the outcome \<open>Undefined\<close> here.
\<close>

section \<open>Lines\<close>

text \<open>\<open>split_lines\<close> and the loop of \<open>patch_lines\<close>.\<close>

function lines_of :: "string \<Rightarrow> string list" where
  "lines_of s =
     (if s = [] then []
      else case cut_at [nl] s of None \<Rightarrow> [s] | Some (line, rest) \<Rightarrow> line # lines_of rest)"
  by pat_completeness auto
termination
  by (relation "measure length") (auto dest: cut_at_shorter)

declare lines_of.simps [simp del]

definition ends_with_newline :: "string \<Rightarrow> bool" where
  "ends_with_newline s \<longleftrightarrow> s \<noteq> [] \<and> last s = nl"

definition join_lines :: "string list \<Rightarrow> bool \<Rightarrow> string" where
  "join_lines lines trailing_newline =
     (case lines of
        [] \<Rightarrow> []
      | l # ls \<Rightarrow> l @ concat (map (\<lambda>x. nl # x) ls) @ (if trailing_newline then [nl] else []))"

definition drop_cr :: "string \<Rightarrow> string" where
  "drop_cr line = (if line \<noteq> [] \<and> last line = CHR 0x0D then butlast line else line)"

definition patch_lines :: "string \<Rightarrow> string list" where
  "patch_lines patch = map drop_cr (lines_of patch)"

section \<open>Parsing a patch\<close>

datatype edit_error = Says string | Undefined

datatype header_error = Malformed | Overflow

definition read_int :: "string \<Rightarrow> header_error + nat \<times> string" where
  "read_int s =
     (let ds = takeWhile is_digit_char s in
      if ds = [] then Inl Malformed
      else if (2147483648 :: int) \<le> int (digits_value 0 ds) then Inl Overflow
      else Inr (digits_value 0 ds, dropWhile is_digit_char s))"

definition read_count :: "string \<Rightarrow> header_error + nat \<times> string" where
  "read_count s = (if s \<noteq> [] \<and> hd s = CHR '','' then read_int (tl s) else Inr (1, s))"

definition parse_hunk_header :: "string \<Rightarrow> header_error + nat \<times> nat" where
  "parse_hunk_header line =
     (let s = dropWhile (\<lambda>c. c = CHR '' '') (drop 2 line) in
      if \<not> prefix ''@@'' line \<or> s = [] \<or> hd s \<noteq> CHR ''-'' then Inl Malformed
      else then_do (read_int (tl s)) (\<lambda>(old_start, s).
           then_do (read_count s) (\<lambda>(old_count, s).
             if \<not> prefix '' +'' s then Inl Malformed
             else then_do (read_int (drop 2 s)) (\<lambda>(new_start, s).
                  then_do (read_count s) (\<lambda>_. Inr (old_start, old_count))))))"

definition header_path :: "string \<Rightarrow> string" where
  "header_path line =
     (let line = (if prefix ''--- '' line \<or> prefix ''+++ '' line then drop 4 line else line);
          line = takeWhile (\<lambda>c. c \<noteq> CHR 0x09) line
      in if 2 \<le> length line \<and> hd line = CHR 0x22 \<and> last line = CHR 0x22 then butlast (tl line) else line)"

definition path_filename :: "string \<Rightarrow> string" where
  "path_filename p = rev (takeWhile (\<lambda>c. c \<noteq> CHR ''/'') (rev p))"

definition same_target :: "string \<Rightarrow> string \<Rightarrow> bool" where
  "same_target path header =
     (let header = (if prefix ''a/'' header \<or> prefix ''b/'' header then drop 2 header else header) in
      if header = [] \<or> header = ''/dev/null'' then False
      else path = header \<or> suffix (CHR ''/'' # header) path \<or>
           (CHR ''/'' \<notin> set header \<and> path_filename path = header))"

type_synonym patch_line = "char \<times> string"

record hunk =
  h_number :: nat
  h_old_start :: nat
  h_old_count :: nat
  h_lines :: "patch_line list"

definition pure_insert :: "hunk \<Rightarrow> bool" where
  "pure_insert h \<longleftrightarrow> h_old_count h = 0"

text \<open>\<open>ps_current\<close> is the hunk that is being read (\<open>in_hunk\<close>).\<close>

record patch_state =
  ps_current :: "hunk option"
  ps_hunks :: "hunk list"
  ps_old_null :: bool
  ps_new_null :: bool
  ps_git_headers :: nat
  ps_new_headers :: nat
  ps_plus_path :: string

definition patch_start :: patch_state where
  "patch_start = \<lparr> ps_current = None, ps_hunks = [], ps_old_null = False, ps_new_null = False,
     ps_git_headers = 0, ps_new_headers = 0, ps_plus_path = [] \<rparr>"

definition close_hunk :: "patch_state \<Rightarrow> edit_error + patch_state" where
  "close_hunk st =
     (case ps_current st of
        None \<Rightarrow> Inr st
      | Some h \<Rightarrow>
          if h_lines h = [] then Inl (Says (''error: hunk '' @ decimal (h_number h) @ '' is empty''))
          else Inr (st\<lparr> ps_current := None, ps_hunks := ps_hunks st @ [h] \<rparr>))"

definition open_hunk :: "string \<Rightarrow> patch_state \<Rightarrow> edit_error + patch_state" where
  "open_hunk line st =
     (case parse_hunk_header line of
        Inl Malformed \<Rightarrow> Inl (Says (''error: malformed hunk header: '' @ line))
      | Inl Overflow \<Rightarrow> Inl Undefined
      | Inr (old_start, old_count) \<Rightarrow>
          Inr (st\<lparr> ps_current := Some \<lparr> h_number = length (ps_hunks st) + 1, h_old_start = old_start,
                     h_old_count = old_count, h_lines = [] \<rparr> \<rparr>))"

definition is_header_line :: "string \<Rightarrow> bool" where
  "is_header_line line \<longleftrightarrow> prefix ''diff --git '' line \<or> prefix ''--- '' line \<or> prefix ''+++ '' line"

definition hunk_line :: "string \<Rightarrow> hunk \<Rightarrow> patch_state \<Rightarrow> edit_error + patch_state" where
  "hunk_line line h st =
     (if line = [] \<or> hd line = CHR 0x5C then Inr st
      else if hd line \<noteq> CHR '' '' \<and> hd line \<noteq> CHR ''+'' \<and> hd line \<noteq> CHR ''-''
      then Inl (Says (''error: hunk '' @ decimal (h_number h) @
                      '' has a line that does not start with a space, + or -: '' @ take 80 line))
      else Inr (st\<lparr> ps_current := Some (h\<lparr> h_lines := h_lines h @ [(hd line, tl line)] \<rparr>) \<rparr>))"

definition header_line :: "string \<Rightarrow> patch_state \<Rightarrow> edit_error + patch_state" where
  "header_line line st =
     (let st = (if prefix ''diff --git '' line then st\<lparr> ps_git_headers := ps_git_headers st + 1 \<rparr> else st) in
      if prefix ''diff --git '' line \<and> 1 < ps_git_headers st
      then Inl (Says ''error: a patch must change one file'')
      else if prefix ''--- '' line
      then Inr (if header_path line = ''/dev/null'' then st\<lparr> ps_old_null := True \<rparr> else st)
      else if prefix ''+++ '' line
      then (let st = st\<lparr> ps_new_headers := ps_new_headers st + 1 \<rparr> in
            if 1 < ps_new_headers st then Inl (Says ''error: a patch must change one file'')
            else Inr (let st = st\<lparr> ps_plus_path := header_path line \<rparr> in
                      if ps_plus_path st = ''/dev/null'' then st\<lparr> ps_new_null := True \<rparr> else st))
      else Inr st)"

definition patch_step :: "patch_state \<Rightarrow> string \<Rightarrow> edit_error + patch_state" where
  "patch_step st line =
     (if prefix ''@@'' line then then_do (close_hunk st) (open_hunk line)
      else then_do (if is_header_line line then close_hunk st else Inr st) (\<lambda>st.
             case ps_current st of Some h \<Rightarrow> hunk_line line h st | None \<Rightarrow> header_line line st))"

text \<open>The hunks, and whether the patch makes a new file.\<close>

definition parse_patch :: "string \<Rightarrow> string \<Rightarrow> edit_error + hunk list \<times> bool" where
  "parse_patch patch path =
     then_do (fold_err patch_step patch_start (patch_lines patch)) (\<lambda>st.
     then_do (close_hunk st) (\<lambda>st.
       if ps_hunks st = [] then Inl (Says ''error: patch has no hunks'')
       else if ps_new_null st then Inl (Says ''error: patch deletes a file; edit_file only changes lines'')
       else if ps_plus_path st \<noteq> [] \<and> \<not> same_target path (ps_plus_path st)
       then Inl (Says (''error: patch is for '' @ ps_plus_path st @ '', not '' @ path))
       else Inr (ps_hunks st, ps_old_null st)))"

section \<open>Finding a hunk\<close>

definition is_kept :: "patch_line \<Rightarrow> bool" where
  "is_kept pl \<longleftrightarrow> fst pl = CHR '' ''"

definition is_old :: "patch_line \<Rightarrow> bool" where
  "is_old pl \<longleftrightarrow> fst pl = CHR '' '' \<or> fst pl = CHR ''-''"

definition is_new :: "patch_line \<Rightarrow> bool" where
  "is_new pl \<longleftrightarrow> fst pl = CHR '' '' \<or> fst pl = CHR ''+''"

definition old_side :: "patch_line list \<Rightarrow> string list" where
  "old_side pls = map snd (filter is_old pls)"

definition new_side :: "patch_line list \<Rightarrow> string list" where
  "new_side pls = map snd (filter is_new pls)"

definition lines_match :: "string list \<Rightarrow> nat \<Rightarrow> string list \<Rightarrow> bool" where
  "lines_match lines pos old \<longleftrightarrow> pos + length old \<le> length lines \<and> take (length old) (drop pos lines) = old"

text \<open>The best place so far with its distance from the hint, and how many places are as near.\<close>

definition locate_step ::
  "string list \<Rightarrow> string list \<Rightarrow> int \<Rightarrow> (nat \<times> int) option \<times> nat \<Rightarrow> nat \<Rightarrow> (nat \<times> int) option \<times> nat" where
  "locate_step lines old hint best pos =
     (let distance = \<bar>int pos - hint\<bar> in
      if \<not> lines_match lines pos old then best
      else case fst best of
             None \<Rightarrow> (Some (pos, distance), 1)
           | Some (_, best_distance) \<Rightarrow>
               if distance < best_distance then (Some (pos, distance), 1)
               else if distance = best_distance then (fst best, snd best + 1)
               else best)"

datatype place = At nat | Nowhere | Ambiguous

definition locate_hunk :: "string list \<Rightarrow> string list \<Rightarrow> int \<Rightarrow> place" where
  "locate_hunk lines old hint =
     (let best = foldl (locate_step lines old hint) (None, 0) [0..<length lines + 1 - length old] in
      if 1 < snd best then Ambiguous
      else case fst best of None \<Rightarrow> Nowhere | Some (pos, _) \<Rightarrow> At pos)"

section \<open>Spans\<close>

record span =
  sp_from :: nat
  sp_len :: nat
  sp_new :: "string list"

definition ranges_overlap :: "nat \<Rightarrow> nat \<Rightarrow> nat \<Rightarrow> nat \<Rightarrow> bool" where
  "ranges_overlap left left_len right right_len =
     (if left_len = 0 \<and> right_len = 0 then left = right
      else if left_len = 0 then right \<le> left \<and> left < right + right_len
      else if right_len = 0 then left \<le> right \<and> right < left + left_len
      else left < right + right_len \<and> right < left + left_len)"

text \<open>The lines of a hunk between the context at its two ends.\<close>

definition hunk_core :: "patch_line list \<Rightarrow> patch_line list" where
  "hunk_core pls = rev (dropWhile is_kept (rev (dropWhile is_kept pls)))"

definition span_of :: "string list \<Rightarrow> string \<Rightarrow> hunk \<Rightarrow> edit_error + span" where
  "span_of lines path h =
     (let old = old_side (h_lines h);
          core = hunk_core (h_lines h);
          here = ''error: hunk '' @ decimal (h_number h)
      in if old = []
         then if \<not> pure_insert h
              then Inl (Says (here @ '' has no context; include a few unchanged lines around the change''))
              else if length lines < h_old_start h
              then Inl (Says (here @ '' inserts at line '' @ decimal (h_old_start h) @ '', past the end of '' @
                              path @ '' ('' @ decimal (length lines) @ '' lines)''))
              else Inr \<lparr> sp_from = h_old_start h, sp_len = 0, sp_new = new_side (h_lines h) \<rparr>
         else case locate_hunk lines old (int (h_old_start h) - 1) of
                Ambiguous \<Rightarrow> Inl (Says (here @ '' matches more than one place in '' @ path @
                                        ''; add a few unchanged lines''))
              | Nowhere \<Rightarrow> Inl (Says (here @ '' did not match '' @ path))
              | At pos \<Rightarrow> Inr \<lparr> sp_from = pos + length (takeWhile is_kept (h_lines h)),
                               sp_len = length (old_side core), sp_new = new_side core \<rparr>)"

definition add_span :: "string list \<Rightarrow> string \<Rightarrow> span list \<Rightarrow> hunk \<Rightarrow> edit_error + span list" where
  "add_span lines path spans h =
     then_do (span_of lines path h) (\<lambda>sp.
       if sp_len sp = 0 \<and> sp_new sp = [] then Inr spans
       else if list_ex (\<lambda>e. ranges_overlap (sp_from e) (sp_len e) (sp_from sp) (sp_len sp)) spans
       then Inl (Says (''error: hunk '' @ decimal (h_number h) @ '' overlaps an earlier hunk''))
       else Inr (spans @ [sp]))"

text \<open>No two spans start at the same line, so every sort gives this order.\<close>

definition by_from :: "span list \<Rightarrow> span list" where
  "by_from spans = sort_key sp_from spans"

definition replace_span :: "span \<Rightarrow> string list \<Rightarrow> string list" where
  "replace_span sp lines = take (sp_from sp) lines @ sp_new sp @ drop (sp_from sp + sp_len sp) lines"

definition apply_spans :: "span list \<Rightarrow> string list \<Rightarrow> string list" where
  "apply_spans spans lines = fold replace_span (rev (by_from spans)) lines"

section \<open>The diff of an edit\<close>

definition k_max_output :: nat where
  "k_max_output = 8000"

definition diff_line :: "char \<Rightarrow> string \<Rightarrow> string" where
  "diff_line mark line = mark # line @ [nl]"

definition lines_between :: "nat \<Rightarrow> nat \<Rightarrow> 'a list \<Rightarrow> 'a list" where
  "lines_between from to xs = drop from (take to xs)"

text \<open>One hunk of the answer: the end of the span before, and the start of the span after it.\<close>

definition diff_hunk :: "string list \<Rightarrow> nat \<Rightarrow> nat \<Rightarrow> span \<Rightarrow> string" where
  "diff_hunk lines prev_end next_from sp =
     (let from = sp_from sp; to = from + sp_len sp;
          lo = max prev_end (from - 3); hi = min next_from (to + 3);
          old_count = hi - lo; new_count = (from - lo) + length (sp_new sp) + (hi - to);
          old_start = (if old_count = 0 then from else lo + 1);
          new_start = (if new_count = 0 then from else lo + 1)
      in ''@@ -'' @ decimal old_start @ '','' @ decimal old_count @ '' +'' @
           decimal new_start @ '','' @ decimal new_count @ '' @@'' @ [nl] @
         concat (map (diff_line CHR '' '') (lines_between lo from lines)) @
         concat (map (diff_line CHR ''-'') (lines_between from to lines)) @
         concat (map (diff_line CHR ''+'') (sp_new sp)) @
         concat (map (diff_line CHR '' '') (lines_between to hi lines)))"

fun diff_hunks :: "string list \<Rightarrow> nat \<Rightarrow> span list \<Rightarrow> string" where
  "diff_hunks lines prev_end [] = []"
| "diff_hunks lines prev_end (sp # sps) =
     diff_hunk lines prev_end (case sps of [] \<Rightarrow> length lines | next # _ \<Rightarrow> sp_from next) sp @
     diff_hunks lines (sp_from sp + sp_len sp) sps"

definition full_diff :: "string \<Rightarrow> string list \<Rightarrow> span list \<Rightarrow> bool \<Rightarrow> string" where
  "full_diff path lines spans created =
     ''--- '' @ (if created then ''/dev/null'' else path) @ [nl] @ ''+++ '' @ path @ [nl] @
     diff_hunks lines 0 (by_from spans)"

definition format_diff :: "string \<Rightarrow> string list \<Rightarrow> span list \<Rightarrow> bool \<Rightarrow> string" where
  "format_diff path lines spans created =
     (let out = full_diff path lines spans created in
      if k_max_output < length out then take k_max_output out @ [nl] @ ''... [diff truncated]'' else out)"

section \<open>Writing\<close>

text \<open>How the file system takes the write; an exception carries its message.\<close>

datatype write_outcome = Throws_early string | Open_fails | Write_fails | Rename_fails string | Write_ok

type_synonym file_map = "string \<Rightarrow> string option"

definition tmp_of :: "string \<Rightarrow> string" where
  "tmp_of path = path @ ''.agents-tmp''"

text \<open>\<open>write_atomic\<close> and the handler of its exceptions.\<close>

definition write_atomic :: "write_outcome \<Rightarrow> string \<Rightarrow> string \<Rightarrow> file_map \<Rightarrow> (string + unit) \<times> file_map" where
  "write_atomic outcome path content fs =
     (case outcome of
        Throws_early what \<Rightarrow> (Inl (''error writing file: '' @ what), fs)
      | Open_fails \<Rightarrow> (Inl (''error: failed to open file for writing: '' @ path), fs)
      | Write_fails \<Rightarrow> (Inl (''error: failed to write file: '' @ path), fs(tmp_of path := None))
      | Rename_fails what \<Rightarrow> (Inl (''error writing file: '' @ what), fs(tmp_of path \<mapsto> content))
      | Write_ok \<Rightarrow> (Inr (), fs(tmp_of path := None, path \<mapsto> content)))"

section \<open>Editing\<close>

definition additions_only :: "hunk list \<Rightarrow> bool" where
  "additions_only hunks \<longleftrightarrow>
     hunks \<noteq> [] \<and> list_all (\<lambda>h. list_all (\<lambda>pl. fst pl = CHR ''+'') (h_lines h)) hunks"

definition new_file_lines :: "hunk list \<Rightarrow> string list" where
  "new_file_lines hunks = concat (map (\<lambda>h. map snd (h_lines h)) hunks)"

text \<open>The text of the answer and the files afterwards.\<close>

definition create_file ::
  "write_outcome \<Rightarrow> string \<Rightarrow> hunk list \<Rightarrow> file_map \<Rightarrow> (edit_error + string) \<times> file_map" where
  "create_file outcome path hunks fs =
     (if \<not> additions_only hunks
      then (Inl (Says (''error: '' @ path @ '' does not exist; a new file patch contains only + lines'')), fs)
      else let lines = new_file_lines hunks in
           case write_atomic outcome path (join_lines lines (lines \<noteq> [])) fs of
             (Inl err, fs) \<Rightarrow> (Inl (Says err), fs)
           | (Inr _, fs) \<Rightarrow>
               (Inr (format_diff path [] [\<lparr> sp_from = 0, sp_len = 0, sp_new = lines \<rparr>] True), fs))"

definition updated_text :: "string \<Rightarrow> span list \<Rightarrow> string" where
  "updated_text original spans =
     (let updated = apply_spans spans (lines_of original) in
      join_lines updated (ends_with_newline original \<or> (original = [] \<and> updated \<noteq> [])))"

definition change_file ::
  "write_outcome \<Rightarrow> string \<Rightarrow> string \<Rightarrow> hunk list \<Rightarrow> file_map \<Rightarrow> (edit_error + string) \<times> file_map" where
  "change_file outcome path original hunks fs =
     (case fold_err (add_span (lines_of original) path) [] hunks of
        Inl err \<Rightarrow> (Inl err, fs)
      | Inr spans \<Rightarrow>
          if updated_text original spans = original then (Inl (Says ''error: patch does not change the file''), fs)
          else case write_atomic outcome path (updated_text original spans) fs of
                 (Inl err, fs) \<Rightarrow> (Inl (Says err), fs)
               | (Inr _, fs) \<Rightarrow> (Inr (format_diff path (lines_of original) spans False), fs))"

definition quoted :: "string \<Rightarrow> string" where
  "quoted s = CHR 0x27 # s @ [CHR 0x27]"

text \<open>\<open>readable\<close>: whether the file that is there could be read.\<close>

definition edit_patch ::
  "bool \<Rightarrow> write_outcome \<Rightarrow> string \<Rightarrow> string \<Rightarrow> file_map \<Rightarrow> (edit_error + string) \<times> file_map" where
  "edit_patch readable outcome path patch fs =
     (case parse_patch patch path of
        Inl err \<Rightarrow> (Inl err, fs)
      | Inr (hunks, new_file) \<Rightarrow>
          (case fs path of
             None \<Rightarrow> create_file outcome path hunks fs
           | Some original \<Rightarrow>
               if \<not> readable then (Inl (Says (''error: failed to read file '' @ quoted path)), fs)
               else if new_file
               then (Inl (Says (''error: '' @ path @ '' already exists; match its current lines'')), fs)
               else change_file outcome path original hunks fs))"

definition edit_file ::
  "('j, 'z) json_api_scheme \<Rightarrow> bool \<Rightarrow> write_outcome \<Rightarrow> 'j \<Rightarrow> file_map \<Rightarrow> (edit_error + string) \<times> file_map" where
  "edit_file js readable outcome args fs =
     (case Option.bind (j_get js ''path'' args) (j_string_of js) of
        None \<Rightarrow> (Inl (Says (''error: missing required string argument '' @ quoted ''path'')), fs)
      | Some path \<Rightarrow>
          (case Option.bind (j_get js ''patch'' args) (j_string_of js) of
             None \<Rightarrow> (Inl (Says (''error: missing required string argument '' @ quoted ''patch'')), fs)
           | Some patch \<Rightarrow> edit_patch readable outcome path patch fs))"

end
