(* ===== verification/Tool_Edit_Proofs.thy ===== *)
theory Tool_Edit_Proofs
  imports Tool_Edit
begin

text \<open>
  Editing by a patch: lines come apart and together again, a hunk is put at the nearest place that
  matches, the spans replace their lines and leave every other line as it was, and a refused patch
  changes no file.
\<close>

section \<open>Lines\<close>

lemma sfind_newline: "sfind [nl] s = None \<longleftrightarrow> nl \<notin> set s"
  unfolding sfind_None_iff by (metis append_Cons append_Nil in_set_conv_decomp)

lemma cut_line: "nl \<notin> set line \<Longrightarrow> cut_at [nl] (line @ nl # rest) = Some (line, rest)"
  using cut_at_put [of nl "[]" line rest] by (simp add: sfind_newline)

lemma cut_line_None: "cut_at [nl] s = None \<longleftrightarrow> nl \<notin> set s"
  by (simp add: cut_at_def sfind_newline [symmetric] split: option.splits)

lemma lines_of_simps [simp]:
  "lines_of [] = []"
  "nl \<notin> set line \<Longrightarrow> lines_of (line @ nl # rest) = line # lines_of rest"
  by (simp_all add: lines_of.simps [of "[]"] lines_of.simps [of "line @ nl # rest"] cut_line)

lemma lines_of_last: "nl \<notin> set line \<Longrightarrow> line \<noteq> [] \<Longrightarrow> lines_of line = [line]"
  by (subst lines_of.simps) (simp add: cut_line_None [THEN iffD2])

lemma lines_cases:
  obtains (empty) "s = []" | (one) "s \<noteq> []" "nl \<notin> set s" "lines_of s = [s]"
    | (more) line rest where "nl \<notin> set line" "s = line @ nl # rest" "lines_of s = line # lines_of rest"
proof (cases "nl \<in> set s")
  case True
  then obtain line rest where "s = line @ nl # rest" "nl \<notin> set line" by (meson split_list_first)
  with more show ?thesis by simp
next
  case False
  with empty one lines_of_last show ?thesis by (cases "s = []") auto
qed

lemma line_clean: "line \<in> set (lines_of s) \<Longrightarrow> nl \<notin> set line"
proof (induction "length s" arbitrary: s rule: less_induct)
  case less
  show ?case
  proof (cases s rule: lines_cases)
    case (more l rest)
    with less.prems less.hyps [of rest] show ?thesis by auto
  qed (use less.prems in auto)
qed

lemma lines_of_written: "list_all (\<lambda>l. nl \<notin> set l) ls \<Longrightarrow> lines_of (concat (map (\<lambda>l. l @ [nl]) ls)) = ls"
  by (induction ls) simp_all

lemma join_lines_Cons:
  "join_lines (l # ls) t = l @ (if ls = [] then (if t then [nl] else []) else nl # join_lines ls t)"
  by (cases ls) (simp_all add: join_lines_def)

text \<open>A file is its lines and whether its last line ends.\<close>

lemma join_lines_of: "join_lines (lines_of s) (ends_with_newline s) = s"
proof (induction "length s" arbitrary: s rule: less_induct)
  case less
  show ?case
  proof (cases s rule: lines_cases)
    case empty
    then show ?thesis by (simp add: join_lines_def)
  next
    case one
    then show ?thesis by (auto simp: join_lines_def ends_with_newline_def dest: last_in_set)
  next
    case (more line rest)
    have r: "join_lines (lines_of rest) (ends_with_newline rest) = rest" using less more by simp
    show ?thesis
    proof (cases "rest = []")
      case True
      with more show ?thesis by (simp add: join_lines_def ends_with_newline_def)
    next
      case False
      then have "lines_of rest \<noteq> []" by (cases rest rule: lines_cases) simp_all
      moreover have "ends_with_newline s = ends_with_newline rest"
        using False more(2) by (simp add: ends_with_newline_def)
      ultimately show ?thesis using more(2,3) r by (simp add: join_lines_Cons)
    qed
  qed
qed

section \<open>Places\<close>

text \<open>After the places below \<open>n\<close>: the best is a match, and the count says how many matches are as near.\<close>

definition best_below ::
  "string list \<Rightarrow> string list \<Rightarrow> int \<Rightarrow> nat \<Rightarrow> (nat \<times> int) option \<times> nat \<Rightarrow> bool" where
  "best_below lines old hint n best \<longleftrightarrow>
     (case fst best of
        None \<Rightarrow> (\<forall>q < n. \<not> lines_match lines q old) \<and> snd best = 0
      | Some (p, d) \<Rightarrow> p < n \<and> lines_match lines p old \<and> d = \<bar>int p - hint\<bar> \<and>
          (\<forall>q < n. lines_match lines q old \<longrightarrow> d \<le> \<bar>int q - hint\<bar>) \<and>
          snd best = card {q. q < n \<and> lines_match lines q old \<and> \<bar>int q - hint\<bar> = d})"

lemma card_below_Suc:
  "card {q. q < Suc n \<and> P q} = card {q. q < n \<and> P q} + (if P n then 1 else 0)"
proof -
  have "{q. q < Suc n \<and> P q} = (if P n then insert n {q. q < n \<and> P q} else {q. q < n \<and> P q})"
    by (auto simp: less_Suc_eq)
  then show ?thesis by simp
qed

lemma best_below_step:
  assumes "best_below lines old hint n best"
  shows "best_below lines old hint (Suc n) (locate_step lines old hint best n)"
proof (cases "fst best")
  case None
  have "{q. q < Suc n \<and> lines_match lines q old \<and> \<bar>int q - hint\<bar> = \<bar>int n - hint\<bar>} = {n}"
    if "lines_match lines n old" using that assms None by (auto simp: best_below_def less_Suc_eq)
  with None assms show ?thesis
    by (cases best) (auto simp: best_below_def locate_step_def Let_def less_Suc_eq)
next
  case (Some pd)
  obtain p d k where b: "best = (Some (p, d), k)" using Some by (cases best; cases pd) simp
  let ?m = "\<lambda>q. lines_match lines q old \<and> \<bar>int q - hint\<bar> = d"
  have k: "card {q. q < Suc n \<and> ?m q} = k + (if ?m n then 1 else 0)"
    using assms card_below_Suc [of n ?m] by (simp add: b best_below_def)
  have near: "{q. q < Suc n \<and> lines_match lines q old \<and> \<bar>int q - hint\<bar> = \<bar>int n - hint\<bar>} = {n}"
    if "lines_match lines n old" "\<bar>int n - hint\<bar> < d"
    using that assms by (auto simp: b best_below_def less_Suc_eq)
  show ?thesis using assms k near by (auto simp: b best_below_def locate_step_def Let_def less_Suc_eq)
qed

lemma best_below_all:
  "best_below lines old hint n (foldl (locate_step lines old hint) (None, 0) [0..<n])"
proof (induction n)
  case (Suc n)
  then show ?case using best_below_step by simp
qed (simp add: best_below_def)

lemma match_bound: "lines_match lines q old \<Longrightarrow> q < length lines + 1 - length old"
  by (simp add: lines_match_def less_diff_conv)

text \<open>A hunk goes to the one match that is nearest to the line it names.\<close>

lemma locate_At:
  "locate_hunk lines old hint = At p \<longleftrightarrow>
   lines_match lines p old \<and> (\<forall>q. lines_match lines q old \<longrightarrow> q \<noteq> p \<longrightarrow> \<bar>int p - hint\<bar> < \<bar>int q - hint\<bar>)"
proof -
  let ?n = "length lines + 1 - length old" and ?m = "\<lambda>q. lines_match lines q old"
  obtain best k where f: "foldl (locate_step lines old hint) (None, 0) [0..<?n] = (best, k)" by fastforce
  have inv: "best_below lines old hint ?n (best, k)" using best_below_all [of lines old hint ?n] f by simp
  show ?thesis
  proof (cases best)
    case None
    with inv have "\<not> ?m q" for q using match_bound by (auto simp: best_below_def)
    with None f inv show ?thesis by (simp add: locate_hunk_def best_below_def)
  next
    case (Some pd)
    then obtain b d where b: "best = Some (b, d)" by (cases pd) simp
    with inv have near: "?m b" "d = \<bar>int b - hint\<bar>" "\<And>q. ?m q \<Longrightarrow> d \<le> \<bar>int q - hint\<bar>"
      and k: "k = card {q. q < ?n \<and> ?m q \<and> \<bar>int q - hint\<bar> = d}"
      using match_bound by (auto simp: best_below_def)
    have mem: "b \<in> {q. q < ?n \<and> ?m q \<and> \<bar>int q - hint\<bar> = d}" using near match_bound by simp
    then have "0 < k" unfolding k by (auto simp: card_gt_0_iff)
    then have one: "\<not> 1 < k \<longleftrightarrow> {q. q < ?n \<and> ?m q \<and> \<bar>int q - hint\<bar> = d} = {b}"
      unfolding k using mem by (metis (no_types, lifting) One_nat_def card_1_singletonE is_singletonI
          is_singleton_altdef less_one linorder_neqE_nat not_less_iff_gr_or_eq singletonD)
    have "?m q \<and> \<bar>int q - hint\<bar> = d \<longleftrightarrow> q \<in> {q. q < ?n \<and> ?m q \<and> \<bar>int q - hint\<bar> = d}" for q
      using match_bound [of lines q old] by blast
    then have "{q. q < ?n \<and> ?m q \<and> \<bar>int q - hint\<bar> = d} = {b} \<longleftrightarrow> (\<forall>q. ?m q \<longrightarrow> \<bar>int q - hint\<bar> = d \<longrightarrow> q = b)"
      using mem by blast
    also have "\<dots> \<longleftrightarrow> (\<forall>q. ?m q \<longrightarrow> q \<noteq> b \<longrightarrow> d < \<bar>int q - hint\<bar>)"
      using near(3) by (metis less_irrefl order_less_le)
    finally have "{q. q < ?n \<and> ?m q \<and> \<bar>int q - hint\<bar> = d} = {b} \<longleftrightarrow>
        (\<forall>q. ?m q \<longrightarrow> q \<noteq> b \<longrightarrow> d < \<bar>int q - hint\<bar>)" .
    with one have "\<not> 1 < k \<longleftrightarrow> (\<forall>q. ?m q \<longrightarrow> q \<noteq> b \<longrightarrow> d < \<bar>int q - hint\<bar>)" by simp
    moreover have "locate_hunk lines old hint = At p \<longleftrightarrow> \<not> 1 < k \<and> p = b"
      using f b by (auto simp: locate_hunk_def)
    ultimately show ?thesis using near by (metis not_less)
  qed
qed

section \<open>Spans\<close>

text \<open>\<open>before a b\<close>: \<open>a\<close> ends before \<open>b\<close>.\<close>

definition before :: "span \<Rightarrow> span \<Rightarrow> bool" where
  "before a b \<longleftrightarrow> sp_from a < sp_from b \<and> sp_from a + sp_len a \<le> sp_from b"

abbreviation overlap :: "span \<Rightarrow> span \<Rightarrow> bool" where
  "overlap a b \<equiv> ranges_overlap (sp_from a) (sp_len a) (sp_from b) (sp_len b)"

lemma overlap_before: "\<not> overlap a b \<longleftrightarrow> before a b \<or> before b a"
  by (auto simp: ranges_overlap_def before_def)

text \<open>The spans of an edit: inside the file, and none overlaps another.\<close>

definition good_spans :: "nat \<Rightarrow> span list \<Rightarrow> bool" where
  "good_spans n spans \<longleftrightarrow> list_all (\<lambda>s. sp_from s + sp_len s \<le> n) spans \<and>
     sorted_wrt (\<lambda>a b. \<not> overlap a b) spans"

lemma sort_before:
  assumes "sorted_wrt (\<lambda>a b. \<not> overlap a b) spans"
  shows "sorted_wrt before (by_from spans)"
proof -
  have sym: "\<not> overlap a b \<longleftrightarrow> \<not> overlap b a" for a b by (auto simp: overlap_before)
  have "sorted_wrt (\<lambda>a b. \<not> overlap a b) (insort_key sp_from s ss)"
    if "sorted_wrt (\<lambda>a b. \<not> overlap a b) ss" "\<forall>x \<in> set ss. \<not> overlap s x" for s and ss :: "span list"
    using that
  proof (induction ss)
    case (Cons t ts)
    then show ?case using sym [of s t] by (simp add: set_insort_key)
  qed simp
  then have "sorted_wrt (\<lambda>a b. \<not> overlap a b) (by_from spans)"
    using assms by (induction spans) (auto simp: by_from_def)
  moreover have "sorted_wrt (\<lambda>a b. sp_from a \<le> sp_from b) (by_from spans)"
    using sorted_sort_key [of sp_from spans] by (simp only: by_from_def sorted_map)
  ultimately have "sorted_wrt (\<lambda>a b. \<not> overlap a b \<and> sp_from a \<le> sp_from b) (by_from spans)"
    by (simp add: sorted_wrt_iff_nth_less)
  then show ?thesis by (rule sorted_wrt_mono_rel [rotated]) (auto simp: overlap_before before_def)
qed

text \<open>The specification of an edit: lines are copied up to a span, which is replaced, and so on.\<close>

fun weave :: "nat \<Rightarrow> string list \<Rightarrow> span list \<Rightarrow> string list" where
  "weave done lines [] = drop done lines"
| "weave done lines (sp # sps) =
     lines_between done (sp_from sp) lines @ sp_new sp @ weave (sp_from sp + sp_len sp) lines sps"

lemma take_between: "p \<le> n \<Longrightarrow> take n xs = take p xs @ lines_between p n xs"
  using append_take_drop_id [of p "take n xs"] by (simp add: lines_between_def min_absorb1)

lemma drop_between: "p \<le> n \<Longrightarrow> drop p xs = lines_between p n xs @ drop n xs"
  using append_take_drop_id [of "n - p" "drop p xs"] by (simp add: lines_between_def take_drop)

lemma between_more: "p \<le> n \<Longrightarrow> n \<le> m \<Longrightarrow> lines_between p m xs = lines_between p n xs @ lines_between n m xs"
  using drop_between [of p n "take m xs"] by (simp add: lines_between_def min_absorb2 min_absorb1)

definition spans_fit :: "nat \<Rightarrow> nat \<Rightarrow> span list \<Rightarrow> bool" where
  "spans_fit p n sps \<longleftrightarrow> sorted_wrt before sps \<and> (\<forall>s \<in> set sps. p \<le> sp_from s \<and> sp_from s + sp_len s \<le> n)"

lemma spans_fit_Cons:
  "spans_fit p n (s # sps) \<Longrightarrow>
   p \<le> sp_from s \<and> sp_from s + sp_len s \<le> n \<and> spans_fit (sp_from s + sp_len s) n sps"
  by (auto simp: spans_fit_def before_def)

text \<open>Replacing from the last span to the first is weaving: no replacement moves the place of another.\<close>

lemma replace_is_weave:
  "spans_fit p (length lines) sps \<Longrightarrow> p \<le> length lines \<Longrightarrow>
   foldr replace_span sps lines = take p lines @ weave p lines sps"
proof (induction sps arbitrary: p)
  case (Cons s sps)
  let ?q = "sp_from s + sp_len s"
  note fit = spans_fit_Cons [OF Cons.prems(1)]
  have rest: "foldr replace_span sps lines = take ?q lines @ weave ?q lines sps"
    using fit by (intro Cons.IH) simp_all
  have "replace_span s (take ?q lines @ weave ?q lines sps) = take (sp_from s) lines @ sp_new s @ weave ?q lines sps"
    using fit by (simp add: replace_span_def min_absorb1)
  moreover have "take (sp_from s) lines = take p lines @ lines_between p (sp_from s) lines"
    using fit by (intro take_between) simp
  ultimately show ?case by (simp only: foldr.simps o_apply rest weave.simps append_assoc)
qed simp

lemma apply_is_weave:
  assumes "good_spans (length lines) spans"
  shows "apply_spans spans lines = weave 0 lines (by_from spans)"
proof -
  have "spans_fit 0 (length lines) (by_from spans)"
    using assms sort_before by (auto simp: good_spans_def spans_fit_def list_all_iff by_from_def)
  from replace_is_weave [OF this] show ?thesis by (simp add: apply_spans_def foldr_conv_fold)
qed

section \<open>What a hunk becomes\<close>

lemma old_side_append: "old_side (a @ b) = old_side a @ old_side b"
  by (simp add: old_side_def)

lemma new_side_append: "new_side (a @ b) = new_side a @ new_side b"
  by (simp add: new_side_def)

lemma kept_sides: "list_all is_kept pls \<Longrightarrow> old_side pls = map snd pls \<and> new_side pls = map snd pls"
  by (auto simp: old_side_def new_side_def is_kept_def is_old_def is_new_def list_all_iff
      intro!: arg_cong [of _ _ "map snd"] filter_True)

lemma hunk_parts:
  obtains tail where "pls = takeWhile is_kept pls @ hunk_core pls @ tail" and "list_all is_kept tail"
proof -
  let ?r = "dropWhile is_kept pls"
  have "?r = hunk_core pls @ rev (takeWhile is_kept (rev ?r))"
    unfolding hunk_core_def by (metis rev_append rev_rev_ident takeWhile_dropWhile_id)
  then have "pls = takeWhile is_kept pls @ hunk_core pls @ rev (takeWhile is_kept (rev ?r))"
    by (metis takeWhile_dropWhile_id)
  moreover have "list_all is_kept (rev (takeWhile is_kept (rev ?r)))"
    by (auto simp: list_all_iff dest: set_takeWhileD)
  ultimately show ?thesis by (rule that)
qed

text \<open>The span of a hunk that was found does what the whole hunk says: its old lines become its new lines.\<close>

lemma core_does_it_all:
  assumes "lines_match lines p (old_side pls)"
  shows "replace_span \<lparr> sp_from = p + length (takeWhile is_kept pls), sp_len = length (old_side (hunk_core pls)),
            sp_new = new_side (hunk_core pls) \<rparr> lines =
         take p lines @ new_side pls @ drop (p + length (old_side pls)) lines"
    and "p + length (takeWhile is_kept pls) + length (old_side (hunk_core pls)) \<le> length lines"
proof -
  obtain T where T: "pls = takeWhile is_kept pls @ hunk_core pls @ T" "list_all is_kept T" by (rule hunk_parts)
  define L C where "L = takeWhile is_kept pls" and "C = hunk_core pls"
  have pls: "pls = L @ C @ T" using T by (simp add: L_def C_def)
  have "list_all is_kept L" by (auto simp: L_def list_all_iff dest: set_takeWhileD)
  with T(2) have sides: "old_side pls = map snd L @ old_side C @ map snd T" "new_side pls = map snd L @ new_side C @ map snd T"
    by (simp_all add: pls old_side_append new_side_append kept_sides)
  define A R where "A = take p lines" and "R = drop (p + length (old_side pls)) lines"
  have at: "p + length (old_side pls) \<le> length lines" "take (length (old_side pls)) (drop p lines) = old_side pls"
    using assms by (simp_all add: lines_match_def)
  then have lines: "lines = A @ old_side pls @ R" and A: "length A = p"
    by (simp_all add: A_def R_def) (metis append_take_drop_id drop_drop add.commute)
  have "replace_span \<lparr> sp_from = p + length L, sp_len = length (old_side C), sp_new = new_side C \<rparr> (A @ old_side pls @ R) =
      A @ new_side pls @ R"
    by (simp add: replace_span_def A sides)
  then show "replace_span \<lparr> sp_from = p + length (takeWhile is_kept pls), sp_len = length (old_side (hunk_core pls)),
            sp_new = new_side (hunk_core pls) \<rparr> lines =
         take p lines @ new_side pls @ drop (p + length (old_side pls)) lines"
    by (simp only: L_def C_def A_def [symmetric] R_def [symmetric] lines [symmetric])
  show "p + length (takeWhile is_kept pls) + length (old_side (hunk_core pls)) \<le> length lines"
    using at(1) unfolding L_def [symmetric] C_def [symmetric] by (simp add: sides)
qed

text \<open>
  \<open>hunk_place lines h p\<close>: the hunk belongs to the lines from \<open>p\<close> on. With old lines it is the match that
  is nearest to the line of its header; without it is the place its header names.
\<close>

definition hunk_place :: "string list \<Rightarrow> hunk \<Rightarrow> nat \<Rightarrow> bool" where
  "hunk_place lines h p \<longleftrightarrow>
     lines_match lines p (old_side (h_lines h)) \<and>
     (if old_side (h_lines h) = [] then pure_insert h \<and> p = h_old_start h
      else \<forall>q. lines_match lines q (old_side (h_lines h)) \<longrightarrow> q \<noteq> p \<longrightarrow>
             \<bar>int p - (int (h_old_start h) - 1)\<bar> < \<bar>int q - (int (h_old_start h) - 1)\<bar>)"

definition does_hunk :: "string list \<Rightarrow> span \<Rightarrow> hunk \<Rightarrow> bool" where
  "does_hunk lines sp h \<longleftrightarrow> (\<exists>p. hunk_place lines h p \<and>
     replace_span sp lines = take p lines @ new_side (h_lines h) @ drop (p + length (old_side (h_lines h))) lines)"

lemma span_of_effect:
  assumes "span_of lines path h = Inr sp"
  shows "does_hunk lines sp h" and "sp_from sp + sp_len sp \<le> length lines"
proof -
  have "does_hunk lines sp h \<and> sp_from sp + sp_len sp \<le> length lines"
  proof (cases "old_side (h_lines h) = []")
    case True
    with assms show ?thesis
      by (auto simp: span_of_def Let_def does_hunk_def hunk_place_def lines_match_def replace_span_def split: if_splits)
  next
    case False
    with assms obtain p where p: "locate_hunk lines (old_side (h_lines h)) (int (h_old_start h) - 1) = At p"
      and sp: "sp = \<lparr> sp_from = p + length (takeWhile is_kept (h_lines h)),
        sp_len = length (old_side (hunk_core (h_lines h))), sp_new = new_side (hunk_core (h_lines h)) \<rparr>"
      by (auto simp: span_of_def Let_def split: place.splits)
    from p have place: "hunk_place lines h p" using False by (simp add: locate_At hunk_place_def)
    then have "lines_match lines p (old_side (h_lines h))" by (simp add: hunk_place_def)
    from core_does_it_all [OF this] place sp show ?thesis by (auto simp: does_hunk_def)
  qed
  then show "does_hunk lines sp h" and "sp_from sp + sp_len sp \<le> length lines" by simp_all
qed

lemma idle_hunk:
  assumes "span_of lines path h = Inr sp" and "sp_len sp = 0" and "sp_new sp = []"
  shows "new_side (h_lines h) = old_side (h_lines h)"
proof (cases "old_side (h_lines h) = []")
  case True
  with assms show ?thesis by (auto simp: span_of_def Let_def split: if_splits)
next
  case False
  with assms have core: "old_side (hunk_core (h_lines h)) = []" "new_side (hunk_core (h_lines h)) = []"
    by (auto simp: span_of_def Let_def split: place.splits)
  obtain T where T: "h_lines h = takeWhile is_kept (h_lines h) @ hunk_core (h_lines h) @ T" "list_all is_kept T"
    by (rule hunk_parts)
  have "list_all is_kept (takeWhile is_kept (h_lines h))" by (auto simp: list_all_iff dest: set_takeWhileD)
  with T(2) core show ?thesis by (subst (1 2) T(1)) (simp add: old_side_append new_side_append kept_sides)
qed

text \<open>The spans so far do the hunks so far.\<close>

definition spans_do :: "string list \<Rightarrow> hunk list \<Rightarrow> span list \<Rightarrow> bool" where
  "spans_do lines hunks spans \<longleftrightarrow> good_spans (length lines) spans \<and>
     list_all (\<lambda>h. new_side (h_lines h) = old_side (h_lines h) \<or> list_ex (\<lambda>sp. does_hunk lines sp h) spans) hunks \<and>
     list_all (\<lambda>sp. list_ex (does_hunk lines sp) hunks) spans"

lemma add_span_does:
  assumes "add_span lines path spans h = Inr spans'" and "spans_do lines hunks spans"
  shows "spans_do lines (hunks @ [h]) spans'"
proof -
  from assms(1) obtain sp where sp: "span_of lines path h = Inr sp" by (auto simp: add_span_def then_do_Inr_iff)
  note effect = span_of_effect [OF sp]
  show ?thesis
  proof (cases "sp_len sp = 0 \<and> sp_new sp = []")
    case True
    with assms sp idle_hunk [OF sp] show ?thesis by (auto simp: add_span_def spans_do_def list_all_iff list_ex_iff)
  next
    case False
    with assms(1) sp have s: "spans' = spans @ [sp]" "\<forall>e \<in> set spans. \<not> overlap e sp"
      by (auto simp: add_span_def list_ex_iff split: if_splits)
    with assms(2) effect show ?thesis
      by (auto simp: spans_do_def good_spans_def sorted_wrt_append list_all_iff list_ex_iff)
  qed
qed

lemma add_spans_do:
  "fold_err (add_span lines path) spans hs = Inr spans' \<Longrightarrow> spans_do lines hunks spans \<Longrightarrow> spans_do lines (hunks @ hs) spans'"
proof (induction hs arbitrary: spans hunks)
  case (Cons h hs)
  then obtain t where "add_span lines path spans h = Inr t" "fold_err (add_span lines path) t hs = Inr spans'"
    by (auto simp: then_do_Inr_iff)
  with Cons add_span_does show ?case by fastforce
qed simp

lemma edit_spans_do: "fold_err (add_span lines path) [] hunks = Inr spans \<Longrightarrow> spans_do lines hunks spans"
  using add_spans_do [of lines path "[]" hunks spans "[]"] by (simp add: spans_do_def good_spans_def)

lemma change_file_ok:
  assumes "change_file outcome path original hunks fs = (Inr answer, fs')"
  obtains spans where "fold_err (add_span (lines_of original) path) [] hunks = Inr spans"
    and "outcome = Write_ok" and "updated_text original spans \<noteq> original"
    and "fs' = fs(tmp_of path := None, path \<mapsto> updated_text original spans)"
    and "answer = format_diff path (lines_of original) spans False"
  using assms by (auto simp: change_file_def write_atomic_def split: sum.splits if_splits write_outcome.splits prod.splits)

text \<open>
  C38. A successful edit of a file replaces, for every hunk, the lines of its old side by those of its
  new side at the nearest place that matches, copies every line between the replaced ones, keeps
  whether the last line ends, and touches no other file.
\<close>

theorem edit_replaces_the_hunks:
  assumes "change_file outcome path original hunks fs = (Inr answer, fs')"
  shows "\<exists>spans.
    fs' = fs(tmp_of path := None, path \<mapsto> join_lines (weave 0 (lines_of original) (by_from spans))
               (ends_with_newline original \<or> original = [] \<and> weave 0 [] (by_from spans) \<noteq> [])) \<and>
    sorted_wrt before (by_from spans) \<and>
    list_all (\<lambda>h. new_side (h_lines h) = old_side (h_lines h) \<or>
                  list_ex (\<lambda>sp. does_hunk (lines_of original) sp h) spans) hunks \<and>
    list_all (\<lambda>sp. list_ex (does_hunk (lines_of original) sp) hunks) spans"
proof -
  from assms obtain spans where f: "fold_err (add_span (lines_of original) path) [] hunks = Inr spans"
    and fs': "fs' = fs(tmp_of path := None, path \<mapsto> updated_text original spans)" by (rule change_file_ok)
  from f have d: "spans_do (lines_of original) hunks spans" by (rule edit_spans_do)
  then have g: "good_spans (length (lines_of original)) spans" by (simp add: spans_do_def)
  have t: "updated_text original spans = join_lines (weave 0 (lines_of original) (by_from spans))
      (ends_with_newline original \<or> original = [] \<and> weave 0 [] (by_from spans) \<noteq> [])"
    using apply_is_weave [OF g] by (cases "original = []") (simp_all add: updated_text_def Let_def)
  show ?thesis
    using d g fs' t sort_before by (intro exI [of _ spans]) (auto simp: spans_do_def good_spans_def)
qed

definition demo_file :: string where
  "demo_file = ''a'' @ [nl] @ ''b'' @ [nl] @ ''c'' @ [nl]"

definition demo_hunk :: hunk where
  "demo_hunk = \<lparr> h_number = 1, h_old_start = 1, h_old_count = 2, h_lines = [(CHR '' '', ''a''), (CHR ''-'', ''b''), (CHR ''+'', ''x'')] \<rparr>"

lemma demo_change:
  "\<exists>answer fs'. change_file Write_ok ''f'' demo_file [demo_hunk] (\<lambda>p. None) = (Inr answer, fs') \<and>
     fs' ''f'' = Some (''a'' @ [nl] @ ''x'' @ [nl] @ ''c'' @ [nl])"
proof -
  have "\<not> isl (fst (change_file Write_ok ''f'' demo_file [demo_hunk] (\<lambda>p. None)))"
    "snd (change_file Write_ok ''f'' demo_file [demo_hunk] (\<lambda>p. None)) ''f'' = Some (''a'' @ [nl] @ ''x'' @ [nl] @ ''c'' @ [nl])"
    by code_simp+
  moreover obtain r fs' where "change_file Write_ok ''f'' demo_file [demo_hunk] (\<lambda>p. None) = (r, fs')" by fastforce
  ultimately show ?thesis by (cases r) auto
qed

theorem edit_replaces_the_hunks_witness:
  "\<exists>spans. join_lines (weave 0 (lines_of demo_file) (by_from spans)) True = ''a'' @ [nl] @ ''x'' @ [nl] @ ''c'' @ [nl] \<and>
     list_all (\<lambda>sp. does_hunk (lines_of demo_file) sp demo_hunk) spans"
proof -
  obtain answer fs' where r: "change_file Write_ok ''f'' demo_file [demo_hunk] (\<lambda>p. None) = (Inr answer, fs')"
    and f: "fs' ''f'' = Some (''a'' @ [nl] @ ''x'' @ [nl] @ ''c'' @ [nl])" using demo_change by blast
  have n: "ends_with_newline demo_file" by (simp add: demo_file_def ends_with_newline_def)
  from edit_replaces_the_hunks [OF r] f n show ?thesis by auto
qed

lemma write_atomic_files:
  "write_atomic outcome path content fs = (r, fs') \<Longrightarrow> q \<noteq> tmp_of path \<Longrightarrow> isl r \<or> q \<noteq> path \<Longrightarrow> fs' q = fs q"
  by (auto simp: write_atomic_def split: write_outcome.splits)

lemma change_file_files:
  assumes "change_file outcome path original hunks fs = (r, fs')" and "q \<noteq> tmp_of path" and "isl r \<or> q \<noteq> path"
  shows "fs' q = fs q"
proof (cases "fold_err (add_span (lines_of original) path) [] hunks")
  case (Inr spans)
  obtain w fs1 where w: "write_atomic outcome path (updated_text original spans) fs = (w, fs1)" by fastforce
  with assms Inr write_atomic_files [OF w assms(2)] show ?thesis
    by (cases w) (auto simp: change_file_def split: if_splits)
qed (use assms in \<open>simp add: change_file_def\<close>)

lemma create_file_files:
  assumes "create_file outcome path hunks fs = (r, fs')" and "q \<noteq> tmp_of path" and "isl r \<or> q \<noteq> path"
  shows "fs' q = fs q"
proof -
  let ?c = "join_lines (new_file_lines hunks) (new_file_lines hunks \<noteq> [])"
  obtain w fs1 where w: "write_atomic outcome path ?c fs = (w, fs1)" by fastforce
  with assms write_atomic_files [OF w assms(2)] show ?thesis
    by (cases w) (auto simp: create_file_def Let_def split: if_splits)
qed

lemma edit_patch_files:
  assumes "edit_patch readable outcome path patch fs = (r, fs')" and "q \<noteq> tmp_of path" and "isl r \<or> q \<noteq> path"
  shows "fs' q = fs q"
  using assms
  by (auto simp: edit_patch_def split: sum.splits option.splits if_splits dest: change_file_files create_file_files)

text \<open>
  C39. Whatever the patch and the file system do, no file but the named one and its temporary file
  changes, and where the answer is an error the named file is as it was; a call without a path or a
  patch changes nothing.
\<close>

theorem failed_edit_changes_nothing:
  assumes "edit_file js readable outcome args fs = (r, fs')"
  shows "case Option.bind (j_get js ''path'' args) (j_string_of js) of
      None \<Rightarrow> fs' = fs \<and> isl r
    | Some path \<Rightarrow> \<forall>q. q \<noteq> tmp_of path \<longrightarrow> isl r \<or> q \<noteq> path \<longrightarrow> fs' q = fs q"
  using assms edit_patch_files
  by (auto simp: edit_file_def split: option.splits)

abbreviation demo_edit_args :: json_tree where
  "demo_edit_args \<equiv> J_object [(''path'', J_string ''f''), (''patch'', J_string ''@@ -1 +1 @@'')]"

theorem failed_edit_changes_nothing_witness:
  "snd (edit_file tree_json True Write_fails demo_edit_args (\<lambda>p. Some demo_file)) ''f'' = Some demo_file"
proof -
  obtain r fs' where e: "edit_file tree_json True Write_fails demo_edit_args (\<lambda>p. Some demo_file) = (r, fs')"
    by fastforce
  have "isl (fst (edit_file tree_json True Write_fails demo_edit_args (\<lambda>p. Some demo_file)))" by code_simp
  moreover have "Option.bind (j_get tree_json ''path'' demo_edit_args) (j_string_of tree_json) = Some ''f''" by code_simp
  ultimately show ?thesis
    using failed_edit_changes_nothing [OF e] e by (simp add: tmp_of_def)
qed

text \<open>
  A removed line that begins with two dashes and a space is \<open>---\<close> and a space in the patch, the start of
  a file header. It ends the hunk, the rest of the hunk is skipped, and the edit succeeds without it.
\<close>

lemma dashes_end_the_hunk:
  "parse_patch (''@@ -1,4 +1,1 @@'' @ [nl] @ '' a'' @ [nl] @ ''-b'' @ [nl] @ ''--- c'' @ [nl] @ ''-d'' @ [nl]) ''f'' =
   Inr ([\<lparr> h_number = 1, h_old_start = 1, h_old_count = 4, h_lines = [(CHR '' '', ''a''), (CHR ''-'', ''b'')] \<rparr>], False)"
  by code_simp

end
