(* ===== verification/Tool_Edit_Diff.thy ===== *)
theory Tool_Edit_Diff
  imports Tool_Edit_Proofs
begin

text \<open>
  The diff that answers an edit is itself a patch: parsed and applied to the file as it was, it makes
  the same edit and is answered by the same diff. The lines must not look like a file header in the
  diff, nor end in a carriage return.
\<close>

section \<open>The diff as lines\<close>

definition diff_header :: "nat \<Rightarrow> nat \<Rightarrow> nat \<Rightarrow> nat \<Rightarrow> string" where
  "diff_header old_start old_count new_start new_count =
     ''@@ -'' @ decimal old_start @ '','' @ decimal old_count @ '' +'' @
     decimal new_start @ '','' @ decimal new_count @ '' @@''"

definition ctx_low :: "nat \<Rightarrow> span \<Rightarrow> nat" where
  "ctx_low prev_end sp = max prev_end (sp_from sp - 3)"

definition ctx_high :: "nat \<Rightarrow> span \<Rightarrow> nat" where
  "ctx_high next_from sp = min next_from (sp_from sp + sp_len sp + 3)"

text \<open>The lines of the hunk that the diff has for a span.\<close>

definition diff_body :: "string list \<Rightarrow> nat \<Rightarrow> nat \<Rightarrow> span \<Rightarrow> patch_line list" where
  "diff_body lines prev_end next_from sp =
     map (Pair CHR '' '') (lines_between (ctx_low prev_end sp) (sp_from sp) lines) @
     map (Pair CHR ''-'') (lines_between (sp_from sp) (sp_from sp + sp_len sp) lines) @
     map (Pair CHR ''+'') (sp_new sp) @
     map (Pair CHR '' '') (lines_between (sp_from sp + sp_len sp) (ctx_high next_from sp) lines)"

definition old_count_of :: "nat \<Rightarrow> nat \<Rightarrow> span \<Rightarrow> nat" where
  "old_count_of prev_end next_from sp = ctx_high next_from sp - ctx_low prev_end sp"

definition new_count_of :: "nat \<Rightarrow> nat \<Rightarrow> span \<Rightarrow> nat" where
  "new_count_of prev_end next_from sp = (sp_from sp - ctx_low prev_end sp) + length (sp_new sp) +
     (ctx_high next_from sp - (sp_from sp + sp_len sp))"

definition start_of :: "nat \<Rightarrow> span \<Rightarrow> nat \<Rightarrow> nat" where
  "start_of prev_end sp count = (if count = 0 then sp_from sp else ctx_low prev_end sp + 1)"

definition hunk_header_of :: "nat \<Rightarrow> nat \<Rightarrow> span \<Rightarrow> string" where
  "hunk_header_of prev_end next_from sp =
     diff_header (start_of prev_end sp (old_count_of prev_end next_from sp)) (old_count_of prev_end next_from sp)
       (start_of prev_end sp (new_count_of prev_end next_from sp)) (new_count_of prev_end next_from sp)"

definition uncurried_line :: "patch_line \<Rightarrow> string" where
  "uncurried_line pl = fst pl # snd pl"

definition written :: "string list \<Rightarrow> string" where
  "written ls = concat (map (\<lambda>l. l @ [nl]) ls)"

lemma written_simps [simp]: "written [] = []" "written (l # ls) = l @ nl # written ls" "written (a @ b) = written a @ written b"
  by (simp_all add: written_def)

lemma written_marked: "concat (map (diff_line c) ls) = written (map uncurried_line (map (Pair c) ls))"
  by (induction ls) (simp_all add: diff_line_def uncurried_line_def)

lemma diff_hunk_lines:
  "diff_hunk lines prev_end next_from sp =
   written (hunk_header_of prev_end next_from sp # map uncurried_line (diff_body lines prev_end next_from sp))"
  by (simp add: diff_hunk_def Let_def hunk_header_of_def diff_header_def start_of_def old_count_of_def new_count_of_def
      ctx_low_def ctx_high_def diff_body_def written_marked)

text \<open>The hunks of the whole diff, numbered as the parser numbers them.\<close>

definition next_start :: "nat \<Rightarrow> span list \<Rightarrow> nat" where
  "next_start n sps = (case sps of [] \<Rightarrow> n | sp # _ \<Rightarrow> sp_from sp)"

definition hunk_of :: "nat \<Rightarrow> string list \<Rightarrow> nat \<Rightarrow> nat \<Rightarrow> span \<Rightarrow> hunk" where
  "hunk_of number lines prev_end next_from sp =
     \<lparr> h_number = number, h_old_start = start_of prev_end sp (old_count_of prev_end next_from sp),
       h_old_count = old_count_of prev_end next_from sp, h_lines = diff_body lines prev_end next_from sp \<rparr>"

fun hunks_of :: "nat \<Rightarrow> string list \<Rightarrow> nat \<Rightarrow> span list \<Rightarrow> hunk list" where
  "hunks_of number lines prev_end [] = []"
| "hunks_of number lines prev_end (sp # sps) =
     hunk_of number lines prev_end (next_start (length lines) sps) sp #
     hunks_of (number + 1) lines (sp_from sp + sp_len sp) sps"

fun hunk_texts :: "string list \<Rightarrow> nat \<Rightarrow> span list \<Rightarrow> string list" where
  "hunk_texts lines prev_end [] = []"
| "hunk_texts lines prev_end (sp # sps) =
     (hunk_header_of prev_end (next_start (length lines) sps) sp #
      map uncurried_line (diff_body lines prev_end (next_start (length lines) sps) sp)) @
     hunk_texts lines (sp_from sp + sp_len sp) sps"

lemma diff_hunks_lines: "diff_hunks lines prev_end sps = written (hunk_texts lines prev_end sps)"
proof (induction sps arbitrary: prev_end)
  case (Cons sp sps)
  have n: "(case sps of [] \<Rightarrow> length lines | next # _ \<Rightarrow> sp_from next) = next_start (length lines) sps"
    by (simp add: next_start_def)
  show ?case by (simp only: diff_hunks.simps n diff_hunk_lines Cons.IH hunk_texts.simps written_simps append_assoc)
qed simp

lemma full_diff_lines:
  "full_diff path lines spans False =
   written ((''--- '' @ path) # (''+++ '' @ path) # hunk_texts lines 0 (by_from spans))"
  by (simp add: full_diff_def diff_hunks_lines)

section \<open>Reading it back\<close>

lemma read_int_decimal:
  assumes "n < 2 ^ 31" and "rest = [] \<or> \<not> is_digit_char (hd rest)"
  shows "read_int (decimal n @ rest) = Inr (n, rest)"
proof -
  have d: "list_all is_digit_char (decimal n)" using decimal_digits [of n] by (auto simp: list_all_iff)
  have "takeWhile is_digit_char (decimal n @ rest) = decimal n" "dropWhile is_digit_char (decimal n @ rest) = rest"
    using d assms(2) by (cases rest; simp add: takeWhile_append2 dropWhile_append2 list_all_iff)+
  moreover have "\<not> (2147483648 :: int) \<le> int n" using assms(1) by simp
  ultimately show ?thesis by (simp add: read_int_def Let_def decimal_not_empty digits_value_decimal)
qed

lemma parse_diff_header:
  assumes "a < 2 ^ 31" "b < 2 ^ 31" "c < 2 ^ 31" "d < 2 ^ 31"
  shows "parse_hunk_header (diff_header a b c d) = Inr (a, b)"
proof -
  have nd: "\<not> is_digit_char CHR '',''" "\<not> is_digit_char CHR '' ''" by (simp_all add: is_digit_char_def)
  have "read_int (decimal a @ CHR '','' # r) = Inr (a, CHR '','' # r)"
    "read_int (decimal b @ CHR '' '' # r) = Inr (b, CHR '' '' # r)"
    "read_int (decimal c @ CHR '','' # r) = Inr (c, CHR '','' # r)"
    "read_int (decimal d @ CHR '' '' # r) = Inr (d, CHR '' '' # r)" for r
    using read_int_decimal assms nd by simp_all
  then show ?thesis
    by (simp add: parse_hunk_header_def diff_header_def read_count_def Let_def)
qed

text \<open>A line that keeps its place in a diff: it is one line and no file header.\<close>

definition tame_line :: "patch_line \<Rightarrow> bool" where
  "tame_line pl \<longleftrightarrow> nl \<notin> set (snd pl) \<and> (snd pl = [] \<or> last (snd pl) \<noteq> CHR 0x0D) \<and>
     (fst pl = CHR '' '' \<or> (fst pl = CHR ''-'' \<and> \<not> prefix ''-- '' (snd pl)) \<or> (fst pl = CHR ''+'' \<and> \<not> prefix ''++ '' (snd pl)))"

lemma tame_line_step:
  assumes "tame_line pl" and "ps_current st = Some h"
  shows "patch_step st (uncurried_line pl) = Inr (st\<lparr> ps_current := Some (h\<lparr> h_lines := h_lines h @ [pl] \<rparr>) \<rparr>)"
proof -
  from assms(1) have "\<not> prefix ''@@'' (uncurried_line pl)" "\<not> is_header_line (uncurried_line pl)"
    by (auto simp: tame_line_def uncurried_line_def is_header_line_def)
  moreover from assms(1) have "hunk_line (uncurried_line pl) h st = Inr (st\<lparr> ps_current := Some (h\<lparr> h_lines := h_lines h @ [pl] \<rparr>) \<rparr>)"
    by (cases pl) (auto simp: hunk_line_def tame_line_def uncurried_line_def)
  ultimately show ?thesis using assms(2) by (simp add: patch_step_def)
qed

lemma body_steps:
  "list_all tame_line pls \<Longrightarrow> ps_current st = Some h \<Longrightarrow>
   fold_err patch_step st (map uncurried_line pls) = Inr (st\<lparr> ps_current := Some (h\<lparr> h_lines := h_lines h @ pls \<rparr>) \<rparr>)"
proof (induction pls arbitrary: st h)
  case (Cons pl pls)
  then show ?case by (simp add: tame_line_step)
qed simp

lemma fold_err_append: "fold_err f s (xs @ ys) = then_do (fold_err f s xs) (\<lambda>t. fold_err f t ys)"
  by (induction xs arbitrary: s) (auto simp: then_do_def split: sum.splits)

text \<open>A span that does something and whose line numbers fit.\<close>

definition numbers_fit :: "nat \<Rightarrow> nat \<Rightarrow> span \<Rightarrow> bool" where
  "numbers_fit prev_end next_from sp \<longleftrightarrow>
     start_of prev_end sp (old_count_of prev_end next_from sp) < 2 ^ 31 \<and> old_count_of prev_end next_from sp < 2 ^ 31 \<and>
     start_of prev_end sp (new_count_of prev_end next_from sp) < 2 ^ 31 \<and> new_count_of prev_end next_from sp < 2 ^ 31"

lemma hunk_steps:
  assumes "close_hunk st = Inr st0" and "ps_current st0 = None" and "number = length (ps_hunks st0) + 1"
    and "numbers_fit prev_end next_from sp" and "list_all tame_line (diff_body lines prev_end next_from sp)"
  shows "fold_err patch_step st (hunk_header_of prev_end next_from sp #
      map uncurried_line (diff_body lines prev_end next_from sp)) =
    Inr (st0\<lparr> ps_current := Some (hunk_of number lines prev_end next_from sp) \<rparr>)"
proof -
  have "prefix ''@@'' (hunk_header_of prev_end next_from sp)" by (simp add: hunk_header_of_def diff_header_def)
  then have "patch_step st (hunk_header_of prev_end next_from sp) = open_hunk (hunk_header_of prev_end next_from sp) st0"
    using assms(1) by (simp add: patch_step_def)
  also have "\<dots> = Inr (st0\<lparr> ps_current := Some (hunk_of number lines prev_end next_from sp\<lparr> h_lines := [] \<rparr>) \<rparr>)"
    using assms(3,4) by (simp add: open_hunk_def hunk_header_of_def parse_diff_header numbers_fit_def hunk_of_def)
  finally show ?thesis using assms(5) by (simp add: body_steps) (simp add: hunk_of_def)
qed

fun spans_readable :: "string list \<Rightarrow> nat \<Rightarrow> span list \<Rightarrow> bool" where
  "spans_readable lines prev_end [] = True"
| "spans_readable lines prev_end (sp # sps) =
     (numbers_fit prev_end (next_start (length lines) sps) sp \<and>
      list_all tame_line (diff_body lines prev_end (next_start (length lines) sps) sp) \<and>
      diff_body lines prev_end (next_start (length lines) sps) sp \<noteq> [] \<and>
      spans_readable lines (sp_from sp + sp_len sp) sps)"

lemma hunks_steps:
  assumes "spans_readable lines prev_end sps" and "close_hunk st = Inr st0" and "ps_current st0 = None"
    and "number = length (ps_hunks st0) + 1"
  shows "\<exists>st'. fold_err patch_step st (hunk_texts lines prev_end sps) = Inr st' \<and>
    close_hunk st' = Inr (st0\<lparr> ps_hunks := ps_hunks st0 @ hunks_of number lines prev_end sps \<rparr>)"
  using assms
proof (induction sps arbitrary: prev_end st st0 number)
  case (Cons sp sps)
  let ?h = "hunk_of number lines prev_end (next_start (length lines) sps) sp"
  let ?st1 = "st0\<lparr> ps_current := Some ?h \<rparr>"
  have one: "fold_err patch_step st (hunk_header_of prev_end (next_start (length lines) sps) sp #
      map uncurried_line (diff_body lines prev_end (next_start (length lines) sps) sp)) = Inr ?st1"
    using Cons.prems by (intro hunk_steps) simp_all
  have c: "close_hunk ?st1 = Inr (st0\<lparr> ps_hunks := ps_hunks st0 @ [?h] \<rparr>)"
    using Cons.prems(1,3) by (simp add: close_hunk_def hunk_of_def)
  have "\<exists>st'. fold_err patch_step ?st1 (hunk_texts lines (sp_from sp + sp_len sp) sps) = Inr st' \<and>
      close_hunk st' = Inr (st0\<lparr> ps_hunks := ps_hunks st0 @ [?h] \<rparr>
        \<lparr> ps_hunks := ps_hunks (st0\<lparr> ps_hunks := ps_hunks st0 @ [?h] \<rparr>) @ hunks_of (number + 1) lines (sp_from sp + sp_len sp) sps \<rparr>)"
    using Cons.prems by (intro Cons.IH [OF _ c]) simp_all
  then obtain st' where "fold_err patch_step ?st1 (hunk_texts lines (sp_from sp + sp_len sp) sps) = Inr st'"
    and "close_hunk st' = Inr (st0\<lparr> ps_hunks := ps_hunks st0 @ hunks_of number lines prev_end (sp # sps) \<rparr>)" by auto
  then show ?case by (simp only: hunk_texts.simps fold_err_append one then_do_simps) blast
qed simp

text \<open>A path that its own header line names.\<close>

definition plain_path :: "string \<Rightarrow> bool" where
  "plain_path path \<longleftrightarrow> path \<noteq> [] \<and> CHR 0x09 \<notin> set path \<and> nl \<notin> set path \<and> last path \<noteq> CHR 0x0D \<and>
     hd path \<noteq> CHR 0x22 \<and> path \<noteq> ''/dev/null'' \<and> same_target path path"

lemma absolute_path_names_itself:
  "hd path = CHR ''/'' \<Longrightarrow> path \<noteq> [] \<Longrightarrow> path \<noteq> ''/dev/null'' \<Longrightarrow> same_target path path"
  by (cases path) (simp_all add: same_target_def Let_def)

lemma header_path_plain:
  assumes "plain_path path"
  shows "header_path (''--- '' @ path) = path" "header_path (''+++ '' @ path) = path"
proof -
  have t: "takeWhile (\<lambda>c. c \<noteq> CHR 0x09) path = path" using assms by (auto simp: plain_path_def takeWhile_eq_all_conv)
  have "hd path \<noteq> CHR 0x22" using assms by (simp add: plain_path_def)
  then show "header_path (''--- '' @ path) = path" "header_path (''+++ '' @ path) = path"
    by (simp_all add: header_path_def Let_def t)
qed

lemma readable_texts:
  "spans_readable lines prev_end sps \<Longrightarrow>
   list_all (\<lambda>l. nl \<notin> set l) (hunk_texts lines prev_end sps) \<and>
   map drop_cr (hunk_texts lines prev_end sps) = hunk_texts lines prev_end sps"
proof (induction sps arbitrary: prev_end)
  case (Cons sp sps)
  have header: "nl \<notin> set (diff_header a b c d)" "drop_cr (diff_header a b c d) = diff_header a b c d" for a b c d
  proof -
    have "nl \<notin> set (decimal n)" for n using decimal_digits [of n] by (auto simp: is_digit_char_def)
    then show "nl \<notin> set (diff_header a b c d)" by (simp add: diff_header_def)
    show "drop_cr (diff_header a b c d) = diff_header a b c d" by (simp add: drop_cr_def diff_header_def)
  qed
  have "nl \<notin> set (uncurried_line pl) \<and> drop_cr (uncurried_line pl) = uncurried_line pl" if "tame_line pl" for pl
    using that by (auto simp: tame_line_def uncurried_line_def drop_cr_def)
  with Cons header show ?case
    by (auto simp: hunk_header_of_def list_all_iff)
qed simp

lemma parse_full_diff:
  assumes "plain_path path" and "spans_readable lines 0 (by_from spans)" and "spans \<noteq> []"
  shows "parse_patch (full_diff path lines spans False) path = Inr (hunks_of 1 lines 0 (by_from spans), False)"
proof -
  let ?texts = "hunk_texts lines 0 (by_from spans)"
  have clean: "list_all (\<lambda>l. nl \<notin> set l) ?texts" and no_cr: "map drop_cr ?texts = ?texts"
    using readable_texts [OF assms(2)] by simp_all
  have ends: "nl \<notin> set (''--- '' @ path)" "nl \<notin> set (''+++ '' @ path)" "drop_cr (''--- '' @ path) = ''--- '' @ path"
    "drop_cr (''+++ '' @ path) = ''+++ '' @ path"
    using assms(1) by (auto simp: plain_path_def drop_cr_def)
  have lines: "patch_lines (full_diff path lines spans False) = (''--- '' @ path) # (''+++ '' @ path) # ?texts"
    using ends clean no_cr
    by (simp add: patch_lines_def full_diff_lines lines_of_written [folded written_def] del: written_simps)
  let ?st = "patch_start\<lparr> ps_new_headers := 1, ps_plus_path := path \<rparr>"
  have p: "path \<noteq> ''/dev/null''" "path \<noteq> []" "same_target path path" using assms(1) by (simp_all add: plain_path_def)
  have minus: "patch_step patch_start (''--- '' @ path) = Inr patch_start"
    using header_path_plain(1) [OF assms(1)] p(1)
    by (simp add: patch_step_def is_header_line_def close_hunk_def patch_start_def header_line_def Let_def)
  have plus: "patch_step patch_start (''+++ '' @ path) = Inr ?st"
    using header_path_plain(2) [OF assms(1)] p(1)
    by (simp add: patch_step_def is_header_line_def close_hunk_def patch_start_def header_line_def Let_def)
  have st: "close_hunk ?st = Inr ?st" "ps_current ?st = None" "1 = length (ps_hunks ?st) + 1"
    by (simp_all add: close_hunk_def patch_start_def)
  from hunks_steps [OF assms(2) st] obtain st' where f: "fold_err patch_step ?st ?texts = Inr st'"
    and c: "close_hunk st' = Inr (?st\<lparr> ps_hunks := ps_hunks ?st @ hunks_of 1 lines 0 (by_from spans) \<rparr>)" by blast
  have "by_from spans \<noteq> []" using assms(3) by (metis by_from_def length_0_conv length_sort)
  then have "hunks_of 1 lines 0 (by_from spans) \<noteq> []" by (cases "by_from spans") simp_all
  then show ?thesis
    unfolding parse_patch_def lines using minus plus f c p by (simp add: patch_start_def)
qed

section \<open>Applying it again\<close>

lemma between_length: "b \<le> length xs \<Longrightarrow> length (lines_between a b xs) = b - a"
  by (simp add: lines_between_def)

lemma between_set: "set (lines_between a b xs) \<subseteq> set xs"
  unfolding lines_between_def by (meson set_drop_subset set_take_subset subset_trans)

definition busy :: "span \<Rightarrow> bool" where
  "busy sp \<longleftrightarrow> 0 < sp_len sp \<or> sp_new sp \<noteq> []"

text \<open>The hunk that a diff has for a span is found where the span was, and becomes the span.\<close>

lemma hunk_of_span:
  assumes "prev_end \<le> sp_from sp" and "sp_from sp + sp_len sp \<le> next_from" and "next_from \<le> length lines" and "busy sp"
  shows "span_of lines path (hunk_of number lines prev_end next_from sp) = Inr sp"
proof -
  define lo hi where "lo = ctx_low prev_end sp" and "hi = ctx_high next_from sp"
  define a b c where "a = lines_between lo (sp_from sp) lines"
    and "b = lines_between (sp_from sp) (sp_from sp + sp_len sp) lines"
    and "c = lines_between (sp_from sp + sp_len sp) hi lines"
  let ?h = "hunk_of number lines prev_end next_from sp"
  have bounds: "lo \<le> sp_from sp" "sp_from sp + sp_len sp \<le> hi" "hi \<le> length lines"
    using assms by (simp_all add: lo_def hi_def ctx_low_def ctx_high_def)
  have lens: "length a = sp_from sp - lo" "length b = sp_len sp" "length c = hi - (sp_from sp + sp_len sp)"
    using bounds by (simp_all add: a_def b_def c_def between_length)
  have body: "h_lines ?h = map (Pair CHR '' '') a @ (map (Pair CHR ''-'') b @ map (Pair CHR ''+'') (sp_new sp)) @ map (Pair CHR '' '') c"
    by (simp add: hunk_of_def diff_body_def a_def b_def c_def lo_def hi_def)
  let ?core = "map (Pair CHR ''-'') b @ map (Pair CHR ''+'') (sp_new sp)"
  have busy_parts: "b \<noteq> [] \<or> sp_new sp \<noteq> []" using assms(4) lens(2) by (auto simp: busy_def)
  have core: "?core \<noteq> []" "\<not> is_kept (hd ?core)" "\<not> is_kept (last ?core)"
    using busy_parts by (auto simp: is_kept_def hd_append last_append hd_map last_map)
  have kept: "list_all is_kept (map (Pair CHR '' '') xs)" for xs :: "string list"
    by (simp add: is_kept_def list_all_iff)
  have take: "takeWhile is_kept (h_lines ?h) = map (Pair CHR '' '') a"
    unfolding body using core kept by (intro takeWhile_pre) (auto simp: hd_append)
  have drop: "dropWhile is_kept (h_lines ?h) = ?core @ map (Pair CHR '' '') c"
    unfolding body using core kept by (intro dropWhile_pre) (auto simp: hd_append)
  have end_kept: "list_all is_kept (rev (map (Pair CHR '' '') c))" using kept [of c] by (simp only: list_all_iff set_rev)
  have "\<not> is_kept (hd (rev ?core))" by (simp only: hd_rev core(3) not_False_eq_True)
  from dropWhile_pre [OF end_kept disjI2 [OF this]] have mid: "hunk_core (h_lines ?h) = ?core"
    unfolding hunk_core_def drop rev_append [of ?core] by (simp only: rev_rev_ident)
  have sides: "old_side (map (Pair CHR ''-'') xs) = xs" "old_side (map (Pair CHR ''+'') xs) = []"
    "new_side (map (Pair CHR ''-'') xs) = []" "new_side (map (Pair CHR ''+'') xs) = xs"
    "old_side (map (Pair CHR '' '') xs) = xs" "new_side (map (Pair CHR '' '') xs) = xs" for xs
    by (simp_all add: old_side_def new_side_def is_old_def is_new_def o_def filter_map)
  have old: "old_side (h_lines ?h) = lines_between lo hi lines"
    using between_more [of lo "sp_from sp" hi lines] between_more [of "sp_from sp" "sp_from sp + sp_len sp" hi lines] bounds
    by (simp add: body old_side_append sides a_def b_def c_def)
  have count: "length (old_side (h_lines ?h)) = hi - lo" "h_old_count ?h = hi - lo"
    using bounds by (simp_all add: old between_length) (simp add: hunk_of_def old_count_of_def lo_def hi_def)
  show ?thesis
  proof (cases "hi - lo = 0")
    case True
    then have z: "sp_len sp = 0" "lo = sp_from sp" "hi = sp_from sp" using bounds by simp_all
    then have "a = []" "b = []" "c = []" "sp_len sp = 0" using lens by simp_all
    moreover have "h_old_start ?h = sp_from sp"
      using True by (simp add: hunk_of_def start_of_def old_count_of_def lo_def hi_def)
    ultimately show ?thesis
      using count True bounds by (simp add: span_of_def Let_def pure_insert_def body new_side_append sides)
  next
    case False
    have start: "int (h_old_start ?h) - 1 = int lo"
      using False by (simp add: hunk_of_def start_of_def old_count_of_def lo_def hi_def)
    have "lines_match lines lo (old_side (h_lines ?h))"
      using bounds False by (simp add: lines_match_def count old lines_between_def take_drop)
    then have "locate_hunk lines (old_side (h_lines ?h)) (int (h_old_start ?h) - 1) = At lo"
      unfolding locate_At start by simp
    moreover have "old_side (h_lines ?h) \<noteq> []" using count(1) False by auto
    ultimately show ?thesis
      using bounds lens by (simp add: span_of_def Let_def take mid old_side_append new_side_append sides)
  qed
qed

lemma next_start_bounds:
  "spans_fit p n (sp # sps) \<Longrightarrow> sp_from sp + sp_len sp \<le> next_start n sps \<and> next_start n sps \<le> n"
  by (cases sps) (auto simp: spans_fit_def before_def next_start_def)

lemma hunks_become_spans:
  assumes "spans_fit prev_end (length lines) sps" and "list_all busy sps" and "sorted_wrt before (earlier @ sps)"
  shows "fold_err (add_span lines path) earlier (hunks_of number lines prev_end sps) = Inr (earlier @ sps)"
  using assms
proof (induction sps arbitrary: prev_end earlier number)
  case (Cons sp sps)
  have "span_of lines path (hunk_of number lines prev_end (next_start (length lines) sps) sp) = Inr sp"
    using Cons.prems next_start_bounds [OF Cons.prems(1)] spans_fit_Cons [OF Cons.prems(1)] by (intro hunk_of_span) simp_all
  moreover have "\<not> list_ex (\<lambda>e. overlap e sp) earlier"
    using Cons.prems(3) overlap_before by (auto simp: list_ex_iff sorted_wrt_append)
  ultimately have "add_span lines path earlier (hunk_of number lines prev_end (next_start (length lines) sps) sp) = Inr (earlier @ [sp])"
    using Cons.prems(2) by (simp add: add_span_def busy_def)
  then show ?case
    using Cons.IH [of "sp_from sp + sp_len sp" "earlier @ [sp]"] Cons.prems spans_fit_Cons [OF Cons.prems(1)] by simp
qed simp

lemma spans_are_readable:
  assumes "spans_fit prev_end (length lines) sps" and "list_all busy sps" and "length lines < 2 ^ 30"
    and "list_all (\<lambda>l. tame_line (CHR ''-'', l)) lines"
    and "list_all (\<lambda>sp. list_all (\<lambda>l. tame_line (CHR ''+'', l)) (sp_new sp) \<and> length (sp_new sp) < 2 ^ 30) sps"
  shows "spans_readable lines prev_end sps"
  using assms
proof (induction sps arbitrary: prev_end)
  case (Cons sp sps)
  let ?next = "next_start (length lines) sps"
  note fit = spans_fit_Cons [OF Cons.prems(1)] and nx = next_start_bounds [OF Cons.prems(1)]
  have ctx: "ctx_low prev_end sp \<le> sp_from sp" "sp_from sp + sp_len sp \<le> ctx_high ?next sp" "ctx_high ?next sp \<le> length lines"
    using fit nx by (auto simp: ctx_low_def ctx_high_def intro: min.coboundedI1)
  have new: "length (sp_new sp) < 2 ^ 30" using Cons.prems(5) by simp
  have starts: "start_of prev_end sp k < 2 ^ 31" for k using ctx Cons.prems(3) by (simp add: start_of_def)
  have "old_count_of prev_end ?next sp < 2 ^ 31" "new_count_of prev_end ?next sp < 2 ^ 31"
    unfolding old_count_of_def new_count_of_def using ctx new Cons.prems(3) by simp_all
  with starts have "numbers_fit prev_end ?next sp" by (simp add: numbers_fit_def)
  moreover have "tame_line (CHR ''-'', l) \<and> tame_line (CHR '' '', l)" if "l \<in> set (lines_between a b lines)" for l a b
    using that Cons.prems(4) between_set [of a b lines] by (auto simp: list_all_iff tame_line_def)
  then have "list_all tame_line (diff_body lines prev_end ?next sp)"
    using Cons.prems(5) by (auto simp: diff_body_def list_all_iff)
  moreover have "diff_body lines prev_end ?next sp \<noteq> []"
    using fit Cons.prems(2) between_length [of "sp_from sp + sp_len sp" lines "sp_from sp"] by (auto simp: diff_body_def busy_def)
  moreover have "spans_readable lines (sp_from sp + sp_len sp) sps"
    using Cons.IH Cons.prems fit by simp
  ultimately show ?case by simp
qed simp

lemma diff_length: "sp \<in> set sps \<Longrightarrow> length (sp_new sp) \<le> length (diff_hunks lines prev_end sps)"
proof (induction sps arbitrary: prev_end)
  case (Cons s sps)
  have marked: "length ls \<le> length (concat (map (diff_line c) ls))" for ls c by (induction ls) (simp_all add: diff_line_def)
  have "length (sp_new s) \<le> length (diff_hunk lines prev_end next_from s)" for next_from
    using marked [of "sp_new s" "CHR ''+''"] by (simp add: diff_hunk_def Let_def)
  then have "length (sp_new s) \<le> length (diff_hunks lines prev_end (s # sps))" by (auto intro: trans_le_add1)
  moreover have "length (diff_hunks lines (sp_from s + sp_len s) sps) \<le> length (diff_hunks lines prev_end (s # sps))" by simp
  ultimately show ?case using Cons by (metis le_trans set_ConsD)
qed simp

section \<open>The round trip\<close>

lemma good_spans_fit: "good_spans (length lines) spans \<Longrightarrow> spans_fit 0 (length lines) (by_from spans)"
  using sort_before by (auto simp: good_spans_def spans_fit_def list_all_iff by_from_def)

lemma span_of_new: "span_of lines path h = Inr sp \<Longrightarrow> set (sp_new sp) \<subseteq> set (new_side (h_lines h))"
proof -
  have "set (new_side (hunk_core pls)) \<subseteq> set (new_side pls)" for pls
    by (rule hunk_parts [of pls]) (metis new_side_append set_append Un_upper1 Un_upper2 subset_trans)
  then have "x \<in> set (new_side (hunk_core (h_lines h))) \<Longrightarrow> x \<in> set (new_side (h_lines h))" for x by blast
  then show "span_of lines path h = Inr sp \<Longrightarrow> set (sp_new sp) \<subseteq> set (new_side (h_lines h))"
    by (auto simp: span_of_def Let_def split: if_splits place.splits)
qed

lemma added_spans:
  assumes "fold_err (add_span lines path) [] hunks = Inr spans"
  shows "list_all (\<lambda>sp. busy sp \<and> (\<exists>h \<in> set hunks. set (sp_new sp) \<subseteq> set (new_side (h_lines h)))) spans"
proof (rule fold_err_inv [OF assms])
  fix t h t' assume "h \<in> set hunks" and r: "add_span lines path t h = Inr t'"
    and t: "list_all (\<lambda>sp. busy sp \<and> (\<exists>h \<in> set hunks. set (sp_new sp) \<subseteq> set (new_side (h_lines h)))) t"
  from r obtain sp where sp: "span_of lines path h = Inr sp" by (auto simp: add_span_def then_do_Inr_iff)
  have "\<exists>h \<in> set hunks. set (sp_new sp) \<subseteq> set (new_side (h_lines h))" using span_of_new [OF sp] \<open>h \<in> set hunks\<close> by blast
  moreover have "t' = t \<or> busy sp \<and> t' = t @ [sp]"
    using r sp by (auto simp: add_span_def busy_def split: if_splits)
  ultimately show "list_all (\<lambda>sp. busy sp \<and> (\<exists>h \<in> set hunks. set (sp_new sp) \<subseteq> set (new_side (h_lines h)))) t'"
    using t by (elim disjE) simp_all
qed simp

lemma by_from_again: "by_from (by_from spans) = by_from spans"
  by (simp add: by_from_def sort_key_id_if_sorted)

text \<open>
  C40. The diff that answers an edit makes the same edit: applied as a patch to the file as it was, it
  gives the same file and is answered by itself. The diff must not be cut off at 8000 characters, the
  line numbers must be below 2^30, the header must name the path, and no line may end in a carriage
  return, start with two dashes and a blank, or be added starting with two pluses and a blank.
\<close>

theorem answer_is_the_same_edit:
  assumes "change_file outcome path original hunks fs = (Inr answer, fs')" and "fs path = Some original"
    and "plain_path path" and "length answer \<le> k_max_output" and "length (lines_of original) < 2 ^ 30"
    and "list_all (\<lambda>l. tame_line (CHR ''-'', l)) (lines_of original)"
    and "list_all (\<lambda>h. list_all (\<lambda>l. tame_line (CHR ''+'', l)) (new_side (h_lines h))) hunks"
  shows "edit_patch True Write_ok path answer fs = (Inr answer, fs')"
proof -
  let ?lines = "lines_of original"
  from assms(1) obtain spans where f: "fold_err (add_span ?lines path) [] hunks = Inr spans"
    and changed: "updated_text original spans \<noteq> original"
    and fs': "fs' = fs(tmp_of path := None, path \<mapsto> updated_text original spans)"
    and answer: "answer = format_diff path ?lines spans False" by (rule change_file_ok)
  have full: "answer = full_diff path ?lines spans False" and short: "length (full_diff path ?lines spans False) \<le> 8000"
    using assms(4) answer by (auto simp: format_diff_def Let_def k_max_output_def split: if_splits)
  have good: "good_spans (length ?lines) spans" using edit_spans_do [OF f] by (simp add: spans_do_def)
  have fit: "spans_fit 0 (length ?lines) (by_from spans)" by (rule good_spans_fit [OF good])
  have members: "set (by_from spans) = set spans" by (simp add: by_from_def)
  have busy: "list_all busy (by_from spans)" using added_spans [OF f] members by (auto simp: list_all_iff)
  have new: "tame_line (CHR ''+'', l)" if sp: "sp \<in> set spans" and l: "l \<in> set (sp_new sp)" for sp l
  proof -
    from added_spans [OF f] sp obtain h where h: "h \<in> set hunks" "set (sp_new sp) \<subseteq> set (new_side (h_lines h))"
      by (auto simp: list_all_iff)
    with assms(7) l show ?thesis by (auto simp: list_all_iff)
  qed
  have small: "length (sp_new sp) < 2 ^ 30" if "sp \<in> set spans" for sp
    using diff_length [of sp "by_from spans" ?lines 0] that members short by (simp add: full_diff_def)
  have readable: "spans_readable ?lines 0 (by_from spans)"
    using new small members by (intro spans_are_readable [OF fit busy assms(5,6)]) (auto simp: list_all_iff)
  have some: "spans \<noteq> []"
  proof
    assume "spans = []"
    then have "updated_text original spans = original"
      using join_lines_of [of original] by (cases "original = []") (simp_all add: updated_text_def apply_spans_def by_from_def ends_with_newline_def)
    with changed show False by simp
  qed
  have "fold_err (add_span ?lines path) [] (hunks_of 1 ?lines 0 (by_from spans)) = Inr (by_from spans)"
    using hunks_become_spans [OF fit busy, of "[]"] fit by (simp add: spans_fit_def)
  moreover have "updated_text original (by_from spans) = updated_text original spans"
    "format_diff path ?lines (by_from spans) False = answer"
    by (simp_all add: answer updated_text_def apply_spans_def format_diff_def full_diff_def by_from_again)
  ultimately have "change_file Write_ok path original (hunks_of 1 ?lines 0 (by_from spans)) fs = (Inr answer, fs')"
    using changed fs' by (simp add: change_file_def write_atomic_def)
  then show ?thesis
    using parse_full_diff [OF assms(3) readable some] assms(2) by (simp add: edit_patch_def full)
qed

lemma demo_answer:
  "let (r, fs') = change_file Write_ok ''/f'' demo_file [demo_hunk] (\<lambda>p. Some demo_file) in
     \<not> isl r \<and> length (projr r) \<le> 60"
  by code_simp

lemma demo_tame:
  "plain_path ''/f''" "list_all (\<lambda>l. tame_line (CHR ''-'', l)) (lines_of demo_file)"
  "list_all (\<lambda>h. list_all (\<lambda>l. tame_line (CHR ''+'', l)) (new_side (h_lines h))) [demo_hunk]"
  "length (lines_of demo_file) = 3"
  by code_simp+

theorem answer_is_the_same_edit_witness:
  "\<exists>answer fs'. change_file Write_ok ''/f'' demo_file [demo_hunk] (\<lambda>p. Some demo_file) = (Inr answer, fs') \<and>
     edit_patch True Write_ok ''/f'' answer (\<lambda>p. Some demo_file) = (Inr answer, fs')"
proof -
  obtain r fs' where c: "change_file Write_ok ''/f'' demo_file [demo_hunk] (\<lambda>p. Some demo_file) = (r, fs')" by fastforce
  with demo_answer obtain answer where r: "r = Inr answer" "length answer \<le> 60" by (cases r) auto
  have "length answer \<le> k_max_output" "length (lines_of demo_file) < 2 ^ 30"
    using r(2) demo_tame(4) by (simp_all add: k_max_output_def)
  from answer_is_the_same_edit [OF c [unfolded r(1)] refl demo_tame(1) this demo_tame(2,3)] c r(1) show ?thesis by blast
qed

end
