(* ===== verification/Spec2Isabelle.thy ===== *)
theory Spec2Isabelle
  imports Chat_Prompt Jobs_Proofs Response_Stream Sessions_Proofs Startup_Proofs Tool_Edit_Diff
begin

text \<open>
  Callisto (\<open>llama-onprem-server\<close>) is a local model server: one GGUF model behind the OpenAI
  Responses API and a session API of its own. This development models its own code, file by file, and
  proves what makes it correct. The theories follow the sources under \<open>src/src\<close>; a definition has the
  name of the function it translates wherever HOL allows it.

  Start-up. \<open>Options\<close> (\<open>server/options.cpp\<close>) reads the command line and the config files, \<open>Startup\<close>
  (\<open>main.cpp\<close>, \<open>common/xdg.cpp\<close>, \<open>llm/context_params.hpp\<close>, \<open>LlamaEngine::create\<close>) turns the settings into
  directories, context parameters and an engine. \<open>Decimal\<close> holds the numbers both read and print.

  A request of the Responses API enters in \<open>Response_Stream\<close> (\<open>http/routes.cpp\<close>), is checked against the
  key and read by \<open>Response_Turn\<close>, and is answered through \<open>Response_Items\<close> and \<open>Response_Deltas\<close> over
  \<open>Marker_Search\<close> (all \<open>responses/responses.cpp\<close>, \<open>api/models.cpp\<close>). A request of the session API has the
  bodies of \<open>Session_Models\<close> and is an operation of \<open>Sessions\<close> (\<open>sessions/sessions.cpp\<close>): conversations,
  each the state machine \<open>Session\<close>, stored as files by \<open>Session_Disk\<close> (\<open>sessions/session_disk.cpp\<close>), with the
  long tool results of finished turns shortened by \<open>Tool_History\<close> (\<open>sessions/tool_history.cpp\<close>). Both
  become tasks of \<open>Jobs\<close> (\<open>jobs/jobs.cpp\<close>), whose single worker runs one turn at a time; pieces of text
  reach the HTTP thread through \<open>Token_Buffer\<close> (\<open>jobs/token_buffer.hpp\<close>).

  A turn is \<open>Chat_Prompt.chat\<close> (\<open>llm/llm_engine.cpp\<close>, \<open>llm/chat_prompt.hpp\<close>): render and tokenize the
  messages, reuse the common prefix (\<open>Token_Offset\<close>, \<open>Kv_Trim\<close>), decode and sample (\<open>Llm_Generate\<close>),
  deliver whole UTF-8 characters (\<open>Utf8_Stream\<close>). The engine parks and restores sessions (\<open>Llm_Engine\<close>,
  \<open>Llm_Parking\<close>, \<open>Llm_Budget\<close>) in RAM (\<open>Session_Park\<close>) and on disk (\<open>Session_Kv_Store\<close>). The finished text
  is read by \<open>Response_Parse\<close> (\<open>agent/response_parse.cpp\<close>) with the syntax of the model family
  (\<open>Model_Adapter\<close>, \<open>Devstral_Call\<close>, \<open>Text_Scan\<close>). The client edits files by patches with \<open>Tool_Edit\<close>
  (\<open>common/tools/tool_edit_file.cpp\<close>). \<open>Models\<close> and \<open>Json_Api\<close> hold the shared data and the interface to
  nlohmann::json. A theory \<open>X_Proofs\<close> (also \<open>Session_Turns\<close>, \<open>Session_Wire\<close>, \<open>Session_Disk_Plan\<close> and
  \<open>Tool_Edit_Diff\<close>) holds the lemmas about the definitions of another.

  State and effects. The engine, the stores, the sessions, the job runner and the event stream are
  records; each operation returns the record it leaves. Fallible operations return a sum. What is not in
  the repository is a parameter with a contract: llama.cpp (\<open>Llama_Api\<close>), JSON (\<open>Json_Api.json_contract\<close>,
  with plain trees as an instance), the failures of the file system, the clocks, the environment, and
  the order in which threads run. The interleaving of HTTP threads and the worker is the step relation
  \<open>job_step\<close>, every critical section of the code one step; the steps of one session interleave freely in
  \<open>session_step\<close>, while the operations of \<open>Sessions\<close> run one after another. Counters that the code guards
  against wrap-around are 64-bit words; arithmetic the language leaves undefined is an outcome of its own.

  Interfaces. \<open>Prelude\<close> states the contracts of streams: \<open>conserving_stream\<close> (nothing is lost) is interpreted
  on the UTF-8 buffer and \<open>chunked_transducer\<close> (the chunking does not matter) on the delta filter; the
  token buffer, the trim policies, the session stores, the tool-call syntaxes and their scanners have
  locales of their own, interpreted on the model's definitions where these are defined.

  What the lemmas show. Cache consistency: the cells of the context and the engine's tokens are equal
  after every operation and failure, sessions come back as they were, the RAM budget holds, saving is
  atomic. Scheduling: tasks start in order, one at a time, finish and notify once, and drain. Text: only
  whole characters, thoughts and markup come apart however the output is cut, calls written in the shown
  syntax are read back. Requests and answers: an accepted request is a well-formed turn, only the key
  opens the server, an answer has exactly one closing event, and a stream tells the whole answer.
  Conversations: what is pending fits the state in every session that can arise, a turn appends its
  message and answer or is rolled back, a session in use is never removed, a message queues one job or
  changes nothing; records and bodies come back as they were written, and the size limit removes the
  oldest first and no more than it must. Settings: sizes are exact or refused, the last setting wins,
  the context parameters fit together, and the engine that results satisfies the invariant of all its
  operations. Edits: a patch replaces exactly its hunks, a refused patch changes no file, and the diff
  that answers an edit is the same edit.

  Bounds and fuel. No definition needs fuel: the loops are structural, or terminate by the length of the
  text that is left (scanners, filters, lines), of the queue, or of the pulls and frames that are left
  (\<open>Response_Stream\<close>). A token list has at most as many tokens as the context has cells; ids have at most
  120 characters; 64-bit sums saturate as in the code.

  Not modelled: the bundled HTTP library and the llama.cpp submodule (third-party code), logging, terminal
  colours and scope guards (no behaviour of their own), sockets, signals and the usage text of \<open>main.cpp\<close>,
  the registration of the routes, and the tools of the client other than the editing of files. The
  components of \<open>PROJECT.json\<close> with another status than modelled say what is left.
\<close>

section \<open>The job runner over the parser of completions\<close>

definition complete_calls :: "'j parsed_tool_call list \<Rightarrow> bool" where
  "complete_calls calls \<longleftrightarrow> (\<forall>c \<in> set calls. tc_name c \<noteq> [] \<and> tc_id c \<noteq> [])"

lemma coerced_complete: "complete_calls calls \<Longrightarrow> complete_calls (coerce_tool_arguments js tools calls)"
  by (auto simp: complete_calls_def coerce_tool_arguments_def coerce_call_def Let_def)

lemma actions_complete:
  "complete_calls (pa_tool_calls (parse_assistant_actions js (make_model_adapter js model_path template_path) s))"
  using actions_have_ids [of js "make_model_adapter js model_path template_path" s]
    tool_call_syntax.actions_ok(1) [OF every_adapter_is_a_syntax [of js model_path template_path] refl, of js s]
  by (simp add: complete_calls_def named_calls_def)

lemma read_complete:
  "complete_calls (pa_tool_calls (snd (read_completion js (make_model_adapter js model_path template_path) tools full think)))"
  by (simp add: read_completion_def Let_def coerced_complete actions_complete)
    (simp add: no_actions_def complete_calls_def)

lemma step_to_done:
  assumes "job_inv j" and "job_step parse j j'" and "k \<in> set (enqueued j')"
    and "t_state (heap j' k) = Done" and "\<not> (k \<in> set (enqueued j) \<and> t_state (heap j k) = Done)"
  shows "\<exists>full think. t_calls (heap j' k) = pa_tool_calls (snd (parse full think))"
  using assms(2)
proof cases
  case (step_end k' sent out used total_ctx)
  show ?thesis
  proof (cases "k = k'")
    case True
    with step_end(1) assms(4) show ?thesis
      by (cases out; simp add: end_turn_def Let_def with_task_def set_error_state_def set_result_def
          split: prod.splits if_splits; metis snd_conv)
  next
    case False
    then show ?thesis using step_end(1) assms(3-5) by (subst (asm) end_turn_shape) simp
  qed
qed (use assms(3-5) in \<open>auto simp: enqueue_def unsafe_gc_def Let_def cancel_lookup_def cancel_complete_def
      shutdown_cancel_def jobs_release_session_def jobs_clone_session_def wait_next_def start_task_def
      accept_piece_def worker_finish_def apply_taken_def finish_standing set_cancelled_def request_cancel_def
      note_context_def with_task_def set_running_def split: prod.splits if_splits\<close>)

lemma done_calls_complete:
  assumes "reachable parse j" and "\<And>full think. complete_calls (pa_tool_calls (snd (parse full think)))"
  shows "\<forall>k \<in> set (enqueued j). t_state (heap j k) = Done \<longrightarrow> complete_calls (t_calls (heap j k))"
  using assms(1)
proof (induction rule: reachable.induct)
  case (reach_step j j')
  have inv: "job_inv j" using reach_step.hyps(1) by (rule reachable_inv)
  show ?case
  proof (intro ballI impI)
    fix k assume k: "k \<in> set (enqueued j')" "t_state (heap j' k) = Done"
    show "complete_calls (t_calls (heap j' k))"
    proof (cases "k \<in> set (enqueued j) \<and> t_state (heap j k) = Done")
      case True
      then have "answer_of (heap j' k) = answer_of (heap j k)"
        using step_keeps_answer [OF inv _ _ reach_step.hyps(2)] by (simp add: is_finished_def)
      with True reach_step.IH show ?thesis by (simp add: answer_of_def)
    next
      case False
      with step_to_done [OF inv reach_step.hyps(2) k] assms(2) show ?thesis by auto
    qed
  qed
qed (simp add: initial_jobs_def)

text \<open>
  C15. The job runner over the parser of completions: whatever the models write and however requests,
  cancellations and the worker interleave, every task a client sees as done carries only tool calls
  that have a name and an id.
\<close>

theorem done_tasks_carry_complete_calls:
  assumes "reachable (read_completion js (make_model_adapter js model_path template_path) tools) j"
    and "k \<in> set (enqueued j)" and "t_state (heap j k) = Done"
  shows "\<forall>c \<in> set (t_calls (heap j k)). tc_name c \<noteq> [] \<and> tc_id c \<noteq> []"
  using done_calls_complete [OF assms(1) read_complete] assms(2,3) by (simp add: complete_calls_def)

definition demo_reader :: "string \<Rightarrow> bool \<Rightarrow> string \<times> json_tree parsed_actions" where
  "demo_reader = read_completion tree_json (make_model_adapter tree_json ''qwen'' []) []"

definition demo_call_text :: string where
  "demo_call_text = ''<tool_call>'' @ render_call ''run'' [(''cmd'', ''ls'')] @ ''</tool_call>''"

definition demo_call_start :: "json_tree jobs" where
  "demo_call_start = start_task 1 (apply_taken (wait_next (enqueue 1 (new_task True) (initial_jobs False))))"

definition demo_call_done :: "json_tree jobs" where
  "demo_call_done = end_turn demo_reader 1 (Out_text demo_call_text) 3 8 demo_call_start"

lemma demo_call_reachable: "reachable demo_reader demo_call_done"
proof -
  let ?q = "enqueue 1 (new_task True) (initial_jobs False) :: json_tree jobs"
  have "job_step demo_reader (initial_jobs False) ?q"
    by (rule step_enqueue) (simp_all add: initial_jobs_def new_task_def)
  then have q: "reachable demo_reader ?q" by (rule reach_step [OF reach_init])
  have f: "worker ?q = W_wait" "\<not> stopping ?q" "queue ?q \<noteq> []"
    "worker (wait_next ?q) = W_fetched (Some 1)" "\<not> stopping (wait_next ?q)"
    "worker demo_call_start = W_running 1 False"
    by code_simp+
  have "job_step demo_reader ?q (wait_next ?q)" using f by (intro step_fetch) simp_all
  with q have w: "reachable demo_reader (wait_next ?q)" by (rule reach_step)
  have "job_step demo_reader (wait_next ?q) demo_call_start"
    unfolding demo_call_start_def using f(4,5) by (rule step_start)
  with w have s: "reachable demo_reader demo_call_start" by (rule reach_step)
  show ?thesis unfolding demo_call_done_def by (rule reach_step [OF s step_end [OF f(6)]])
qed

theorem done_tasks_carry_complete_calls_witness:
  "t_state (heap demo_call_done 1) = Done \<and> t_calls (heap demo_call_done 1) \<noteq> [] \<and>
   tc_id (hd (t_calls (heap demo_call_done 1))) \<noteq> []"
proof -
  have s: "1 \<in> set (enqueued demo_call_start)" "\<not> t_cancel_requested (heap demo_call_start 1)"
    "opened_think demo_call_start = False"
    by code_simp+
  have "pa_tool_calls (snd (demo_reader demo_call_text False)) \<noteq> []" by code_simp
  then have d: "1 \<in> set (enqueued demo_call_done)" "t_state (heap demo_call_done 1) = Done"
    "t_calls (heap demo_call_done 1) \<noteq> []"
    using s by (auto simp: demo_call_done_def end_turn_def Let_def set_result_def split: prod.splits)
  from done_tasks_carry_complete_calls [OF demo_call_reachable [unfolded demo_reader_def] d(1,2)] d(2,3)
  show ?thesis by simp
qed

end
